(* ===== verification/Prelude.thy ===== *)
theory Prelude
  imports Main "HOL-Library.Word" "HOL-Library.Monad_Syntax"
begin

text \<open>
  Shared vocabulary of the development: the machine types of the C code, NUL-terminated
  strings with the order of \<open>strcmp\<close>, byte encodings of integers, and generic list lemmas.
  A C operation that can fail an \<open>assert\<close> or follow a bad pointer returns an \<open>option\<close>;
  \<open>None\<close> is that fault. The \<open>named_theorems\<close> below collect the facts the component
  theories rewrite with.
\<close>

unbundle bit_operations_syntax

named_theorems ring_simps \<open>index arithmetic of ring buffers\<close>
named_theorems wheel_simps \<open>time and slot arithmetic of the timer wheel\<close>
named_theorems byte_simps \<open>encodings of integers as bytes\<close>
named_theorems frame_simps \<open>what an operation leaves unchanged\<close>

type_synonym byte = "8 word"
type_synonym u16 = "16 word"
type_synonym u32 = "32 word"
type_synonym u64 = "64 word"
type_synonym addr = nat

section \<open>C strings\<close>

text \<open>
  A C string is what a \<open>char *\<close> denotes: the characters before the first NUL. The type
  excludes NUL, so that \<open>strcmp\<close> is a linear order on it.
\<close>

typedef cstring = "{s :: string. CHR 0x00 \<notin> set s}"
  morphisms chars_of Abs_cstring
  by (rule exI [of _ "[]"]) simp

setup_lifting type_definition_cstring

text \<open>\<open>cs a\<close> is the string found at a character array \<open>a\<close>.\<close>

lift_definition cs :: "string \<Rightarrow> cstring" is "takeWhile (\<lambda>c. c \<noteq> CHR 0x00)"
  by (auto dest: set_takeWhileD)

lemma chars_of_cs [simp]: "chars_of (cs s) = takeWhile (\<lambda>c. c \<noteq> CHR 0x00) s"
  by (rule cs.rep_eq)

lemma chars_of_no_nul [simp]: "CHR 0x00 \<notin> set (chars_of x)"
  using chars_of [of x] by simp

lemma cs_eq_iff [simp]:
  "cs a = cs b \<longleftrightarrow> takeWhile (\<lambda>c. c \<noteq> CHR 0x00) a = takeWhile (\<lambda>c. c \<noteq> CHR 0x00) b"
  by transfer simp

lemma cs_chars_of [simp]: "cs (chars_of x) = x"
proof -
  have "chars_of (cs (chars_of x)) = chars_of x"
    by (simp add: takeWhile_eq_all_conv) (metis chars_of_no_nul)
  then show ?thesis by (simp only: chars_of_inject)
qed

text \<open>
  \<open>strcmp\<close>: the difference of the first unequal pair of bytes, the end of a string
  counting as 0.
\<close>

abbreviation code_of :: "char \<Rightarrow> int" where
  "code_of c \<equiv> int (of_char c)"

fun strcmp_chars :: "string \<Rightarrow> string \<Rightarrow> int" where
  "strcmp_chars [] [] = 0"
| "strcmp_chars [] (y # ys) = - code_of y"
| "strcmp_chars (x # xs) [] = code_of x"
| "strcmp_chars (x # xs) (y # ys) =
     (if x = y then strcmp_chars xs ys else code_of x - code_of y)"

definition strcmp :: "cstring \<Rightarrow> cstring \<Rightarrow> int" where
  "strcmp a b = strcmp_chars (chars_of a) (chars_of b)"

lemma code_of_inj: "code_of c = code_of d \<longleftrightarrow> c = d"
  by (simp only: of_nat_eq_iff of_char_eq_iff)

lemma code_of_pos: "c \<noteq> CHR 0x00 \<Longrightarrow> 0 < code_of c"
proof -
  assume "c \<noteq> CHR 0x00"
  then have "code_of c \<noteq> code_of (CHR 0x00)"
    by (simp only: code_of_inj not_False_eq_True)
  then show ?thesis by (simp del: of_nat_of_char)
qed

lemma strcmp_chars_0:
  "CHR 0x00 \<notin> set a \<Longrightarrow> CHR 0x00 \<notin> set b \<Longrightarrow> strcmp_chars a b = 0 \<longleftrightarrow> a = b"
proof (induction a b rule: strcmp_chars.induct)
  case (2 y ys)
  then show ?case using code_of_pos [of y] by (auto simp del: of_nat_of_char)
next
  case (3 x xs)
  then show ?case using code_of_pos [of x] by (auto simp del: of_nat_of_char)
next
  case (4 x xs y ys)
  then show ?case using code_of_inj [of x y] by (auto simp del: of_nat_of_char)
qed simp

lemma strcmp_chars_anti: "strcmp_chars b a = - strcmp_chars a b"
  by (induction a b rule: strcmp_chars.induct) auto

lemma strcmp_chars_trans:
  assumes "CHR 0x00 \<notin> set a" "CHR 0x00 \<notin> set b" "CHR 0x00 \<notin> set c"
    and "strcmp_chars a b < 0" "strcmp_chars b c < 0"
  shows "strcmp_chars a c < 0"
  using assms
proof (induction a b arbitrary: c rule: strcmp_chars.induct)
  case (2 y ys)
  then obtain z zs where "c = z # zs" by (cases c) (auto simp del: of_nat_of_char)
  with 2 show ?case using code_of_pos [of z] by (auto simp del: of_nat_of_char)
next
  case (4 x xs y ys)
  show ?case
  proof (cases c)
    case Nil
    with 4 code_of_pos [of y] show ?thesis by (simp del: of_nat_of_char)
  next
    case (Cons z zs)
    show ?thesis
    proof (cases "x = y \<and> y = z")
      case True
      with 4 Cons show ?thesis by simp
    next
      case False
      with 4 Cons have "code_of x < code_of z"
        by (auto simp del: of_nat_of_char split: if_splits)
      then show ?thesis using Cons by (auto simp del: of_nat_of_char)
    qed
  qed
qed (auto simp del: of_nat_of_char)

lemma strcmp_0 [simp]: "strcmp a b = 0 \<longleftrightarrow> a = b"
  by (simp add: strcmp_def strcmp_chars_0 chars_of_inject)

lemma strcmp_anti: "strcmp b a = - strcmp a b"
  unfolding strcmp_def by (rule strcmp_chars_anti)

instantiation cstring :: equal
begin

definition equal_cstring :: "cstring \<Rightarrow> cstring \<Rightarrow> bool" where
  "equal_cstring a b \<longleftrightarrow> chars_of a = chars_of b"

instance
  by standard (simp add: equal_cstring_def chars_of_inject)

end

instantiation cstring :: linorder
begin

definition less_cstring :: "cstring \<Rightarrow> cstring \<Rightarrow> bool" where
  "less_cstring a b \<longleftrightarrow> strcmp a b < 0"

definition less_eq_cstring :: "cstring \<Rightarrow> cstring \<Rightarrow> bool" where
  "less_eq_cstring a b \<longleftrightarrow> strcmp a b \<le> 0"

instance
proof
  fix x y z :: cstring
  show "x < y \<longleftrightarrow> x \<le> y \<and> \<not> y \<le> x"
    using strcmp_anti [of x y] by (auto simp: less_cstring_def less_eq_cstring_def)
  show "x \<le> x" by (simp add: less_eq_cstring_def order.order_iff_strict)
  show "x \<le> y \<or> y \<le> x"
    using strcmp_anti [of x y] by (auto simp: less_eq_cstring_def)
  show "x = y" if "x \<le> y" "y \<le> x"
  proof -
    from that strcmp_anti [of x y] have "strcmp x y = 0" by (simp add: less_eq_cstring_def)
    then show ?thesis by simp
  qed
  show "x \<le> z" if "x \<le> y" "y \<le> z"
  proof (cases "x = y \<or> y = z")
    case True
    with that show ?thesis by auto
  next
    case False
    have "strcmp x y \<noteq> 0" "strcmp y z \<noteq> 0" using False by simp_all
    then have "strcmp x y < 0" and "strcmp y z < 0"
      using that by (simp_all add: less_eq_cstring_def order.order_iff_strict del: strcmp_0)
    then have "strcmp x z < 0"
      unfolding strcmp_def by (metis strcmp_chars_trans chars_of_no_nul)
    then show ?thesis by (simp add: less_eq_cstring_def)
  qed
qed

end

lemma strcmp_less [simp]: "strcmp a b < 0 \<longleftrightarrow> a < b"
  by (simp add: less_cstring_def)

section \<open>Integers as bytes\<close>

text \<open>Little-endian encodings, as on the machines the code runs on.\<close>

fun le_bytes :: "nat \<Rightarrow> nat \<Rightarrow> byte list" where
  "le_bytes 0 x = []"
| "le_bytes (Suc n) x = word_of_nat x # le_bytes n (x div 256)"

fun le_nat :: "byte list \<Rightarrow> nat" where
  "le_nat [] = 0"
| "le_nat (b # bs) = unat b + 256 * le_nat bs"

lemma length_le_bytes [simp]: "length (le_bytes n x) = n"
  by (induction n arbitrary: x) auto

lemma le_nat_le_bytes [byte_simps]: "le_nat (le_bytes n x) = x mod 256 ^ n"
proof (induction n arbitrary: x)
  case (Suc n)
  have "unat (word_of_nat x :: byte) = x mod 256"
    by (simp add: unsigned_of_nat take_bit_eq_mod)
  with Suc show ?case by (simp add: mod_mult2_eq)
qed simp

lemma le_bytes_le_nat [byte_simps]: "le_bytes (length bs) (le_nat bs) = bs"
proof (induction bs)
  case (Cons b bs)
  have b: "unat b < 256" using unsigned_less [of b, where ?'a = nat] by simp
  then have "(unat b + 256 * le_nat bs) div 256 = le_nat bs" by simp
  moreover have "word_of_nat (unat b + 256 * le_nat bs) = b"
  proof -
    have "(256 :: byte) * word_of_nat n = 0" for n
      by (rule word_unat_eq_iff [THEN iffD2]) (simp add: unat_word_ariths)
    then show ?thesis by simp
  qed
  ultimately show ?case using Cons by simp
qed simp

lemma le_nat_bound: "le_nat bs < 256 ^ length bs"
proof (induction bs)
  case (Cons b bs)
  have "unat b < 256" using unsigned_less [of b, where ?'a = nat] by simp
  with Cons show ?case by simp
qed simp

text \<open>A C \<open>int\<close> in memory, and the \<open>int\<close> read from four bytes.\<close>

definition int_bytes :: "int \<Rightarrow> byte list" where
  "int_bytes i = le_bytes 4 (nat (i mod 2 ^ 32))"

definition bytes_int :: "byte list \<Rightarrow> int" where
  "bytes_int bs = (let n = int (le_nat (take 4 bs)) in if n < 2 ^ 31 then n else n - 2 ^ 32)"

lemma length_int_bytes [simp]: "length (int_bytes i) = 4"
  by (simp add: int_bytes_def)

lemma bytes_int_int_bytes [byte_simps]:
  "- (2 ^ 31) \<le> i \<Longrightarrow> i < 2 ^ 31 \<Longrightarrow> bytes_int (int_bytes i @ bs) = i"
proof -
  assume i: "- (2 ^ 31) \<le> i" "i < 2 ^ 31"
  have "le_nat (take 4 (int_bytes i @ bs)) = nat (i mod 2 ^ 32)"
    by (simp add: int_bytes_def byte_simps)
  then have "int (le_nat (take 4 (int_bytes i @ bs))) = i mod 2 ^ 32" by simp
  moreover have "i mod 2 ^ 32 = (if 0 \<le> i then i else i + 2 ^ 32)"
  proof (cases "0 \<le> i")
    case False
    then have "(i + 2 ^ 32) mod 2 ^ 32 = i + 2 ^ 32" using i by (intro mod_pos_pos_trivial) auto
    with False show ?thesis by simp
  qed (use i in simp)
  ultimately show ?thesis using i by (auto simp: bytes_int_def Let_def)
qed

section \<open>Options\<close>

lemma option_eqI: "(\<And>a. x = Some a \<longleftrightarrow> y = Some a) \<Longrightarrow> x = y"
  by (cases x; cases y) auto

section \<open>Words of bytes\<close>

unbundle bit_operations_syntax

lemma unat_byte: "unat a < 256" for a :: byte
  using unsigned_less [where w = a and 'a = nat] by simp

lemma unat_drop: "unat (drop_bit k x) = unat x div 2 ^ k"
proof -
  have "unat (drop_bit k x) = drop_bit k (unat x)"
    by (subst unsigned_drop_bit_eq, subst take_bit_nat_eq_self) (use unsigned_less [where w = x and 'a = nat] in simp_all)
  then show ?thesis by (simp add: drop_bit_eq_div)
qed

lemma or_add: "b < 2 ^ k \<Longrightarrow> push_bit k a OR b = a * 2 ^ k + b" for a b :: nat
proof -
  assume "b < 2 ^ k"
  then have b: "b = take_bit k b" by (simp add: take_bit_nat_eq_self)
  have "push_bit k a AND take_bit k b = 0" by (rule bit_eqI) (auto simp: bit_simps)
  with b have "push_bit k a AND b = 0" by simp
  then show ?thesis by (simp add: disjunctive_add_eq_or [symmetric] push_bit_eq_mult)
qed

lemma le_bytes_add: "le_bytes (a + b) x = le_bytes a x @ le_bytes b (x div 256 ^ a)"
  by (induction a arbitrary: x) (simp_all add: div_mult2_eq)

lemma le_bytes_0: "le_bytes n 0 = replicate n 0"
  by (induction n) simp_all

lemma le_bytes_mod: "le_bytes k (x mod 256 ^ k) = le_bytes k x"
  by (metis le_bytes_le_nat le_nat_le_bytes length_le_bytes)

end
