(* ===== verification/Interfaces.thy ===== *)
theory Interfaces
  imports Prelude
begin

text \<open>
  The contracts between the components, as locales: what a provider promises of its
  operations, and what a client can conclude from that alone. Each locale is interpreted
  on the model's own definitions in the theory that provides them.
\<close>

section \<open>First-in first-out queues\<close>

datatype 'm qop = Push 'm | Pop

text \<open>A run of pushes and pops, with the result of each pop, on a queue and on a list.\<close>

fun run_qops ::
  "('m \<Rightarrow> 'q \<Rightarrow> 'q) \<Rightarrow> ('q \<Rightarrow> 'm option \<times> 'q) \<Rightarrow> 'm qop list \<Rightarrow> 'q \<Rightarrow> 'm option list \<times> 'q" where
  "run_qops enq deq [] q = ([], q)"
| "run_qops enq deq (Push m # ops) q = run_qops enq deq ops (enq m q)"
| "run_qops enq deq (Pop # ops) q =
     (let (r, q') = deq q; (rs, q'') = run_qops enq deq ops q' in (r # rs, q''))"

fun run_list :: "'m qop list \<Rightarrow> 'm list \<Rightarrow> 'm option list \<times> 'm list" where
  "run_list [] xs = ([], xs)"
| "run_list (Push m # ops) xs = run_list ops (xs @ [m])"
| "run_list (Pop # ops) [] = (let (rs, xs) = run_list ops [] in (None # rs, xs))"
| "run_list (Pop # ops) (x # xs) = (let (rs, ys) = run_list ops xs in (Some x # rs, ys))"

locale fifo =
  fixes enq :: "'m \<Rightarrow> 'q \<Rightarrow> 'q"
    and deq :: "'q \<Rightarrow> 'm option \<times> 'q"
    and contents :: "'q \<Rightarrow> 'm list"
    and ok :: "'q \<Rightarrow> bool"
  assumes enq_ok: "ok q \<Longrightarrow> ok (enq m q)"
    and deq_ok: "ok q \<Longrightarrow> ok (snd (deq q))"
    and enq_contents: "ok q \<Longrightarrow> contents (enq m q) = contents q @ [m]"
    and deq_result: "ok q \<Longrightarrow>
      fst (deq q) = (case contents q of [] \<Rightarrow> None | m # _ \<Rightarrow> Some m)"
    and deq_contents: "ok q \<Longrightarrow> contents (snd (deq q)) = tl (contents q)"
begin

text \<open>Any run answers every pop as a list used as a queue does.\<close>

lemma run_refines:
  "ok q \<Longrightarrow> fst (run_qops enq deq ops q) = fst (run_list ops (contents q))
     \<and> contents (snd (run_qops enq deq ops q)) = snd (run_list ops (contents q))
     \<and> ok (snd (run_qops enq deq ops q))"
proof (induction ops arbitrary: q)
  case Nil
  then show ?case by simp
next
  case (Cons op ops)
  show ?case
  proof (cases op)
    case (Push m)
    with Cons.IH [of "enq m q"] Cons.prems show ?thesis
      by (simp add: enq_ok enq_contents)
  next
    case Pop
    note IH = Cons.IH [OF deq_ok, OF Cons.prems]
    show ?thesis
      using IH deq_result [OF Cons.prems] deq_contents [OF Cons.prems] Pop
      by (cases "contents q") (auto simp: case_prod_unfold Let_def)
  qed
qed

lemma push_all: "ok q \<Longrightarrow> ok (fold enq ms q) \<and> contents (fold enq ms q) = contents q @ ms"
  by (induction ms arbitrary: q) (auto simp: enq_ok enq_contents)

end

section \<open>Linked work lists in a store\<close>

text \<open>
  A store \<open>'s\<close> holds items at addresses; some of them are linked into a work list.
  \<open>rep s as\<close> says that the list is \<open>as\<close>, \<open>item s a\<close> is the item at \<open>a\<close>,
  \<open>recur x\<close> that an item goes back to the end of the list as soon as it is taken.
\<close>

locale work_list =
  fixes push :: "addr \<Rightarrow> 's \<Rightarrow> 's option"
    and pop :: "'s \<Rightarrow> (addr option \<times> 's) option"
    and item :: "'s \<Rightarrow> addr \<Rightarrow> 'i option"
    and recur :: "'i \<Rightarrow> bool"
    and rep :: "'s \<Rightarrow> addr list \<Rightarrow> bool"
  assumes rep_distinct: "rep s as \<Longrightarrow> distinct as"
    and rep_dom: "rep s as \<Longrightarrow> a \<in> set as \<Longrightarrow> item s a \<noteq> None"
    and push_rep: "rep s as \<Longrightarrow> a \<notin> set as \<Longrightarrow> item s a \<noteq> None \<Longrightarrow>
      \<exists>s'. push a s = Some s' \<and> rep s' (as @ [a]) \<and> item s' = item s"
    and pop_Nil: "rep s [] \<Longrightarrow> pop s = Some (None, s)"
    and pop_Cons: "rep s (a # as) \<Longrightarrow> item s a = Some x \<Longrightarrow>
      \<exists>s'. pop s = Some (Some a, s') \<and> rep s' (if recur x then as @ [a] else as)
        \<and> item s' = item s"
begin

lemma pop_total: "rep s as \<Longrightarrow> \<exists>r s'. pop s = Some (r, s') \<and> (r = None \<longleftrightarrow> as = [])"
proof (cases as)
  case Nil
  moreover assume "rep s as"
  ultimately show ?thesis using pop_Nil by auto
next
  case (Cons a as')
  assume rep: "rep s as"
  with Cons rep_dom obtain x where "item s a = Some x" by fastforce
  with pop_Cons rep Cons show ?thesis by blast
qed

text \<open>Items that do not recur come out in the order in which they went in.\<close>

lemma push_pop_order:
  assumes "rep s []" and "item s a = Some x" "\<not> recur x" and "item s b = Some y" "a \<noteq> b"
  shows "\<exists>s1 s2 s3. push a s = Some s1 \<and> push b s1 = Some s2 \<and> pop s2 = Some (Some a, s3)
    \<and> rep s3 [b]"
proof -
  from push_rep [OF assms(1)] assms(2) obtain s1
    where 1: "push a s = Some s1" "rep s1 [a]" "item s1 = item s" by auto
  from push_rep [OF 1(2), of b] assms(4,5) 1(3) obtain s2
    where 2: "push b s1 = Some s2" "rep s2 [a, b]" "item s2 = item s" by auto
  from pop_Cons [of s2 a "[b]" x] 2 assms(2,3) obtain s3
    where "pop s2 = Some (Some a, s3)" "rep s3 [b]" by auto
  with 1 2 show ?thesis by blast
qed

end

section \<open>Tables of ids\<close>

text \<open>
  A table gives each id in it a slot of its own. The operations report the slot, or -1;
  \<open>find\<close> is the table as a partial map.
\<close>

datatype id_op = Open int | Close int

fun id_run ::
  "('t \<Rightarrow> int \<Rightarrow> (int \<times> 't) option) \<Rightarrow> ('t \<Rightarrow> int \<Rightarrow> (int \<times> 't) option) \<Rightarrow> ('t \<Rightarrow> bool)
     \<Rightarrow> id_op list \<Rightarrow> 't \<Rightarrow> 't option" where
  "id_run ins rem full [] t = Some t"
| "id_run ins rem full (Open x # ops) t =
     (if full t then id_run ins rem full ops t
      else do { (_, t) \<leftarrow> ins t x; id_run ins rem full ops t })"
| "id_run ins rem full (Close x # ops) t = do { (_, t) \<leftarrow> rem t x; id_run ins rem full ops t }"

text \<open>The ids that are open after a run, when at most \<open>n\<close> fit.\<close>

fun open_ids :: "nat \<Rightarrow> id_op list \<Rightarrow> int set \<Rightarrow> int set" where
  "open_ids n [] S = S"
| "open_ids n (Open x # ops) S = open_ids n ops (if card S = n then S else insert x S)"
| "open_ids n (Close x # ops) S = open_ids n ops (S - {x})"

text \<open>Ids are not negative and no id is opened while it is open.\<close>

fun ids_fresh :: "nat \<Rightarrow> id_op list \<Rightarrow> int set \<Rightarrow> bool" where
  "ids_fresh n [] S = True"
| "ids_fresh n (Open x # ops) S = (0 \<le> x \<and> x \<notin> S \<and> ids_fresh n ops (if card S = n then S else insert x S))"
| "ids_fresh n (Close x # ops) S = (0 \<le> x \<and> ids_fresh n ops (S - {x}))"

locale id_table =
  fixes find :: "'t \<Rightarrow> int \<Rightarrow> nat option"
    and ins :: "'t \<Rightarrow> int \<Rightarrow> (int \<times> 't) option"
    and rem :: "'t \<Rightarrow> int \<Rightarrow> (int \<times> 't) option"
    and lookup :: "'t \<Rightarrow> int \<Rightarrow> int option"
    and full :: "'t \<Rightarrow> bool"
    and cap :: "'t \<Rightarrow> nat"
    and ok :: "'t \<Rightarrow> bool"
  assumes find_inj: "ok t \<Longrightarrow> find t x = Some i \<Longrightarrow> find t y = Some i \<Longrightarrow> x = y"
    and find_finite: "ok t \<Longrightarrow> finite (dom (find t))"
    and full_iff: "ok t \<Longrightarrow> full t \<longleftrightarrow> card (dom (find t)) = cap t"
    and ins_new: "ok t \<Longrightarrow> 0 \<le> x \<Longrightarrow> find t x = None \<Longrightarrow> \<not> full t \<Longrightarrow>
      \<exists>i t'. ins t x = Some (int i, t') \<and> ok t' \<and> find t' = (find t)(x := Some i) \<and> cap t' = cap t"
    and rem_any: "ok t \<Longrightarrow> 0 \<le> x \<Longrightarrow>
      \<exists>t'. rem t x = Some (case find t x of None \<Rightarrow> -1 | Some i \<Rightarrow> int i, t') \<and> ok t'
        \<and> find t' = (find t)(x := None) \<and> cap t' = cap t"
    and lookup_find: "ok t \<Longrightarrow> 0 \<le> x \<Longrightarrow>
      lookup t x = Some (case find t x of None \<Rightarrow> -1 | Some i \<Rightarrow> int i)"
begin

text \<open>Every run keeps exactly the open ids in the table, each with a slot of its own.\<close>

lemma run_ids:
  "ok t \<Longrightarrow> ids_fresh (cap t) ops (dom (find t)) \<Longrightarrow>
   \<exists>t'. id_run ins rem full ops t = Some t' \<and> ok t' \<and> cap t' = cap t
     \<and> dom (find t') = open_ids (cap t) ops (dom (find t))"
proof (induction ops arbitrary: t)
  case Nil
  then show ?case by simp
next
  case (Cons op ops)
  show ?case
  proof (cases op)
    case (Open x)
    show ?thesis
    proof (cases "full t")
      case True
      with Open Cons.prems full_iff [of t] Cons.IH [of t] show ?thesis by simp
    next
      case False
      from Open Cons.prems have x: "0 \<le> x" "find t x = None" by auto
      from ins_new [OF Cons.prems(1) x False] obtain i t' where
        "ins t x = Some (int i, t')" "ok t'" "find t' = (find t)(x := Some i)" "cap t' = cap t" by blast
      moreover from this have d: "dom (find t') = insert x (dom (find t))" by simp
      ultimately show ?thesis
        using Open Cons.prems False full_iff [of t] Cons.IH [of t', unfolded d] by simp
    qed
  next
    case (Close x)
    with Cons.prems have "0 \<le> x" by simp
    from rem_any [OF Cons.prems(1) this] obtain t' where
      "rem t x = Some (case find t x of None \<Rightarrow> -1 | Some i \<Rightarrow> int i, t')" "ok t'"
      "find t' = (find t)(x := None)" "cap t' = cap t" by blast
    moreover from this have d: "dom (find t') = dom (find t) - {x}" by simp
    ultimately show ?thesis using Close Cons.prems Cons.IH [of t', unfolded d] by simp
  qed
qed

lemma run_lookup:
  assumes "ok t" "ids_fresh (cap t) ops (dom (find t))"
  shows "\<exists>t'. id_run ins rem full ops t = Some t'
    \<and> (\<forall>x \<ge> 0. \<exists>i. lookup t' x = Some i \<and> (i \<noteq> -1 \<longleftrightarrow> x \<in> open_ids (cap t) ops (dom (find t))))
    \<and> (\<forall>x \<ge> 0. \<forall>y \<ge> 0. \<forall>i. lookup t' x = Some i \<longrightarrow> lookup t' y = Some i \<longrightarrow> i \<noteq> -1 \<longrightarrow> x = y)"
proof -
  from run_ids [OF assms] obtain t' where t': "id_run ins rem full ops t = Some t'" "ok t'"
    "dom (find t') = open_ids (cap t) ops (dom (find t))" by blast
  have "\<exists>i. lookup t' x = Some i \<and> (i \<noteq> -1 \<longleftrightarrow> x \<in> open_ids (cap t) ops (dom (find t)))" if "0 \<le> x" for x
    unfolding t'(3) [symmetric] using lookup_find [OF t'(2) that] by (cases "find t' x") auto
  moreover have "x = y" if "0 \<le> x" "0 \<le> y" "lookup t' x = Some i" "lookup t' y = Some i" "i \<noteq> -1" for x y i
    using that lookup_find [OF t'(2), of x] lookup_find [OF t'(2), of y] find_inj [OF t'(2), of x _ y]
    by (auto split: option.splits)
  ultimately show ?thesis using t'(1) by blast
qed

end

section \<open>Packets in a byte stream\<close>

text \<open>
  A buffer that collects the chunks of a stream and hands out the packets that are
  complete, or what it makes of them (\<open>out\<close>). \<open>frame\<close> is the encoding of a packet.
\<close>

fun feed ::
  "(byte list \<Rightarrow> 'b \<Rightarrow> 'b option) \<Rightarrow> ('b \<Rightarrow> ('p list \<times> 'b) option) \<Rightarrow> byte list list \<Rightarrow> 'b
     \<Rightarrow> ('p list \<times> 'b) option" where
  "feed app packs [] b = Some ([], b)"
| "feed app packs (c # ds) b = do {
     b \<leftarrow> app c b;
     (ps, b) \<leftarrow> packs b;
     (qs, b) \<leftarrow> feed app packs ds b;
     Some (ps @ qs, b) }"

definition frames :: "('p \<Rightarrow> byte list) \<Rightarrow> 'p list \<Rightarrow> byte list" where
  "frames frame ps = concat (map frame ps)"

definition partial_frame :: "('p \<Rightarrow> byte list) \<Rightarrow> ('p \<Rightarrow> bool) \<Rightarrow> byte list \<Rightarrow> bool" where
  "partial_frame frame good xs \<longleftrightarrow> xs = [] \<or> (\<exists>p ys. good p \<and> frame p = xs @ ys \<and> ys \<noteq> [])"

lemma frames_simps [simp]:
  "frames frame [] = []" "frames frame (p # ps) = frame p @ frames frame ps"
  "frames frame (ps @ qs) = frames frame ps @ frames frame qs"
  by (simp_all add: frames_def)

text \<open>A beginning of a stream of frames is some of the frames and a part of the next.\<close>

lemma split_frames:
  "frames frame ps = xs @ ys \<Longrightarrow> list_all good ps \<Longrightarrow>
   \<exists>ps1 ps2 rest. ps = ps1 @ ps2 \<and> xs = frames frame ps1 @ rest \<and> partial_frame frame good rest
     \<and> frames frame ps2 = rest @ ys \<and> (ps2 = [] \<longrightarrow> rest = []) \<and> (\<forall>p qs. ps2 = p # qs \<longrightarrow> length rest < length (frame p))"
proof (induction ps arbitrary: xs)
  case Nil
  then show ?case by (simp add: partial_frame_def)
next
  case (Cons p ps)
  from Cons.prems(1) have "frame p @ frames frame ps = xs @ ys" by simp
  then consider (part) zs where "frame p = xs @ zs" "zs \<noteq> []" "zs @ frames frame ps = ys"
    | (whole) zs where "xs = frame p @ zs" "frames frame ps = zs @ ys"
    unfolding append_eq_append_conv2
  proof (elim exE disjE conjE)
    fix us assume a: "frame p = xs @ us" "us @ frames frame ps = ys"
    show thesis by (cases "us = []") (use a whole [of "[]"] part [of us] in auto)
  next
    fix us assume "frame p @ us = xs" "frames frame ps = us @ ys"
    then show thesis using whole [of us] by simp
  qed
  then show ?case
  proof cases
    case part
    then have "p # ps = [] @ p # ps \<and> xs = frames frame [] @ xs \<and> partial_frame frame good xs
      \<and> frames frame (p # ps) = xs @ ys" using Cons.prems by (auto simp: partial_frame_def)
    moreover have "length xs < length (frame p)" using part(1,2) by simp
    ultimately show ?thesis by (intro exI [of _ "[]"] exI [of _ "p # ps"] exI [of _ xs]) auto
  next
    case whole
    from Cons.IH [OF whole(2)] Cons.prems(2) obtain ps1 ps2 rest where
      "ps = ps1 @ ps2" "zs = frames frame ps1 @ rest" "partial_frame frame good rest"
      "frames frame ps2 = rest @ ys" "ps2 = [] \<longrightarrow> rest = []"
      "\<forall>p qs. ps2 = p # qs \<longrightarrow> length rest < length (frame p)" by auto
    with whole(1) show ?thesis
      by (intro exI [of _ "p # ps1"] exI [of _ ps2] exI [of _ rest]) auto
  qed
qed

locale packet_buffer =
  fixes contents :: "'b \<Rightarrow> byte list"
    and space :: "'b \<Rightarrow> nat"
    and app :: "byte list \<Rightarrow> 'b \<Rightarrow> 'b option"
    and packs :: "'b \<Rightarrow> ('q list \<times> 'b) option"
    and frame :: "'p \<Rightarrow> byte list"
    and good :: "'p \<Rightarrow> bool"
    and out :: "'p \<Rightarrow> 'q"
    and ok :: "'b \<Rightarrow> bool"
  assumes app_contents: "ok b \<Longrightarrow> length (contents b) + length c \<le> space b \<Longrightarrow>
      \<exists>b'. app c b = Some b' \<and> ok b' \<and> contents b' = contents b @ c \<and> space b' = space b"
    and packs_contents: "ok b \<Longrightarrow> list_all good ps \<Longrightarrow> contents b = frames frame ps @ rest \<Longrightarrow>
      partial_frame frame good rest \<Longrightarrow>
      \<exists>b'. packs b = Some (map out ps, b') \<and> ok b' \<and> contents b' = rest \<and> space b' = space b"
begin

text \<open>However the stream is cut into chunks, the packets come out whole and in order.\<close>

lemma feed_packets:
  "ok b \<Longrightarrow> list_all good ps \<Longrightarrow> contents b @ concat ds = frames frame ps \<Longrightarrow>
   (ps = [] \<longrightarrow> contents b = []) \<Longrightarrow> (\<forall>p qs. ps = p # qs \<longrightarrow> length (contents b) < length (frame p)) \<Longrightarrow>
   (\<forall>p \<in> set ps. \<forall>c \<in> set ds. length (frame p) + length c \<le> space b) \<Longrightarrow>
   (\<forall>c \<in> set ds. length c \<le> space b) \<Longrightarrow> partial_frame frame good (contents b) \<Longrightarrow> ds \<noteq> [] \<Longrightarrow>
   \<exists>b'. feed app packs ds b = Some (map out ps, b') \<and> ok b' \<and> contents b' = [] \<and> space b' = space b"
proof (induction ds arbitrary: b ps)
  case (Cons c ds)
  have "length (contents b) + length c \<le> space b"
  proof (cases ps)
    case Nil
    with Cons.prems(4,7) show ?thesis by simp
  next
    case (Cons p qs)
    with Cons.prems(5) have "length (contents b) < length (frame p)" by simp
    moreover have "length (frame p) + length c \<le> space b" using Cons Cons.prems(6) by simp
    ultimately show ?thesis by simp
  qed
  from app_contents [OF Cons.prems(1) this] obtain b1 where
    b1: "app c b = Some b1" "ok b1" "contents b1 = contents b @ c" "space b1 = space b" by blast
  have "frames frame ps = (contents b @ c) @ concat ds" using Cons.prems(3) by simp
  from split_frames [OF this Cons.prems(2)] obtain ps1 ps2 rest where s: "ps = ps1 @ ps2"
    "contents b @ c = frames frame ps1 @ rest" "partial_frame frame good rest"
    "frames frame ps2 = rest @ concat ds" "ps2 = [] \<longrightarrow> rest = []"
    "\<forall>p qs. ps2 = p # qs \<longrightarrow> length rest < length (frame p)" by blast
  have g: "list_all good ps1" "list_all good ps2" using Cons.prems(2) s(1) by simp_all
  from packs_contents [OF b1(2) g(1) _ s(3)] b1(3) s(2) obtain b2 where
    b2: "packs b1 = Some (map out ps1, b2)" "ok b2" "contents b2 = rest" "space b2 = space b1" by metis
  show ?case
  proof (cases "ds = []")
    case True
    have "ps2 = []"
    proof (cases ps2)
      case (Cons p qs)
      then have "frame p @ frames frame qs = rest" using s(4) True by simp
      moreover have "length rest < length (frame p)" using s(6) Cons by simp
      ultimately show ?thesis by auto
    qed
    with s(5) have "rest = []" by simp
    with \<open>ps2 = []\<close> True b1 b2 s(1) show ?thesis by simp
  next
    case False
    have "\<exists>b'. feed app packs ds b2 = Some (map out ps2, b') \<and> ok b' \<and> contents b' = [] \<and> space b' = space b2"
      using Cons.IH [OF b2(2) g(2)] s False b2 b1 Cons.prems(6,7) by auto
    with b1 b2 s(1) show ?thesis by auto
  qed
qed simp

end

end
