(* ===== verification/Messages.thy ===== *)
theory Messages
  imports Interfaces
begin

text \<open>
  The public header \<open>skynet.h\<close>: message types, log levels, and the three kinds of object
  a message's \<open>void *data\<close> points to in this code: raw bytes, a
  \<open>skynet_remote_message\<close> on its way to the harbor service, and a
  \<open>skynet_socket_message\<close> with the string that may follow it.
\<close>

definition SERVICE_TEXT :: int where "SERVICE_TEXT = 0"
definition SERVICE_SOCKET :: int where "SERVICE_SOCKET = 1"
definition SERVICE_TIMER :: int where "SERVICE_TIMER = 2"
definition SERVICE_REMOTE :: int where "SERVICE_REMOTE = 3"
definition SERVICE_RESPONSE :: int where "SERVICE_RESPONSE = 4"

definition LOGGER_DEBUG :: int where "LOGGER_DEBUG = 0"
definition LOGGER_WARN :: int where "LOGGER_WARN = 1"
definition LOGGER_NOTICE :: int where "LOGGER_NOTICE = 2"
definition LOGGER_ERROR :: int where "LOGGER_ERROR = 3"

definition SKYNET_SOCKET_TYPE_DATA :: int where "SKYNET_SOCKET_TYPE_DATA = 1"
definition SKYNET_SOCKET_TYPE_CONNECT :: int where "SKYNET_SOCKET_TYPE_CONNECT = 2"
definition SKYNET_SOCKET_TYPE_CLOSE :: int where "SKYNET_SOCKET_TYPE_CLOSE = 3"
definition SKYNET_SOCKET_TYPE_ACCEPT :: int where "SKYNET_SOCKET_TYPE_ACCEPT = 4"
definition SKYNET_SOCKET_TYPE_ERROR :: int where "SKYNET_SOCKET_TYPE_ERROR = 5"
definition SKYNET_SOCKET_TYPE_UDP :: int where "SKYNET_SOCKET_TYPE_UDP = 6"
definition SKYNET_SOCKET_TYPE_WARNING :: int where "SKYNET_SOCKET_TYPE_WARNING = 7"

text \<open>
  \<open>rm_name\<close> is the array of 32 bytes; \<open>rm_data\<close> is \<open>None\<close> while the pointer
  \<open>data\<close> has not been set, which the code leaves uninitialised.
\<close>

record skynet_remote_message =
  rm_name :: "byte list"
  rm_handle :: u32
  rm_source :: u32
  rm_session :: u32
  rm_type :: int
  rm_size :: nat
  rm_data :: "byte list option"

record skynet_socket_message =
  sm_type :: int
  sm_id :: int
  sm_ud :: int
  sm_buffer :: "byte list option"
  sm_tail :: "byte list"

datatype payload =
  Bytes "byte list"
| Remote skynet_remote_message
| Socket skynet_socket_message

record skynet_message =
  m_type :: int
  m_data :: "payload option"
  m_size :: nat
  m_source :: u32
  m_session :: u32

end
