(* ===== verification/Mq.thy ===== *)
theory Mq
  imports Messages
begin

text \<open>
  Message queues (\<open>skynet_mq.c\<close>). Each service owns a ring buffer of messages, a
  \<open>message_queue\<close>, and the queues that have work are linked through their \<open>next\<close> field
  into one global queue. The ring buffer is a record whose array is a list; the global
  queue is a pair of pointers into a store of queues, because push and pop follow and
  rewrite the \<open>next\<close> pointers of queues that other code holds. Every function runs under
  the spin lock of the queue it changes, so each is one atomic step. Cells of the array
  that C leaves uninitialised hold \<open>blank_message\<close>; no operation returns one.
\<close>

section \<open>The ring buffer\<close>

definition blank_message :: skynet_message where
  "blank_message = \<lparr>m_type = 0, m_data = None, m_size = 0, m_source = 0, m_session = 0\<rparr>"

definition MQ_OVERLOAD :: nat where "MQ_OVERLOAD = 1024"
definition DEFAULT_QUEUE_SIZE :: nat where "DEFAULT_QUEUE_SIZE = 64"

record message_queue =
  q_handle :: u32
  q_cap :: nat
  q_head :: nat
  q_tail :: nat
  q_release :: bool
  q_in_global :: bool
  q_overload :: nat
  q_overload_threshold :: nat
  q_concurrent :: bool
  q_queue :: "skynet_message list"
  q_next :: "addr option"

definition skynet_mq_create :: "u32 \<Rightarrow> bool \<Rightarrow> message_queue" where
  "skynet_mq_create handle concurrent =
     \<lparr>q_handle = handle, q_cap = DEFAULT_QUEUE_SIZE, q_head = 0, q_tail = 0,
      q_release = False, q_in_global = True, q_overload = 0,
      q_overload_threshold = MQ_OVERLOAD, q_concurrent = concurrent,
      q_queue = replicate DEFAULT_QUEUE_SIZE blank_message, q_next = None\<rparr>"

definition skynet_mq_length :: "message_queue \<Rightarrow> nat" where
  "skynet_mq_length q =
     (if q_head q \<le> q_tail q then q_tail q - q_head q
      else q_tail q + q_cap q - q_head q)"

definition skynet_mq_overload :: "message_queue \<Rightarrow> nat \<times> message_queue" where
  "skynet_mq_overload q =
     (if q_overload q \<noteq> 0 then (q_overload q, q\<lparr>q_overload := 0\<rparr>) else (0, q))"

text \<open>
  The loop that doubles the threshold until it covers the length. The threshold starts at
  \<open>MQ_OVERLOAD\<close> and only doubles, so it is positive and the loop ends; the test of
  \<open>0 < th\<close> makes the function total and never decides (\<open>overload_loop_step\<close>).
\<close>

function overload_loop :: "nat \<Rightarrow> nat \<Rightarrow> nat \<Rightarrow> nat \<times> nat" where
  "overload_loop len ov th =
     (if th < len \<and> 0 < th then overload_loop len len (th * 2) else (ov, th))"
  by pat_completeness auto
termination by (relation "measure (\<lambda>(len, ov, th). len - th)") auto

declare overload_loop.simps [simp del]

definition skynet_mq_pop :: "message_queue \<Rightarrow> skynet_message option \<times> message_queue" where
  "skynet_mq_pop q =
     (if q_head q \<noteq> q_tail q then
        let message = q_queue q ! q_head q;
            head = (if q_head q + 1 \<ge> q_cap q then 0 else q_head q + 1);
            len = (let l = int (q_tail q) - int head in if l < 0 then l + int (q_cap q) else l);
            (ov, th) = overload_loop (nat len) (q_overload q) (q_overload_threshold q)
        in (Some message,
            q\<lparr>q_head := head, q_overload := ov, q_overload_threshold := th\<rparr>)
      else
        let q = q\<lparr>q_overload_threshold := MQ_OVERLOAD\<rparr>
        in (None, if \<not> q_concurrent q then q\<lparr>q_in_global := False\<rparr> else q))"

definition expand_queue :: "message_queue \<Rightarrow> message_queue" where
  "expand_queue q =
     q\<lparr>q_queue := map (\<lambda>i. q_queue q ! ((q_head q + i) mod q_cap q)) [0..<q_cap q]
                  @ replicate (q_cap q) blank_message,
       q_head := 0, q_tail := q_cap q, q_cap := q_cap q * 2\<rparr>"

text \<open>The part of \<open>skynet_mq_push\<close> that stores the message, before the global queue is told.\<close>

definition mq_store :: "skynet_message \<Rightarrow> message_queue \<Rightarrow> message_queue" where
  "mq_store message q =
     (let q = q\<lparr>q_queue := (q_queue q)[q_tail q := message]\<rparr>;
          q = q\<lparr>q_tail := (if q_tail q + 1 \<ge> q_cap q then 0 else q_tail q + 1)\<rparr>
      in if q_head q = q_tail q then expand_queue q else q)"

text \<open>\<open>_release\<close> pops until the queue is empty, freeing each message's data.\<close>

partial_function (option) mq_drain ::
  "message_queue \<Rightarrow> (skynet_message list \<times> message_queue) option" where
  "mq_drain q =
     (case skynet_mq_pop q of
        (None, q') \<Rightarrow> Some ([], q')
      | (Some m, q') \<Rightarrow> do { (ms, q'') \<leftarrow> mq_drain q'; Some (m # ms, q'') })"

subsection \<open>Invariant and contents\<close>

definition mq_ok :: "message_queue \<Rightarrow> bool" where
  "mq_ok q \<longleftrightarrow> length (q_queue q) = q_cap q \<and> q_head q < q_cap q \<and> q_tail q < q_cap q
     \<and> 0 < q_overload_threshold q"

definition mq_contents :: "message_queue \<Rightarrow> skynet_message list" where
  "mq_contents q =
     map (\<lambda>i. q_queue q ! ((q_head q + i) mod q_cap q)) [0..<skynet_mq_length q]"

lemma mq_okD [dest]:
  assumes "mq_ok q"
  shows "length (q_queue q) = q_cap q" "q_head q < q_cap q" "q_tail q < q_cap q"
    "0 < q_overload_threshold q"
  using assms by (auto simp: mq_ok_def)

lemma overload_loop_step:
  "0 < th \<Longrightarrow> overload_loop len ov th =
     (if th < len then overload_loop len len (th * 2) else (ov, th))"
  by (subst overload_loop.simps) simp

lemma overload_loop_result:
  "0 < th \<Longrightarrow> overload_loop len ov th = (ov', th') \<Longrightarrow>
   len \<le> th' \<and> th \<le> th' \<and> 0 < th' \<and> (if th < len then ov' = len else ov' = ov \<and> th' = th)"
proof (induction len ov th rule: overload_loop.induct)
  case (1 len ov th)
  show ?case
  proof (cases "th < len")
    case True
    with 1 have "overload_loop len len (th * 2) = (ov', th')"
      by (simp add: overload_loop_step)
    with 1 True show ?thesis by (auto split: if_splits)
  next
    case False
    with 1 show ?thesis by (simp add: overload_loop_step)
  qed
qed

lemma mq_contents_nth:
  "i < skynet_mq_length q \<Longrightarrow> mq_contents q ! i = q_queue q ! ((q_head q + i) mod q_cap q)"
  by (simp add: mq_contents_def)

lemma length_mq_contents [simp]: "length (mq_contents q) = skynet_mq_length q"
  by (simp add: mq_contents_def)

lemma mq_length_less_cap: "mq_ok q \<Longrightarrow> skynet_mq_length q < q_cap q"
  by (auto simp: mq_ok_def skynet_mq_length_def)

lemma mq_length_0: "mq_ok q \<Longrightarrow> skynet_mq_length q = 0 \<longleftrightarrow> q_head q = q_tail q"
  by (auto simp: mq_ok_def skynet_mq_length_def)

lemma mq_contents_Nil: "mq_ok q \<Longrightarrow> mq_contents q = [] \<longleftrightarrow> q_head q = q_tail q"
  using mq_length_0 [of q] by (metis length_0_conv length_mq_contents)

lemma ring_tail [ring_simps]:
  "mq_ok q \<Longrightarrow> (q_head q + skynet_mq_length q) mod q_cap q = q_tail q"
  by (auto simp: mq_ok_def skynet_mq_length_def)

lemma ring_next: "i < n \<Longrightarrow> (if i + 1 \<ge> n then 0 else i + 1) = Suc i mod (n::nat)"
  by (cases "Suc i = n") auto

lemma ring_inj:
  assumes "i < n" "j < n" "(h + i) mod n = (h + j) mod (n::nat)" shows "i = j"
proof -
  have *: "a = b" if "a < n" "b \<le> a" "(h + a) mod n = (h + b) mod n" for a b :: nat
  proof -
    from that have "n dvd (h + a) - (h + b)" by (subst mod_eq_dvd_iff_nat [symmetric]) auto
    then have "n dvd a - b" by simp
    then show ?thesis using that(1,2) nat_dvd_not_less [of "a - b" n] by (cases "a = b") auto
  qed
  from assms show ?thesis by (cases "j \<le> i") (auto dest: * [of i j] * [of j i])
qed

text \<open>The link and the flags do not matter for the contents.\<close>

lemma mq_contents_flags [simp]:
  "mq_contents (q\<lparr>q_next := n\<rparr>) = mq_contents q" "mq_contents (q\<lparr>q_in_global := b\<rparr>) = mq_contents q"
  "mq_contents (q\<lparr>q_overload := k\<rparr>) = mq_contents q" "mq_contents (q\<lparr>q_release := b\<rparr>) = mq_contents q"
  "mq_contents (q\<lparr>q_concurrent := b\<rparr>) = mq_contents q"
  by (simp_all add: mq_contents_def skynet_mq_length_def)

lemma mq_ok_flags [simp]:
  "mq_ok (q\<lparr>q_next := n\<rparr>) = mq_ok q" "mq_ok (q\<lparr>q_in_global := b\<rparr>) = mq_ok q"
  "mq_ok (q\<lparr>q_overload := k\<rparr>) = mq_ok q" "mq_ok (q\<lparr>q_release := b\<rparr>) = mq_ok q"
  "mq_ok (q\<lparr>q_concurrent := b\<rparr>) = mq_ok q"
  by (simp_all add: mq_ok_def)

lemma same_but_link:
  assumes "p\<lparr>q_next := n\<rparr> = r\<lparr>q_next := n\<rparr>"
  shows "mq_contents p = mq_contents r" "mq_ok p = mq_ok r" "q_in_global p = q_in_global r"
    "q_handle p = q_handle r" "q_concurrent p = q_concurrent r" "q_release p = q_release r"
proof -
  note f = arg_cong [OF assms]
  show "mq_contents p = mq_contents r" using f [of mq_contents] by (simp only: mq_contents_flags)
  show "mq_ok p = mq_ok r" using f [of mq_ok] by (simp only: mq_ok_flags)
  show "q_in_global p = q_in_global r" using f [of q_in_global] by simp
  show "q_handle p = q_handle r" using f [of q_handle] by simp
  show "q_concurrent p = q_concurrent r" using f [of q_concurrent] by simp
  show "q_release p = q_release r" using f [of q_release] by simp
qed

subsection \<open>The operations on the contents\<close>

lemma mq_create_ok [simp]: "mq_ok (skynet_mq_create h c)"
  by (simp add: mq_ok_def skynet_mq_create_def DEFAULT_QUEUE_SIZE_def MQ_OVERLOAD_def)

lemma mq_create_contents [simp]: "mq_contents (skynet_mq_create h c) = []"
  by (simp add: mq_contents_def skynet_mq_length_def skynet_mq_create_def)

lemma mq_pop_empty:
  "q_head q = q_tail q \<Longrightarrow> skynet_mq_pop q =
     (None, q\<lparr>q_overload_threshold := MQ_OVERLOAD,
               q_in_global := q_concurrent q \<and> q_in_global q\<rparr>)"
  by (simp add: skynet_mq_pop_def Let_def)

lemma mq_pop_None [simp]: "fst (skynet_mq_pop q) = None \<longleftrightarrow> q_head q = q_tail q"
  by (simp add: skynet_mq_pop_def Let_def split: prod.splits)

text \<open>The state after a pop that returns a message.\<close>

lemma mq_pop_Some:
  assumes ok: "mq_ok q" and ne: "q_head q \<noteq> q_tail q"
  obtains ov th where
    "skynet_mq_pop q = (Some (q_queue q ! q_head q),
       q\<lparr>q_head := Suc (q_head q) mod q_cap q, q_overload := ov, q_overload_threshold := th\<rparr>)"
    "skynet_mq_length q - 1 \<le> th" "q_overload_threshold q \<le> th"
    "if q_overload_threshold q < skynet_mq_length q - 1 then ov = skynet_mq_length q - 1
     else ov = q_overload q \<and> th = q_overload_threshold q"
proof -
  define head where "head = Suc (q_head q) mod q_cap q"
  define l where "l = int (q_tail q) - int head"
  have head: "(if q_head q + 1 \<ge> q_cap q then 0 else q_head q + 1) = head"
    unfolding head_def using ok by (intro ring_next) auto
  have len: "nat (if l < 0 then l + int (q_cap q) else l) = skynet_mq_length q - 1"
    using ok ne unfolding l_def head [symmetric]
    by (auto simp: skynet_mq_length_def mq_ok_def)
  obtain ov th where lp:
      "overload_loop (skynet_mq_length q - 1) (q_overload q) (q_overload_threshold q) = (ov, th)"
    by fastforce
  have "skynet_mq_pop q = (Some (q_queue q ! q_head q),
       q\<lparr>q_head := head, q_overload := ov, q_overload_threshold := th\<rparr>)"
    using ne lp unfolding skynet_mq_pop_def Let_def head l_def [symmetric] len by simp
  moreover from ok have "0 < q_overload_threshold q" by auto
  note r = overload_loop_result [OF this lp]
  ultimately show ?thesis
    by (intro that [of th ov]) (use r in \<open>auto simp: head_def\<close>)
qed

lemma mq_pop_ok [simp, intro]: "mq_ok q \<Longrightarrow> mq_ok (snd (skynet_mq_pop q))"
proof (cases "q_head q = q_tail q")
  case True
  assume "mq_ok q"
  with True show ?thesis by (simp add: mq_pop_empty mq_ok_def MQ_OVERLOAD_def)
next
  case False
  assume ok: "mq_ok q"
  from mq_pop_Some [OF ok False] obtain ov th where
    "skynet_mq_pop q = (Some (q_queue q ! q_head q),
       q\<lparr>q_head := Suc (q_head q) mod q_cap q, q_overload := ov, q_overload_threshold := th\<rparr>)"
    and "q_overload_threshold q \<le> th" by metis
  with ok show ?thesis by (simp add: mq_ok_def)
qed

lemma mq_contents_Cons:
  assumes ok: "mq_ok q" and ne: "q_head q \<noteq> q_tail q"
  shows "mq_contents q = q_queue q ! q_head q #
    mq_contents (q\<lparr>q_head := Suc (q_head q) mod q_cap q, q_overload := ov, q_overload_threshold := th\<rparr>)"
    (is "_ = _ # mq_contents ?q'")
proof (rule nth_equalityI)
  have "Suc (q_head q) mod q_cap q = (if q_head q + 1 \<ge> q_cap q then 0 else q_head q + 1)"
    using ok by (intro ring_next [symmetric]) auto
  then have len: "skynet_mq_length q = Suc (skynet_mq_length ?q')"
    using ok ne by (auto simp: skynet_mq_length_def mq_ok_def)
  then show "length (mq_contents q) = length (q_queue q ! q_head q # mq_contents ?q')" by simp
  fix i assume "i < length (mq_contents q)"
  then have "i < skynet_mq_length q" by simp
  with len ok show "mq_contents q ! i = (q_queue q ! q_head q # mq_contents ?q') ! i"
    by (cases i) (auto simp: mq_contents_nth mod_add_left_eq)
qed

lemma mq_pop_contents:
  assumes ok: "mq_ok q"
  shows "fst (skynet_mq_pop q) = (case mq_contents q of [] \<Rightarrow> None | m # _ \<Rightarrow> Some m)"
    and "mq_contents (snd (skynet_mq_pop q)) = tl (mq_contents q)"
proof -
  have "fst (skynet_mq_pop q) = (case mq_contents q of [] \<Rightarrow> None | m # _ \<Rightarrow> Some m)
    \<and> mq_contents (snd (skynet_mq_pop q)) = tl (mq_contents q)"
  proof (cases "q_head q = q_tail q")
    case True
    then show ?thesis
      by (simp add: mq_pop_empty mq_contents_def skynet_mq_length_def)
  next
    case False
    from mq_pop_Some [OF ok False] obtain ov th where
      "skynet_mq_pop q = (Some (q_queue q ! q_head q),
         q\<lparr>q_head := Suc (q_head q) mod q_cap q, q_overload := ov, q_overload_threshold := th\<rparr>)"
      by metis
    then show ?thesis by (simp add: mq_contents_Cons [OF ok False, of th ov])
  qed
  then show "fst (skynet_mq_pop q) = (case mq_contents q of [] \<Rightarrow> None | m # _ \<Rightarrow> Some m)"
    and "mq_contents (snd (skynet_mq_pop q)) = tl (mq_contents q)" by auto
qed

lemma expand_queue_ok:
  assumes "length (q_queue q) = q_cap q" "q_head q < q_cap q" "0 < q_overload_threshold q"
  shows "mq_ok (expand_queue q)"
  using assms by (auto simp: mq_ok_def expand_queue_def)

lemma expand_queue_contents:
  assumes "length (q_queue q) = q_cap q" "q_head q < q_cap q"
  shows "mq_contents (expand_queue q) = map (\<lambda>i. q_queue q ! ((q_head q + i) mod q_cap q)) [0..<q_cap q]"
  by (rule nth_equalityI)
    (use assms in \<open>auto simp: mq_contents_def skynet_mq_length_def expand_queue_def nth_append\<close>)

lemma mq_store_ok [simp, intro]: "mq_ok q \<Longrightarrow> mq_ok (mq_store m q)"
  by (auto simp: mq_store_def Let_def intro!: expand_queue_ok) (auto simp: mq_ok_def)

lemma mq_store_contents:
  assumes ok: "mq_ok q"
  shows "mq_contents (mq_store m q) = mq_contents q @ [m]"
proof -
  let ?n = "skynet_mq_length q" and ?c = "q_cap q" and ?h = "q_head q"
  define arr where "arr = (q_queue q)[q_tail q := m]"
  let ?q = "q\<lparr>q_queue := arr, q_tail := (?h + Suc ?n) mod ?c\<rparr>"
  have "(if ?c \<le> Suc (q_tail q) then 0 else Suc (q_tail q)) = Suc (q_tail q) mod ?c"
    using ring_next [of "q_tail q" ?c] ok by auto
  also have "\<dots> = (?h + Suc ?n) mod ?c"
    by (subst ring_tail [OF ok, symmetric]) (simp add: mod_Suc_eq)
  finally have tail: "(if ?c \<le> Suc (q_tail q) then 0 else Suc (q_tail q)) = (?h + Suc ?n) mod ?c" .
  have store: "mq_store m q = (if ?h = (?h + Suc ?n) mod ?c then expand_queue ?q else ?q)"
    unfolding tail [symmetric] mq_store_def Let_def arr_def by simp
  have n: "?n < ?c" by (rule mq_length_less_cap [OF ok])
  have arr: "map (\<lambda>i. arr ! ((?h + i) mod ?c)) [0..<Suc ?n] = mq_contents q @ [m]"
  proof -
    have "arr ! ((?h + i) mod ?c) = q_queue q ! ((?h + i) mod ?c)" if "i < ?n" for i
      unfolding arr_def
      using that n ring_inj [of i ?c ?n ?h] ring_tail [OF ok] by (subst nth_list_update_neq) auto
    moreover have "arr ! ((?h + ?n) mod ?c) = m"
      unfolding arr_def ring_tail [OF ok] using ok by (auto simp: mq_ok_def)
    ultimately show ?thesis by (simp add: mq_contents_def)
  qed
  show ?thesis
  proof (cases "?h = (?h + Suc ?n) mod ?c")
    case True
    then have "(?h + 0) mod ?c = (?h + Suc ?n) mod ?c" using ok by auto
    then have full: "Suc ?n = ?c" using n ring_inj [of 0 ?c "Suc ?n" ?h] by (cases "Suc ?n = ?c") auto
    have "mq_contents (expand_queue ?q) = map (\<lambda>i. arr ! ((?h + i) mod ?c)) [0..<?c]"
      using ok by (subst expand_queue_contents) (auto simp: arr_def)
    with True arr full store show ?thesis by simp
  next
    case False
    define t where "t = (?h + Suc ?n) mod ?c"
    have hc: "?h < ?c" using ok by auto
    have "t = (if ?h + Suc ?n < ?c then ?h + Suc ?n else ?h + Suc ?n - ?c)"
      unfolding t_def using n hc by (simp add: mod_if)
    with False n hc have "(if ?h \<le> t then t - ?h else t + ?c - ?h) = Suc ?n"
      unfolding t_def [symmetric] by (auto split: if_splits)
    then have "skynet_mq_length (q\<lparr>q_queue := arr, q_tail := t\<rparr>) = Suc ?n"
      unfolding skynet_mq_length_def [of "q\<lparr>q_queue := arr, q_tail := t\<rparr>"] by (simp split: if_splits)
    then have "skynet_mq_length ?q = Suc ?n" by (simp only: t_def)
    with False arr store show ?thesis by (simp add: mq_contents_def del: upt_Suc)
  qed
qed

interpretation ring: fifo mq_store skynet_mq_pop mq_contents mq_ok
  by unfold_locales (simp_all add: mq_store_contents mq_pop_contents)

lemma mq_drain_contents:
  "mq_ok q \<Longrightarrow> \<exists>q'. mq_drain q = Some (mq_contents q, q') \<and> mq_ok q' \<and> q_head q' = q_tail q'"
proof (induction "mq_contents q" arbitrary: q)
  case Nil
  then have "q_head q = q_tail q" using mq_contents_Nil [of q] by simp
  with Nil show ?case
    by (subst mq_drain.simps) (simp add: mq_pop_empty mq_ok_def MQ_OVERLOAD_def)
next
  case (Cons m ms)
  obtain r q1 where p: "skynet_mq_pop q = (r, q1)" by fastforce
  from mq_pop_contents [OF Cons.prems] Cons.hyps(2) [symmetric] p
  have r: "r = Some m" and c: "mq_contents q1 = ms" by simp_all
  moreover from mq_pop_ok [OF Cons.prems] p have "mq_ok q1" by simp
  ultimately obtain q' where "mq_drain q1 = Some (ms, q')" "mq_ok q'" "q_head q' = q_tail q'"
    using Cons.hyps(1) [of q1] by auto
  with p r Cons.hyps(2) show ?case by (subst mq_drain.simps) simp
qed

lemma mq_create_frame [frame_simps]:
  "q_handle (skynet_mq_create h c) = h" "q_next (skynet_mq_create h c) = None"
  "q_in_global (skynet_mq_create h c)" "q_concurrent (skynet_mq_create h c) = c"
  "\<not> q_release (skynet_mq_create h c)"
  by (simp_all add: skynet_mq_create_def)

lemma mq_store_frame [frame_simps]:
  "q_handle (mq_store m q) = q_handle q" "q_next (mq_store m q) = q_next q"
  "q_in_global (mq_store m q) = q_in_global q" "q_concurrent (mq_store m q) = q_concurrent q"
  "q_release (mq_store m q) = q_release q"
  by (simp_all add: mq_store_def expand_queue_def Let_def)

lemma mq_pop_frame [frame_simps]:
  "q_handle (snd (skynet_mq_pop q)) = q_handle q" "q_next (snd (skynet_mq_pop q)) = q_next q"
  "q_concurrent (snd (skynet_mq_pop q)) = q_concurrent q"
  "q_release (snd (skynet_mq_pop q)) = q_release q"
  by (simp_all add: skynet_mq_pop_def Let_def split: prod.splits)

lemma mq_pop_in_global [frame_simps]:
  "q_in_global (snd (skynet_mq_pop q)) \<longleftrightarrow>
     q_in_global q \<and> (q_head q \<noteq> q_tail q \<or> q_concurrent q)"
  by (auto simp: skynet_mq_pop_def Let_def split: prod.splits)

section \<open>Properties\<close>

text \<open>C9: any sequence of pushes and pops on the ring buffer of a new queue, through its
  wrap-arounds and expansions, answers every pop as a first-in first-out list does: no
  message is lost, duplicated or reordered.\<close>

theorem mq_run_fifo:
  "fst (run_qops mq_store skynet_mq_pop ops (skynet_mq_create h c)) = fst (run_list ops [])
   \<and> mq_contents (snd (run_qops mq_store skynet_mq_pop ops (skynet_mq_create h c))) = snd (run_list ops [])"
  using ring.run_refines [of "skynet_mq_create h c" ops] by simp

text \<open>The overload alarm of a pop. The threshold ends at or above what is left in the
  queue, the alarm is raised with that length exactly when it exceeded the threshold, and
  \<open>skynet_mq_overload\<close> reports it once.\<close>

theorem mq_overload_alarm:
  assumes "mq_ok q" "skynet_mq_pop q = (Some m, q')"
  shows "skynet_mq_length q' = skynet_mq_length q - 1
    \<and> skynet_mq_length q' \<le> q_overload_threshold q'
    \<and> fst (skynet_mq_overload q') =
        (if q_overload_threshold q < skynet_mq_length q' then skynet_mq_length q' else q_overload q)
    \<and> fst (skynet_mq_overload (snd (skynet_mq_overload q'))) = 0"
proof -
  have ne: "q_head q \<noteq> q_tail q" using assms(2) mq_pop_None [of q] by auto
  from mq_pop_Some [OF assms(1) ne] obtain ov th where p:
    "skynet_mq_pop q = (Some (q_queue q ! q_head q),
       q\<lparr>q_head := Suc (q_head q) mod q_cap q, q_overload := ov, q_overload_threshold := th\<rparr>)"
    "skynet_mq_length q - 1 \<le> th"
    "if q_overload_threshold q < skynet_mq_length q - 1 then ov = skynet_mq_length q - 1
     else ov = q_overload q \<and> th = q_overload_threshold q" by metis
  from mq_pop_contents(2) [OF assms(1)] assms(2)
  have "length (mq_contents q') = length (mq_contents q) - 1" by simp
  with p assms(2) show ?thesis by (auto simp: skynet_mq_overload_def split: if_splits)
qed

lemma mq_overload_alarm_witness:
  "fst (skynet_mq_overload (snd (skynet_mq_pop (mq_store blank_message (skynet_mq_create 1 False))))) = 0"
proof -
  have "mq_ok (mq_store blank_message (skynet_mq_create 1 False))" by simp
  moreover have "skynet_mq_pop (mq_store blank_message (skynet_mq_create 1 False))
    = (Some blank_message, snd (skynet_mq_pop (mq_store blank_message (skynet_mq_create 1 False))))"
    by (simp add: prod_eq_iff mq_pop_contents mq_store_contents)
  ultimately show ?thesis
    using mq_overload_alarm by (fastforce simp: mq_store_def skynet_mq_create_def
      skynet_mq_length_def DEFAULT_QUEUE_SIZE_def MQ_OVERLOAD_def Let_def)
qed

end
