(* ===== verification/Timer.thy ===== *)
theory Timer
  imports Mq
begin

text \<open>
  The timer wheel (\<open>skynet_timer.c\<close>): 256 near slots, one per tick of the current block of
  256, and four levels of 64 slots for later blocks. The arrays have fixed sizes and are
  functions of the index here (\<open>wheel_ok\<close> bounds the slots in use); a \<open>link_list\<close> is
  the list of its nodes in link order, each node being in one list only. Dispatched events
  are returned in order; the services they are sent to are modelled in \<open>Server\<close>. Time
  is a 32-bit counter of milliseconds that wraps around.
\<close>

section \<open>The wheel\<close>

record timer_event =
  te_handle :: u32
  te_session :: u32
  te_data :: "payload option"
  te_size :: nat

record timer_node =
  tn_expire :: u32
  tn_event :: timer_event

record timer =
  near :: "nat \<Rightarrow> timer_node list"
  tv :: "nat \<Rightarrow> nat \<Rightarrow> timer_node list"
  tm_time :: u32
  tm_starttime :: u32
  tm_current :: u64
  tm_current_point :: u64

definition TIME_NEAR_SHIFT :: nat where "TIME_NEAR_SHIFT = 8"
definition TIME_NEAR :: u32 where "TIME_NEAR = push_bit TIME_NEAR_SHIFT 1"
definition TIME_LEVEL_SHIFT :: nat where "TIME_LEVEL_SHIFT = 6"
definition TIME_LEVEL :: u32 where "TIME_LEVEL = push_bit TIME_LEVEL_SHIFT 1"
definition TIME_NEAR_MASK :: u32 where "TIME_NEAR_MASK = TIME_NEAR - 1"
definition TIME_LEVEL_MASK :: u32 where "TIME_LEVEL_MASK = TIME_LEVEL - 1"

definition link_clear :: "timer_node list \<Rightarrow> timer_node list \<times> timer_node list" where
  "link_clear list = (list, [])"

definition link_t :: "timer_node list \<Rightarrow> timer_node \<Rightarrow> timer_node list" where
  "link_t list node = list @ [node]"

text \<open>The loop of \<open>add_node\<close> over the levels, with the mask it doubles by six bits.\<close>

function add_level :: "nat \<Rightarrow> u32 \<Rightarrow> u32 \<Rightarrow> u32 \<Rightarrow> nat" where
  "add_level i msk time current_time =
     (if i < 3 then
        if time OR (msk - 1) = current_time OR (msk - 1) then i
        else add_level (Suc i) (push_bit TIME_LEVEL_SHIFT msk) time current_time
      else i)"
  by pat_completeness auto
termination by (relation "measure (\<lambda>(i, _). 3 - i)") auto

declare add_level.simps [simp del]

definition add_node :: "timer \<Rightarrow> timer_node \<Rightarrow> timer" where
  "add_node T node =
     (let time = tn_expire node; current_time = tm_time T in
      if time OR TIME_NEAR_MASK = current_time OR TIME_NEAR_MASK then
        let i = unat (time AND TIME_NEAR_MASK)
        in T\<lparr>near := (near T)(i := link_t (near T i) node)\<rparr>
      else
        let i = add_level 0 (push_bit TIME_LEVEL_SHIFT TIME_NEAR) time current_time;
            j = unat (drop_bit (TIME_NEAR_SHIFT + i * TIME_LEVEL_SHIFT) time AND TIME_LEVEL_MASK)
        in T\<lparr>tv := (tv T)(i := (tv T i)(j := link_t (tv T i j) node))\<rparr>)"

definition timer_add :: "timer \<Rightarrow> timer_event \<Rightarrow> int \<Rightarrow> timer" where
  "timer_add T arg time =
     add_node T \<lparr>tn_expire = word_of_int time + tm_time T, tn_event = arg\<rparr>"

definition move_list :: "timer \<Rightarrow> nat \<Rightarrow> nat \<Rightarrow> timer" where
  "move_list T level idx =
     (let (current, cleared) = link_clear (tv T level idx);
          T = T\<lparr>tv := (tv T)(level := (tv T level)(idx := cleared))\<rparr>
      in foldl add_node T current)"

text \<open>
  The loop of \<open>timer_shift\<close> that looks for the slot to move: \<open>Some None\<close> when the loop
  ends without one. It ends because \<open>ct\<close> is not 0 there (\<open>shift_slot_result\<close>).
\<close>

partial_function (option) shift_slot ::
  "u32 \<Rightarrow> u32 \<Rightarrow> u32 \<Rightarrow> nat \<Rightarrow> (nat \<times> nat) option option" where
  "shift_slot ct msk time i =
     (if ct AND (msk - 1) = 0 then
        let idx = unat (time AND TIME_LEVEL_MASK) in
        if idx \<noteq> 0 then Some (Some (i, idx))
        else shift_slot ct (push_bit TIME_LEVEL_SHIFT msk) (drop_bit TIME_LEVEL_SHIFT time) (Suc i)
      else Some None)"

definition timer_shift :: "timer \<Rightarrow> timer option" where
  "timer_shift T =
     (let ct = tm_time T + 1; T = T\<lparr>tm_time := ct\<rparr> in
      if ct = 0 then Some (move_list T 3 0)
      else do {
        r \<leftarrow> shift_slot ct TIME_NEAR (drop_bit TIME_NEAR_SHIFT ct) 0;
        Some (case r of None \<Rightarrow> T | Some (i, idx) \<Rightarrow> move_list T i idx) })"

text \<open>
  \<open>timer_execute\<close> takes the due slot until it is empty; the result is what
  \<open>dispatch_list\<close> gets.
\<close>

function timer_execute :: "timer \<Rightarrow> timer_node list \<times> timer" where
  "timer_execute T =
     (let idx = unat (tm_time T AND TIME_NEAR_MASK) in
      if near T idx \<noteq> [] then
        let (current, cleared) = link_clear (near T idx);
            (rest, T') = timer_execute (T\<lparr>near := (near T)(idx := cleared)\<rparr>)
        in (current @ rest, T')
      else ([], T))"
  by pat_completeness auto
termination
  by (relation "measure (\<lambda>T. length (near T (unat (tm_time T AND TIME_NEAR_MASK))))")
    (auto simp: link_clear_def)

declare timer_execute.simps [simp del]

definition timer_update :: "timer \<Rightarrow> (timer_node list \<times> timer) option" where
  "timer_update T = do {
     let (fired0, T) = timer_execute T;
     T \<leftarrow> timer_shift T;
     let (fired, T) = timer_execute T;
     Some (fired0 @ fired, T) }"

text \<open>The messages \<open>dispatch_list\<close> pushes, each to the service of its event.\<close>

definition timer_message :: "timer_event \<Rightarrow> u32 \<times> skynet_message" where
  "timer_message event =
     (te_handle event,
      \<lparr>m_type = SERVICE_TIMER, m_data = te_data event, m_size = te_size event,
       m_source = 0, m_session = te_session event\<rparr>)"

definition dispatch_list :: "timer_node list \<Rightarrow> (u32 \<times> skynet_message) list" where
  "dispatch_list current = map (timer_message \<circ> tn_event) current"

definition timer_create_timer :: timer where
  "timer_create_timer =
     \<lparr>near = (\<lambda>_. []), tv = (\<lambda>_ _. []), tm_time = 0, tm_starttime = 0,
      tm_current = 0, tm_current_point = 0\<rparr>"

text \<open>
  \<open>skynet_timer_register\<close>: the message that is pushed at once, if any, and the timer. The
  payload is copied when there is one.
\<close>

definition copy_args :: "byte list option \<Rightarrow> nat \<Rightarrow> payload option \<times> nat" where
  "copy_args args sz =
     (case args of
        Some bs \<Rightarrow> if sz > 0 then (Some (Bytes (take sz bs)), sz) else (None, 0)
      | None \<Rightarrow> (None, 0))"

definition skynet_timer_register ::
  "u32 \<Rightarrow> u32 \<Rightarrow> byte list option \<Rightarrow> nat \<Rightarrow> int \<Rightarrow> timer \<Rightarrow> (u32 \<times> skynet_message) list \<times> timer" where
  "skynet_timer_register handle session args sz time T =
     (let (data, sz) = copy_args args sz in
      if time \<le> 0 then
        ([(handle, \<lparr>m_type = SERVICE_TIMER, m_data = data, m_size = sz, m_source = 0, m_session = session\<rparr>)], T)
      else
        ([], timer_add T \<lparr>te_handle = handle, te_session = session, te_data = data, te_size = sz\<rparr> time))"

text \<open>\<open>skynet_updatetime\<close>, with the clock reading as argument.\<close>

fun timer_updates :: "nat \<Rightarrow> timer \<Rightarrow> (timer_node list list \<times> timer) option" where
  "timer_updates 0 T = Some ([], T)"
| "timer_updates (Suc n) T = do {
     (fired, T) \<leftarrow> timer_update T;
     (rest, T) \<leftarrow> timer_updates n T;
     Some (fired # rest, T) }"

definition skynet_updatetime :: "u64 \<Rightarrow> timer \<Rightarrow> ((u32 \<times> skynet_message) list \<times> timer) option" where
  "skynet_updatetime cp T =
     (if cp < tm_current_point T then Some ([], T\<lparr>tm_current_point := cp\<rparr>)
      else if cp \<noteq> tm_current_point T then
        let diff = ucast (cp - tm_current_point T) :: u32;
            T = T\<lparr>tm_current_point := cp, tm_current := tm_current T + ucast diff\<rparr>
        in do {
          (fired, T) \<leftarrow> timer_updates (unat diff) T;
          Some (dispatch_list (concat fired), T) }
      else Some ([], T))"

definition skynet_timer_init :: "u32 \<Rightarrow> u32 \<Rightarrow> u64 \<Rightarrow> timer" where
  "skynet_timer_init sec centi now =
     timer_create_timer\<lparr>tm_starttime := sec, tm_current := ucast centi, tm_current_point := now\<rparr>"

section \<open>Where a node belongs\<close>

datatype wheel_slot = Near nat | Level nat nat

text \<open>The level of a time as the number of whole blocks it shares with the current time.\<close>

definition wheel_level :: "nat \<Rightarrow> nat \<Rightarrow> nat" where
  "wheel_level c e =
     (if e div 2 ^ 14 = c div 2 ^ 14 then 0 else if e div 2 ^ 20 = c div 2 ^ 20 then 1
      else if e div 2 ^ 26 = c div 2 ^ 26 then 2 else 3)"

definition slot_for :: "nat \<Rightarrow> nat \<Rightarrow> wheel_slot" where
  "slot_for c e =
     (if e div 2 ^ 8 = c div 2 ^ 8 then Near (e mod 2 ^ 8)
      else Level (wheel_level c e) (e div 2 ^ (8 + 6 * wheel_level c e) mod 2 ^ 6))"

fun get_slot :: "timer \<Rightarrow> wheel_slot \<Rightarrow> timer_node list" where
  "get_slot T (Near i) = near T i"
| "get_slot T (Level l j) = tv T l j"

lemma unat_drop_bit: "unat (drop_bit n (a :: u32)) = unat a div 2 ^ n"
  by (simp only: unsigned_drop_bit_eq) (simp only: drop_bit_eq_div take_bit_nat_def,
    metis mod_less unsigned_less len_num1)

lemma or_mask_eq_iff:
  fixes a b :: u32
  assumes "n < 32"
  shows "a OR (2 ^ n - 1) = b OR (2 ^ n - 1) \<longleftrightarrow> unat a div 2 ^ n = unat b div 2 ^ n"
proof -
  have *: "drop_bit n (x OR (2 ^ n - 1)) = drop_bit n x" for x :: u32
    by (rule bit_word_eqI) (auto simp: bit_simps mask_eq_exp_minus_1 [symmetric])
  have "a OR (2 ^ n - 1) = b OR (2 ^ n - 1) \<longleftrightarrow> drop_bit n a = drop_bit n b"
  proof
    assume "a OR (2 ^ n - 1) = b OR (2 ^ n - 1)"
    then show "drop_bit n a = drop_bit n b" using * by metis
  next
    assume eq: "drop_bit n a = drop_bit n b"
    have "bit a i = bit b i" if "n \<le> i" for i
    proof -
      have "bit (drop_bit n a) (i - n) = bit (drop_bit n b) (i - n)" using eq by simp
      with that show ?thesis by (simp add: bit_simps)
    qed
    then show "a OR (2 ^ n - 1) = b OR (2 ^ n - 1)"
      by (intro bit_word_eqI) (auto simp: bit_simps mask_eq_exp_minus_1 [symmetric])
  qed
  also have "\<dots> \<longleftrightarrow> unat (drop_bit n a) = unat (drop_bit n b)" by (simp only: word_unat_eq_iff)
  finally show ?thesis by (simp only: unat_drop_bit)
qed

lemma and_mask_nat:
  fixes a :: u32
  shows "unat (a AND (2 ^ n - 1)) = unat a mod 2 ^ n"
proof -
  have "a AND (2 ^ n - 1) = take_bit n a" by (simp add: take_bit_eq_mask mask_eq_exp_minus_1)
  then show ?thesis by (simp only: unsigned_take_bit_eq) (simp only: take_bit_eq_mod)
qed

lemma masks [wheel_simps]:
  "TIME_NEAR_MASK = 2 ^ 8 - 1" "TIME_LEVEL_MASK = 2 ^ 6 - 1" "TIME_NEAR = 2 ^ 8"
  by (simp_all add: TIME_NEAR_MASK_def TIME_LEVEL_MASK_def TIME_NEAR_def TIME_LEVEL_def
      TIME_NEAR_SHIFT_def TIME_LEVEL_SHIFT_def push_bit_eq_mult)

lemma push_level [wheel_simps]: "push_bit TIME_LEVEL_SHIFT (2 ^ n :: u32) = 2 ^ (n + 6)"
  by (simp add: TIME_LEVEL_SHIFT_def push_bit_eq_mult power_add)

lemma add_level_eq:
  "add_level 0 (push_bit TIME_LEVEL_SHIFT TIME_NEAR) e c = wheel_level (unat c) (unat e)"
proof -
  have 3: "add_level 3 m e c = 3" for m by (simp add: add_level.simps)
  have 2: "add_level 2 (2 ^ 26) e c = (if unat e div 2 ^ 26 = unat c div 2 ^ 26 then 2 else 3)"
    using or_mask_eq_iff [of 26 e c] 3
    by (subst add_level.simps) (simp only: push_level, simp)
  have 1: "add_level 1 (2 ^ 20) e c = (if unat e div 2 ^ 20 = unat c div 2 ^ 20 then 1
      else if unat e div 2 ^ 26 = unat c div 2 ^ 26 then 2 else 3)"
    using or_mask_eq_iff [of 20 e c] 2
    by (subst add_level.simps) (simp only: push_level, simp add: numeral_2_eq_2)
  show ?thesis
    using or_mask_eq_iff [of 14 e c] 1 unfolding masks(3) push_level wheel_level_def
    by (subst add_level.simps) (simp only: push_level, simp)
qed

lemma add_node_get:
  "get_slot (add_node T n) s =
     (if s = slot_for (unat (tm_time T)) (unat (tn_expire n)) then get_slot T s @ [n] else get_slot T s)"
proof -
  let ?c = "unat (tm_time T)" and ?e = "unat (tn_expire n)"
  have near: "tn_expire n OR (2 ^ 8 - 1) = tm_time T OR (2 ^ 8 - 1) \<longleftrightarrow> ?e div 2 ^ 8 = ?c div 2 ^ 8"
    by (rule or_mask_eq_iff) simp
  have "add_node T n =
     (if ?e div 2 ^ 8 = ?c div 2 ^ 8 then T\<lparr>near := (near T)(?e mod 2 ^ 8 := near T (?e mod 2 ^ 8) @ [n])\<rparr>
      else let i = wheel_level ?c ?e; j = ?e div 2 ^ (8 + 6 * i) mod 2 ^ 6
        in T\<lparr>tv := (tv T)(i := (tv T i)(j := tv T i j @ [n]))\<rparr>)"
    unfolding add_node_def Let_def add_level_eq link_t_def
    unfolding masks near and_mask_nat unat_drop_bit TIME_NEAR_SHIFT_def TIME_LEVEL_SHIFT_def
    by (simp only: mult.commute [of 6])
  then show ?thesis
    by (cases s) (auto simp: Let_def slot_for_def simp del: power_numeral)
qed


section \<open>What a tick changes\<close>

definition live :: "nat \<Rightarrow> nat \<Rightarrow> bool" where
  "live c e \<longleftrightarrow> c \<le> e \<or> e div 2 ^ 26 \<noteq> c div 2 ^ 26"

text \<open>The slot that is redistributed when the time becomes \<open>c\<close>.\<close>

definition moved :: "nat \<Rightarrow> wheel_slot option" where
  "moved c =
     (if c = 0 then Some (Level 3 0)
      else if c mod 2 ^ 8 \<noteq> 0 then None
      else if c mod 2 ^ 14 \<noteq> 0 then Some (Level 0 (c div 2 ^ 8 mod 2 ^ 6))
      else if c mod 2 ^ 20 \<noteq> 0 then Some (Level 1 (c div 2 ^ 14 mod 2 ^ 6))
      else if c mod 2 ^ 26 \<noteq> 0 then Some (Level 2 (c div 2 ^ 20 mod 2 ^ 6))
      else Some (Level 3 (c div 2 ^ 26 mod 2 ^ 6)))"

lemma same_block: "Suc c mod n \<noteq> 0 \<Longrightarrow> Suc c div n = c div n"
  by (simp add: div_Suc)

lemma last_of_block: "Suc c mod n = 0 \<Longrightarrow> c < e \<Longrightarrow> e div n \<noteq> c div n"
proof
  assume "Suc c mod n = 0" "c < e" "e div n = c div n"
  moreover from \<open>c < e\<close> have "Suc c div n \<le> e div n" by (intro div_le_mono) simp
  ultimately show False by (simp add: div_Suc)
qed

lemma block_mono: "(a::nat) div 2 ^ k = b div 2 ^ k \<Longrightarrow> a div 2 ^ (k + 6) = b div 2 ^ (k + 6)"
  by (simp only: power_add div_mult2_eq)

lemma zero_mono: "(a::nat) mod 2 ^ (k + 6) = 0 \<Longrightarrow> a mod 2 ^ k = 0"
  by (metis dvd_power_le dvd_refl le_add1 mod_0_imp_dvd dvd_imp_mod_0 dvd_trans le_imp_power_dvd)

lemma blocks [wheel_simps]:
  "(a::nat) div 2 ^ 8 = b div 2 ^ 8 \<Longrightarrow> a div 2 ^ 14 = b div 2 ^ 14"
  "(a::nat) div 2 ^ 14 = b div 2 ^ 14 \<Longrightarrow> a div 2 ^ 20 = b div 2 ^ 20"
  "(a::nat) div 2 ^ 20 = b div 2 ^ 20 \<Longrightarrow> a div 2 ^ 26 = b div 2 ^ 26"
  "(a::nat) mod 2 ^ 14 = 0 \<Longrightarrow> a mod 2 ^ 8 = 0"
  "(a::nat) mod 2 ^ 20 = 0 \<Longrightarrow> a mod 2 ^ 14 = 0"
  "(a::nat) mod 2 ^ 26 = 0 \<Longrightarrow> a mod 2 ^ 20 = 0"
  using block_mono [of a 8 b] block_mono [of a 14 b] block_mono [of a 20 b]
    zero_mono [of a 8] zero_mono [of a 14] zero_mono [of a 20] by simp_all

lemma slot_for_top:
  assumes "e div 2 ^ 26 \<noteq> c div 2 ^ 26"
  shows "slot_for c e = Level 3 (e div 2 ^ 26 mod 2 ^ 6)"
proof -
  from assms have 20: "e div 2 ^ 20 \<noteq> c div 2 ^ 20" by (metis blocks(3))
  then have 14: "e div 2 ^ 14 \<noteq> c div 2 ^ 14" by (metis blocks(2))
  then have "e div 2 ^ 8 \<noteq> c div 2 ^ 8" by (metis blocks(1))
  with assms 14 20 show ?thesis by (simp add: slot_for_def wheel_level_def del: power_numeral)
qed

lemma slot_for_tick:
  assumes "live c e" "e \<noteq> c"
  shows "live (Suc c) e"
    and "case moved (Suc c) of None \<Rightarrow> slot_for (Suc c) e = slot_for c e
      | Some s \<Rightarrow> slot_for c e = s \<or> slot_for (Suc c) e = slot_for c e"
proof -
  have lt: "e div 2 ^ 26 = c div 2 ^ 26 \<Longrightarrow> c < e" using assms by (auto simp: live_def)
  have A: "Suc c mod 2 ^ k \<noteq> 0 \<Longrightarrow> Suc c div 2 ^ k = c div 2 ^ k" for k by (rule same_block)
  have B: "Suc c mod 2 ^ k = 0 \<Longrightarrow> e div 2 ^ 26 = c div 2 ^ 26 \<Longrightarrow> e div 2 ^ k \<noteq> c div 2 ^ k" for k
    by (rule last_of_block [OF _ lt])
  have n: "e div 2 ^ k \<noteq> c div 2 ^ k" if "Suc c mod 2 ^ k = 0" "e div 2 ^ k = c div 2 ^ k \<Longrightarrow> e div 2 ^ 26 = c div 2 ^ 26" for k
  proof
    assume eq: "e div 2 ^ k = c div 2 ^ k"
    from B [OF that(1) that(2) [OF eq]] eq show False by contradiction
  qed
  note up = blocks(1-3) [of e c] and up' = blocks(1-3) [of e "Suc c"] and z = blocks(4-6) [of "Suc c"]
  show "live (Suc c) e"
    using assms A [of 26] lt by (auto simp: live_def)
  show "case moved (Suc c) of None \<Rightarrow> slot_for (Suc c) e = slot_for c e
      | Some s \<Rightarrow> slot_for c e = s \<or> slot_for (Suc c) e = slot_for c e"
  proof -
    consider (none) "Suc c mod 2 ^ 8 \<noteq> 0"
      | (l0) "Suc c mod 2 ^ 8 = 0" "Suc c mod 2 ^ 14 \<noteq> 0"
      | (l1) "Suc c mod 2 ^ 14 = 0" "Suc c mod 2 ^ 20 \<noteq> 0"
      | (l2) "Suc c mod 2 ^ 20 = 0" "Suc c mod 2 ^ 26 \<noteq> 0"
      | (l3) "Suc c mod 2 ^ 26 = 0"
      by blast
    then show ?thesis
    proof cases
      case none
      with z have "Suc c mod 2 ^ 14 \<noteq> 0" "Suc c mod 2 ^ 20 \<noteq> 0" "Suc c mod 2 ^ 26 \<noteq> 0" by metis+
      with none show ?thesis
        by (simp only: moved_def slot_for_def wheel_level_def A if_False if_True not_True_eq_False
            not_False_eq_True nat.distinct option.case nat.simps(3))
    next
      case l0
      with z have "Suc c mod 2 ^ 20 \<noteq> 0" "Suc c mod 2 ^ 26 \<noteq> 0" by metis+
      note a = A [OF l0(2)] A [OF this(1)] A [OF this(2)]
      have "e div 2 ^ 8 \<noteq> c div 2 ^ 8" by (rule n [OF l0(1)]) (use up in blast)
      with l0 a up' show ?thesis
        by (cases "e div 2 ^ 8 = Suc c div 2 ^ 8")
          (simp_all add: moved_def slot_for_def wheel_level_def del: power_numeral)
    next
      case l1
      with z have "Suc c mod 2 ^ 26 \<noteq> 0" and z8: "Suc c mod 2 ^ 8 = 0" by metis+
      note a = A [OF l1(2)] A [OF this(1)]
      have "e div 2 ^ 14 \<noteq> c div 2 ^ 14" by (rule n [OF l1(1)]) (use up in blast)
      with l1 z8 a up up' show ?thesis
        by (cases "e div 2 ^ 14 = Suc c div 2 ^ 14")
          (auto simp add: moved_def slot_for_def wheel_level_def simp del: power_numeral)
    next
      case l2
      with z have z14: "Suc c mod 2 ^ 14 = 0" by blast
      with z have z8: "Suc c mod 2 ^ 8 = 0" by blast
      note a = A [OF l2(2)]
      have "e div 2 ^ 20 \<noteq> c div 2 ^ 20" by (rule n [OF l2(1)]) (use up in blast)
      with l2 z8 z14 a up up' show ?thesis
        by (cases "e div 2 ^ 20 = Suc c div 2 ^ 20")
          (auto simp add: moved_def slot_for_def wheel_level_def simp del: power_numeral)
    next
      case l3
      with z have z20: "Suc c mod 2 ^ 20 = 0" by blast
      with z have z14: "Suc c mod 2 ^ 14 = 0" by blast
      with z have z8: "Suc c mod 2 ^ 8 = 0" by blast
      have "e div 2 ^ 26 \<noteq> c div 2 ^ 26" by (rule n [OF l3(1)]) blast
      note c = slot_for_top [OF this]
      have m: "moved (Suc c) = Some (Level 3 (Suc c div 2 ^ 26 mod 2 ^ 6))"
        using l3 z8 z14 z20 by (simp only: moved_def simp_thms nat.distinct if_False if_True)
      show ?thesis
      proof (cases "e div 2 ^ 26 = Suc c div 2 ^ 26")
        case True
        then show ?thesis by (simp only: c m option.case simp_thms)
      next
        case False
        from slot_for_top [OF this] show ?thesis by (simp only: c m option.case simp_thms)
      qed
    qed
  qed
qed

lemma slot_for_wrap:
  assumes "live (2 ^ 32 - 1) e" "e \<noteq> 2 ^ 32 - 1" "e < 2 ^ 32"
  shows "slot_for (2 ^ 32 - 1) e = Level 3 0 \<or> slot_for 0 e = slot_for (2 ^ 32 - 1) e"
proof -
  define c :: nat where "c = 2 ^ 32 - 1"
  have "\<not> c \<le> e" using assms(2,3) unfolding c_def by linarith
  with assms(1) have "e div 2 ^ 26 \<noteq> c div 2 ^ 26" unfolding c_def [symmetric] live_def by blast
  note 1 = slot_for_top [OF this]
  show ?thesis
  proof (cases "e div 2 ^ 26 = 0")
    case True
    with 1 show ?thesis unfolding c_def [symmetric] by simp
  next
    case False
    then have "e div 2 ^ 26 \<noteq> 0 div 2 ^ 26" by simp
    from slot_for_top [OF this] 1 show ?thesis unfolding c_def [symmetric] by (simp only: simp_thms)
  qed
qed

text \<open>Both cases for 32-bit times.\<close>

lemma slot_for_next:
  fixes c e :: u32
  assumes "live (unat c) (unat e)" "e \<noteq> c"
  shows "live (unat (c + 1)) (unat e)"
    and "case moved (unat (c + 1)) of
        None \<Rightarrow> slot_for (unat (c + 1)) (unat e) = slot_for (unat c) (unat e)
      | Some s \<Rightarrow> slot_for (unat c) (unat e) = s
          \<or> slot_for (unat (c + 1)) (unat e) = slot_for (unat c) (unat e)"
proof -
  have ne: "unat e \<noteq> unat c" using assms(2) by (simp add: word_unat_eq_iff)
  have "live (unat (c + 1)) (unat e) \<and> (case moved (unat (c + 1)) of
        None \<Rightarrow> slot_for (unat (c + 1)) (unat e) = slot_for (unat c) (unat e)
      | Some s \<Rightarrow> slot_for (unat c) (unat e) = s
          \<or> slot_for (unat (c + 1)) (unat e) = slot_for (unat c) (unat e))"
  proof (cases "c + 1 = 0")
    case True
    then have "c = - 1" by (simp add: add_eq_0_iff2)
    then have c: "unat c = 2 ^ 32 - 1" by (simp add: unsigned_minus_1_eq_mask mask_eq_exp_minus_1)
    have "unat e < 2 ^ 32" using unsigned_less [of e] by simp
    with slot_for_wrap [of "unat e"] assms(1) ne c True show ?thesis
      by (auto simp: moved_def live_def simp del: power_numeral)
  next
    case False
    then have "1 + c \<noteq> 0" by (simp add: add.commute)
    then have "unat (c + 1) = Suc (unat c)" using unatSuc [of c] by (simp add: add.commute)
    with slot_for_tick [OF assms(1) ne] show ?thesis by (simp only: conj_absorb simp_thms)
  qed
  then show "live (unat (c + 1)) (unat e)"
    and "case moved (unat (c + 1)) of
        None \<Rightarrow> slot_for (unat (c + 1)) (unat e) = slot_for (unat c) (unat e)
      | Some s \<Rightarrow> slot_for (unat c) (unat e) = s
          \<or> slot_for (unat (c + 1)) (unat e) = slot_for (unat c) (unat e)" by auto
qed

text \<open>\<open>timer_shift\<close> redistributes that slot.\<close>

lemma shift_slot_step:
  "shift_slot ct (2 ^ n) time i =
     (if unat ct mod 2 ^ n = 0 then
        if unat time mod 2 ^ 6 \<noteq> 0 then Some (Some (i, unat time mod 2 ^ 6))
        else shift_slot ct (2 ^ (n + 6)) (drop_bit 6 time) (Suc i)
      else Some None)"
proof -
  have "ct AND (2 ^ n - 1) = 0 \<longleftrightarrow> unat ct mod 2 ^ n = 0"
    using and_mask_nat [of ct n] by (metis unsigned_0 word_unat_eq_iff)
  then show ?thesis
    by (subst shift_slot.simps)
      (simp only: masks and_mask_nat push_level Let_def, simp only: TIME_LEVEL_SHIFT_def)
qed

fun move_to :: "timer \<Rightarrow> wheel_slot option \<Rightarrow> timer" where
  "move_to T (Some (Level i idx)) = move_list T i idx"
| "move_to T _ = T"

lemma digit: "(c::nat) mod 2 ^ k = 0 \<Longrightarrow> c div 2 ^ k mod 2 ^ 6 = 0 \<longleftrightarrow> c mod 2 ^ (k + 6) = 0"
proof -
  assume "c mod 2 ^ k = 0"
  moreover have "c mod (2 ^ k * 2 ^ 6) = 2 ^ k * (c div 2 ^ k mod 2 ^ 6) + c mod 2 ^ k"
    by (rule mod_mult2_eq)
  ultimately show ?thesis by (simp add: power_add)
qed

lemma shift_slot_result:
  assumes "ct \<noteq> 0"
  shows "shift_slot ct TIME_NEAR (drop_bit TIME_NEAR_SHIFT ct) 0 =
    Some (case moved (unat ct) of Some (Level i idx) \<Rightarrow> Some (i, idx) | _ \<Rightarrow> None)"
proof -
  let ?c = "unat ct"
  have nz: "?c \<noteq> 0" using assms by (simp add: unat_eq_0)
  have lt: "?c div 2 ^ 26 < 2 ^ 6"
    using unsigned_less [of ct, where ?'a = nat] by (simp add: less_mult_imp_div_less)
  have last: "?c mod 2 ^ 26 = 0 \<Longrightarrow> ?c div 2 ^ 26 mod 2 ^ 6 \<noteq> 0"
    using nz lt by (metis mod_less div_mult_mod_eq add.right_neutral mult_0)
  have "shift_slot ct (2 ^ 26) (drop_bit 26 ct) 3 =
      Some (if ?c mod 2 ^ 26 = 0 then Some (3, ?c div 2 ^ 26 mod 2 ^ 6) else None)"
    using last
    by (subst shift_slot_step) (cases "?c mod 2 ^ 26 = 0", simp_all only: unat_drop_bit if_True if_False simp_thms)
  moreover have "shift_slot ct (2 ^ 20) (drop_bit 20 ct) 2 =
    (if ?c mod 2 ^ 20 = 0 then if ?c div 2 ^ 20 mod 2 ^ 6 \<noteq> 0 then Some (Some (2, ?c div 2 ^ 20 mod 2 ^ 6))
       else shift_slot ct (2 ^ 26) (drop_bit 26 ct) 3 else Some None)"
    by (subst shift_slot_step) (simp only: unat_drop_bit drop_bit_drop_bit, simp)
  moreover have "shift_slot ct (2 ^ 14) (drop_bit 14 ct) 1 =
    (if ?c mod 2 ^ 14 = 0 then if ?c div 2 ^ 14 mod 2 ^ 6 \<noteq> 0 then Some (Some (1, ?c div 2 ^ 14 mod 2 ^ 6))
       else shift_slot ct (2 ^ 20) (drop_bit 20 ct) 2 else Some None)"
    by (subst shift_slot_step) (simp only: unat_drop_bit drop_bit_drop_bit, simp add: numeral_2_eq_2)
  moreover have "shift_slot ct (2 ^ 8) (drop_bit 8 ct) 0 =
    (if ?c mod 2 ^ 8 = 0 then if ?c div 2 ^ 8 mod 2 ^ 6 \<noteq> 0 then Some (Some (0, ?c div 2 ^ 8 mod 2 ^ 6))
       else shift_slot ct (2 ^ 14) (drop_bit 14 ct) 1 else Some None)"
    by (subst shift_slot_step) (simp only: unat_drop_bit drop_bit_drop_bit, simp)
  moreover have "?c mod 2 ^ 8 = 0 \<Longrightarrow> ?c div 2 ^ 8 mod 2 ^ 6 = 0 \<longleftrightarrow> ?c mod 2 ^ 14 = 0"
    "?c mod 2 ^ 14 = 0 \<Longrightarrow> ?c div 2 ^ 14 mod 2 ^ 6 = 0 \<longleftrightarrow> ?c mod 2 ^ 20 = 0"
    "?c mod 2 ^ 20 = 0 \<Longrightarrow> ?c div 2 ^ 20 mod 2 ^ 6 = 0 \<longleftrightarrow> ?c mod 2 ^ 26 = 0"
    using digit [of ?c 8] digit [of ?c 14] digit [of ?c 20] by simp_all
  ultimately show ?thesis
    using nz blocks(4-6) [of ?c] unfolding masks(3) TIME_NEAR_SHIFT_def moved_def
    by (simp del: power_numeral)
qed


section \<open>The wheel as a calendar\<close>

definition wheel_ok :: "timer \<Rightarrow> bool" where
  "wheel_ok T \<longleftrightarrow> (\<forall>s. \<forall>n \<in> set (get_slot T s).
     slot_for (unat (tm_time T)) (unat (tn_expire n)) = s
     \<and> live (unat (tm_time T)) (unat (tn_expire n)))"

text \<open>The nodes that expire at a time, in the order in which they are dispatched.\<close>

definition calendar :: "timer \<Rightarrow> u32 \<Rightarrow> timer_node list" where
  "calendar T e =
     filter (\<lambda>n. tn_expire n = e) (get_slot T (slot_for (unat (tm_time T)) (unat e)))"

lemma wheel_okD:
  assumes "wheel_ok T" "n \<in> set (get_slot T s)"
  shows "slot_for (unat (tm_time T)) (unat (tn_expire n)) = s"
    "live (unat (tm_time T)) (unat (tn_expire n))"
  using assms by (auto simp: wheel_ok_def)

lemma foldl_add_node_get:
  "get_slot (foldl add_node T ns) s =
     get_slot T s @ filter (\<lambda>n. slot_for (unat (tm_time T)) (unat (tn_expire n)) = s) ns
   \<and> tm_time (foldl add_node T ns) = tm_time T
   \<and> tm_current (foldl add_node T ns) = tm_current T
   \<and> tm_current_point (foldl add_node T ns) = tm_current_point T"
proof (induction ns arbitrary: T)
  case (Cons n ns)
  have "tm_time (add_node T n) = tm_time T" "tm_current (add_node T n) = tm_current T"
    "tm_current_point (add_node T n) = tm_current_point T"
    by (simp_all add: add_node_def Let_def)
  with Cons.IH [of "add_node T n"] show ?case by (auto simp: add_node_get)
qed simp

lemma add_node_frame [frame_simps]:
  "tm_time (add_node T n) = tm_time T" "tm_current (add_node T n) = tm_current T"
  "tm_current_point (add_node T n) = tm_current_point T"
  using foldl_add_node_get [of T "[n]"] by simp_all

lemma add_node_ok:
  assumes "wheel_ok T" "live (unat (tm_time T)) (unat (tn_expire n))"
  shows "wheel_ok (add_node T n)"
    and "calendar (add_node T n) = (calendar T)(tn_expire n := calendar T (tn_expire n) @ [n])"
  using assms by (auto simp: wheel_ok_def calendar_def add_node_get frame_simps)

lemma slot_for_now: "slot_for c e = Near (c mod 2 ^ 8) \<longleftrightarrow> e div 2 ^ 8 = c div 2 ^ 8 \<and> e mod 2 ^ 8 = c mod 2 ^ 8"
  by (simp add: slot_for_def)

lemma slot_for_now_iff: "slot_for c e = Near (c mod 2 ^ 8) \<longleftrightarrow> e = c"
  unfolding slot_for_now by (metis div_mult_mod_eq)

lemma timer_execute_near:
  "timer_execute T = (let i = unat (tm_time T) mod 2 ^ 8 in (near T i, T\<lparr>near := (near T)(i := [])\<rparr>))"
proof -
  define i where "i = unat (tm_time T) mod 2 ^ 8"
  have i: "unat (tm_time T' AND TIME_NEAR_MASK) = i" if "tm_time T' = tm_time T" for T'
    by (simp only: that masks and_mask_nat i_def)
  have Nil: "timer_execute T' = ([], T')" if "near T' i = []" "tm_time T' = tm_time T" for T'
    using that i [of T'] by (subst timer_execute.simps) (simp add: Let_def)
  show ?thesis
  proof (cases "near T i = []")
    case True
    then have "(near T)(i := []) = near T" by auto
    with True Nil [of T] show ?thesis unfolding i_def [symmetric] Let_def by simp
  next
    case False
    with i [of T] Nil [of "T\<lparr>near := (near T)(i := [])\<rparr>"] show ?thesis
      unfolding i_def [symmetric] Let_def
      by (subst timer_execute.simps) (simp add: Let_def link_clear_def)
  qed
qed

lemma timer_execute_ok:
  assumes ok: "wheel_ok T"
  obtains T' where "timer_execute T = (calendar T (tm_time T), T')"
    "wheel_ok T'" "calendar T' = (calendar T)(tm_time T := [])"
    "tm_time T' = tm_time T" "tm_current T' = tm_current T" "tm_current_point T' = tm_current_point T"
proof -
  define c where "c = unat (tm_time T)"
  let ?i = "c mod 2 ^ 8"
  let ?T = "T\<lparr>near := (near T)(?i := [])\<rparr>"
  have slot: "slot_for c c = Near ?i" by (simp only: slot_for_now_iff)
  have eq: "tn_expire n = tm_time T" if "n \<in> set (near T ?i)" for n
    using wheel_okD(1) [OF ok, of n "Near ?i"] that
    unfolding c_def [symmetric] slot_for_now_iff by (simp add: c_def word_unat_eq_iff)
  then have cal: "calendar T (tm_time T) = near T ?i"
    by (simp add: calendar_def slot flip: c_def)
  have get: "get_slot ?T s = (if s = Near ?i then [] else get_slot T s)" for s
    by (cases s) auto
  show ?thesis
  proof (rule that [of ?T])
    show "timer_execute T = (calendar T (tm_time T), ?T)"
      unfolding timer_execute_near Let_def cal c_def ..
    show "wheel_ok ?T" using ok
      by (auto simp: wheel_ok_def get split: if_splits simp del: power_numeral)
    show "calendar ?T = (calendar T)(tm_time T := [])"
    proof (rule ext)
      fix e
      have "get_slot ?T (slot_for c (unat e)) = (if e = tm_time T then [] else get_slot T (slot_for c (unat e)))"
        unfolding get slot_for_now_iff by (simp add: c_def word_unat_eq_iff)
      then show "calendar ?T e = ((calendar T)(tm_time T := [])) e"
        by (simp add: calendar_def flip: c_def)
    qed
  qed auto
qed

lemma timer_shift_eq:
  "timer_shift T = Some (move_to (T\<lparr>tm_time := tm_time T + 1\<rparr>) (moved (unat (tm_time T + 1))))"
proof (cases "tm_time T + 1 = 0")
  case True
  then show ?thesis by (simp add: timer_shift_def moved_def Let_def)
next
  case False
  have nn: "moved c \<noteq> Some (Near i)" for c i by (simp add: moved_def)
  show ?thesis
  proof (cases "moved (unat (tm_time T + 1))")
    case None
    with False shift_slot_result [OF False] show ?thesis by (simp add: timer_shift_def Let_def)
  next
    case (Some s)
    with nn obtain i idx where "s = Level i idx" by (cases s) auto
    with Some False shift_slot_result [OF False] show ?thesis by (simp add: timer_shift_def Let_def)
  qed
qed

lemma move_to_get:
  assumes "s = Some (Level i idx)"
  shows "get_slot (move_to T s) s' =
     (if s' = Level i idx then [] else get_slot T s')
     @ filter (\<lambda>n. slot_for (unat (tm_time T)) (unat (tn_expire n)) = s') (get_slot T (Level i idx))"
proof -
  let ?T = "T\<lparr>tv := (tv T)(i := (tv T i)(idx := []))\<rparr>"
  have "get_slot ?T s' = (if s' = Level i idx then [] else get_slot T s')" by (cases s') auto
  with assms foldl_add_node_get [of ?T "tv T i idx" s'] show ?thesis
    by (simp add: move_list_def link_clear_def)
qed

lemma move_to_frame [frame_simps]:
  "tm_time (move_to T s) = tm_time T" "tm_current (move_to T s) = tm_current T"
  "tm_current_point (move_to T s) = tm_current_point T"
  by (cases "(T, s)" rule: move_to.cases, simp_all add: move_list_def link_clear_def foldl_add_node_get)+


lemma timer_shift_ok:
  assumes ok: "wheel_ok T" and due: "calendar T (tm_time T) = []"
  obtains T' where "timer_shift T = Some T'" "wheel_ok T'" "calendar T' = calendar T"
    "tm_time T' = tm_time T + 1" "tm_current T' = tm_current T" "tm_current_point T' = tm_current_point T"
proof -
  define c where "c = tm_time T"
  let ?base = "T\<lparr>tm_time := c + 1\<rparr>" and ?m = "moved (unat (c + 1))"
  let ?T = "move_to ?base ?m"
  have get0: "get_slot ?base s = get_slot T s" for s by (cases s) auto
  have nodue: "tn_expire n \<noteq> c" if n: "n \<in> set (get_slot T s)" for n s
  proof
    assume "tn_expire n = c"
    moreover from this wheel_okD(1) [OF ok n] have "s = slot_for (unat c) (unat c)" by (simp add: c_def)
    ultimately have "n \<in> set (calendar T c)" using n by (simp add: calendar_def c_def)
    with due show False by (simp add: c_def)
  qed
  have next_live: "live (unat (c + 1)) (unat (tn_expire n))"
    and next_slot: "case ?m of None \<Rightarrow> slot_for (unat (c + 1)) (unat (tn_expire n)) = s
      | Some s' \<Rightarrow> s = s' \<or> slot_for (unat (c + 1)) (unat (tn_expire n)) = s"
    if n: "n \<in> set (get_slot T s)" for n s
    using slot_for_next [of c "tn_expire n"] wheel_okD [OF ok n, folded c_def] nodue [OF n]
    by (auto split: option.splits)
  have get: "get_slot ?T s = (case ?m of None \<Rightarrow> get_slot T s
      | Some s' \<Rightarrow> (if s = s' then [] else get_slot T s)
         @ filter (\<lambda>n. slot_for (unat (c + 1)) (unat (tn_expire n)) = s) (get_slot T s'))" for s
  proof (cases ?m)
    case None
    then show ?thesis by (simp add: get0)
  next
    case (Some s')
    then obtain i idx where "s' = Level i idx"
      by (cases s') (auto simp: moved_def split: if_splits)
    with Some move_to_get [of ?m i idx ?base s] show ?thesis by (simp add: get0 del: get_slot.simps)
  qed
  have ok': "wheel_ok ?T"
    unfolding wheel_ok_def frame_simps get
    using next_live next_slot by (cases ?m) (auto split: if_splits)
  have "calendar ?T e = calendar T e" for e
  proof -
    have other: "filter (\<lambda>n. tn_expire n = e) (get_slot T s) = []"
      if "s \<noteq> slot_for (unat c) (unat e)" for s
      using wheel_okD(1) [OF ok] that by (auto simp: filter_empty_conv c_def)
    let ?s = "slot_for (unat c) (unat e)" and ?s' = "slot_for (unat (c + 1)) (unat e)"
    have cal: "calendar ?T e = filter (\<lambda>n. tn_expire n = e) (get_slot ?T ?s')"
      by (simp add: calendar_def frame_simps)
    have cal0: "calendar T e = filter (\<lambda>n. tn_expire n = e) (get_slot T ?s)"
      by (simp add: calendar_def c_def)
    have sub: "filter (\<lambda>n. tn_expire n = e) (filter (\<lambda>n. slot_for (unat (c + 1)) (unat (tn_expire n)) = s) ns)
        = filter (\<lambda>n. tn_expire n = e) ns" if "?s' = s" for ns s
      using that by (induction ns) auto
    show ?thesis
    proof (cases "\<exists>n \<in> set (get_slot T ?s). tn_expire n = e")
      case False
      then have "filter (\<lambda>n. tn_expire n = e) (get_slot T s) = []" for s
        using other by (cases "s = ?s") (auto simp: filter_empty_conv)
      then show ?thesis unfolding cal cal0 get
        by (cases ?m) (simp_all add: sub del: filter_filter)
    next
      case True
      then obtain n where n: "n \<in> set (get_slot T ?s)" "tn_expire n = e" by blast
      show ?thesis
      proof (cases ?m)
        case None
        with next_slot [OF n(1)] n(2) show ?thesis unfolding cal cal0 get by simp
      next
        case (Some m)
        show ?thesis
        proof (cases "m = ?s")
          case True
          with Some other [of ?s'] show ?thesis unfolding cal cal0 get
            by (cases "?s' = ?s") (simp_all add: sub del: filter_filter)
        next
          case False
          with Some next_slot [OF n(1)] n(2) have "?s' = ?s" by auto
          with Some False other [of m] show ?thesis unfolding cal cal0 get by (simp add: sub del: filter_filter)
        qed
      qed
    qed
  qed
  then have "calendar ?T = calendar T" by (rule ext)
  with ok' show ?thesis
    by (intro that [of ?T]) (auto simp: timer_shift_eq frame_simps c_def)
qed

lemma timer_update_ok:
  assumes ok: "wheel_ok T"
  obtains T' where
    "timer_update T = Some (calendar T (tm_time T) @ calendar T (tm_time T + 1), T')"
    "wheel_ok T'" "calendar T' = (calendar T)(tm_time T := [], tm_time T + 1 := [])"
    "tm_time T' = tm_time T + 1" "tm_current T' = tm_current T" "tm_current_point T' = tm_current_point T"
proof -
  obtain T1 where 1: "timer_execute T = (calendar T (tm_time T), T1)" "wheel_ok T1"
    "calendar T1 = (calendar T)(tm_time T := [])" "tm_time T1 = tm_time T"
    "tm_current T1 = tm_current T" "tm_current_point T1 = tm_current_point T"
    by (rule timer_execute_ok [OF ok])
  have due: "calendar T1 (tm_time T1) = []" by (simp add: 1)
  obtain T2 where 2: "timer_shift T1 = Some T2" "wheel_ok T2" "calendar T2 = calendar T1"
    "tm_time T2 = tm_time T1 + 1" "tm_current T2 = tm_current T1" "tm_current_point T2 = tm_current_point T1"
    by (rule timer_shift_ok [OF 1(2) due])
  obtain T3 where 3: "timer_execute T2 = (calendar T2 (tm_time T2), T3)" "wheel_ok T3"
    "calendar T3 = (calendar T2)(tm_time T2 := [])" "tm_time T3 = tm_time T2"
    "tm_current T3 = tm_current T2" "tm_current_point T3 = tm_current_point T2"
    by (rule timer_execute_ok [OF 2(2)])
  from 1 2 3 show ?thesis by (intro that [of T3]) (simp_all add: timer_update_def)
qed


lemma unat_of_nat32: "k < 2 ^ 32 \<Longrightarrow> unat (of_nat k :: u32) = k"
  by (simp add: unsigned_of_nat take_bit_nat_eq_self)

lemma div_ne_far: "a + N \<le> b \<Longrightarrow> 0 < N \<Longrightarrow> a div N \<noteq> b div (N::nat)"
  using div_le_mono [of "a + N" b N] div_add_self2 [of N a] by simp

lemma mod_once: "N \<le> x \<Longrightarrow> x < N + N \<Longrightarrow> x mod N = x - (N::nat)"
  by (subst le_mod_geq) auto

lemma word_of_nat_ne:
  fixes c :: u32
  assumes "0 < k" "k < 2 ^ 32"
  shows "c + of_nat k \<noteq> c"
proof
  assume "c + of_nat k = c"
  then have "of_nat k = (0 :: u32)" by simp
  then have "(2 ^ 32 :: nat) dvd k" by (simp add: word_of_nat_eq_0_iff)
  with assms show False by (auto dest: nat_dvd_not_less)
qed

lemma timer_updates_ok:
  "wheel_ok T \<Longrightarrow> calendar T (tm_time T) = [] \<Longrightarrow> n < 2 ^ 32 \<Longrightarrow>
   \<exists>T'. timer_updates n T = Some (map (\<lambda>k. calendar T (tm_time T + 1 + of_nat k)) [0..<n], T')
     \<and> wheel_ok T' \<and> tm_time T' = tm_time T + of_nat n \<and> calendar T' (tm_time T') = []
     \<and> tm_current T' = tm_current T \<and> tm_current_point T' = tm_current_point T"
proof (induction n arbitrary: T)
  case 0
  then show ?case by simp
next
  case (Suc n)
  obtain T1 where 1:
    "timer_update T = Some (calendar T (tm_time T) @ calendar T (tm_time T + 1), T1)"
    "wheel_ok T1" "calendar T1 = (calendar T)(tm_time T := [], tm_time T + 1 := [])"
    "tm_time T1 = tm_time T + 1" "tm_current T1 = tm_current T" "tm_current_point T1 = tm_current_point T"
    by (rule timer_update_ok [OF Suc.prems(1)])
  have due: "calendar T1 (tm_time T1) = []" "n < 2 ^ 32" using 1 Suc.prems by simp_all
  from Suc.IH [OF 1(2) this] obtain T' where 2:
    "timer_updates n T1 = Some (map (\<lambda>k. calendar T1 (tm_time T1 + 1 + of_nat k)) [0..<n], T')"
    "wheel_ok T'" "tm_time T' = tm_time T1 + of_nat n" "calendar T' (tm_time T') = []"
    "tm_current T' = tm_current T1" "tm_current_point T' = tm_current_point T1" by blast
  have "calendar T1 (tm_time T1 + 1 + of_nat k) = calendar T (tm_time T + 1 + of_nat (Suc k))"
    if "k < n" for k
    using that Suc.prems(3) word_of_nat_ne [of "Suc (Suc k)" "tm_time T"] word_of_nat_ne [of "Suc k" "tm_time T + 1"]
    unfolding 1(3,4) by (simp add: algebra_simps)
  then have "map (\<lambda>k. calendar T1 (tm_time T1 + 1 + of_nat k)) [0..<n]
      = map (\<lambda>k. calendar T (tm_time T + 1 + of_nat (Suc k))) [0..<n]" by simp
  then have "calendar T (tm_time T + 1) # map (\<lambda>k. calendar T1 (tm_time T1 + 1 + of_nat k)) [0..<n]
      = map (\<lambda>k. calendar T (tm_time T + 1 + of_nat k)) [0..<Suc n]"
    by (simp only: upt_conv_Cons [OF zero_less_Suc] map_Suc_upt [symmetric] list.map map_map o_def) simp
  with 1 2 Suc.prems(2) show ?case by (simp add: algebra_simps)
qed

lemma timer_add_ok:
  fixes ev :: timer_event
  assumes ok: "wheel_ok T" and t: "0 < t" "t < 2 ^ 31"
  defines "node \<equiv> \<lparr>tn_expire = word_of_int t + tm_time T, tn_event = ev\<rparr>"
  shows "wheel_ok (timer_add T ev t)"
    and "calendar (timer_add T ev t) =
      (calendar T)(tm_time T + word_of_int t := calendar T (tm_time T + word_of_int t) @ [node])"
    and "tm_time (timer_add T ev t) = tm_time T"
proof -
  let ?c = "unat (tm_time T)" and ?e = "unat (tn_expire node)"
  have w: "unat (word_of_int t :: u32) = nat t"
    using t unat_of_nat32 [of "nat t"] by simp
  have "?e = (unat (word_of_int t :: u32) + ?c) mod 2 ^ LENGTH(32)"
    unfolding node_def timer_node.select_convs by (rule unat_word_ariths)
  then have e: "?e = (?c + nat t) mod 2 ^ 32"
    unfolding w by (simp only: add.commute) simp
  have "live ?c ?e"
  proof (cases "?c + nat t < 2 ^ 32")
    case True
    with e show ?thesis by (simp add: live_def)
  next
    case False
    have "?c < 2 ^ 32" using unsigned_less [of "tm_time T", where ?'a = nat] by simp
    with False t have "?e = ?c + nat t - 2 ^ 32" unfolding e by (intro mod_once) auto
    moreover from t have "nat t + 2 ^ 26 \<le> 2 ^ 32" by simp
    ultimately have "?e + 2 ^ 26 \<le> ?c" using False by linarith
    from div_ne_far [OF this] show ?thesis by (simp only: live_def) simp
  qed
  from add_node_ok [OF ok this] show "wheel_ok (timer_add T ev t)"
    "calendar (timer_add T ev t) =
      (calendar T)(tm_time T + word_of_int t := calendar T (tm_time T + word_of_int t) @ [node])"
    "tm_time (timer_add T ev t) = tm_time T"
    by (simp_all add: timer_add_def node_def add.commute frame_simps)
qed

section \<open>Properties\<close>

text \<open>C1: one tick of the wheel. From every well-formed wheel the tick dispatches exactly the
  nodes that expire at the old time and at the new one, in the order in which they were
  added, keeps every other node pending under its own expiry, across the levels of the
  wheel and the wrap-around of the clock, and keeps the wheel well formed.\<close>

theorem timer_update_exact:
  assumes "wheel_ok T"
  shows "\<exists>T'. timer_update T = Some (calendar T (tm_time T) @ calendar T (tm_time T + 1), T')
    \<and> wheel_ok T' \<and> tm_time T' = tm_time T + 1
    \<and> calendar T' = (calendar T)(tm_time T := [], tm_time T + 1 := [])"
  by (rule timer_update_ok [OF assms]) blast

lemma timer_create_ok: "wheel_ok (timer_create_timer\<lparr>tm_time := c\<rparr>)"
  "calendar (timer_create_timer\<lparr>tm_time := c\<rparr>) e = []"
proof -
  have "get_slot (timer_create_timer\<lparr>tm_time := c\<rparr>) s = []" for s
    by (cases s) (simp_all add: timer_create_timer_def)
  then show "wheel_ok (timer_create_timer\<lparr>tm_time := c\<rparr>)"
    "calendar (timer_create_timer\<lparr>tm_time := c\<rparr>) e = []"
    by (simp_all add: wheel_ok_def calendar_def)
qed

lemma timer_update_exact_witness:
  "\<exists>T'. timer_update (timer_create_timer\<lparr>tm_time := 0x3fff\<rparr>) = Some ([], T') \<and> tm_time T' = 0x4000"
  using timer_update_exact [OF timer_create_ok(1), of "0x3fff"] by (auto simp: timer_create_ok(2))

text \<open>C5: a timer added for \<open>t\<close> ticks ahead, with \<open>t\<close> any positive \<open>int\<close>, fires at the
  \<open>t\<close>-th tick and at no other of the next \<open>2 ^ 32 - 1\<close> ticks, after the nodes that
  already expire then, and moves no other node.\<close>

theorem timer_add_fires_on_time:
  assumes "wheel_ok T" "calendar T (tm_time T) = []" "0 < t" "t < 2 ^ 31" "n < 2 ^ 32"
  shows "\<exists>T'. timer_updates n (timer_add T ev t) =
      Some (map (\<lambda>k. calendar T (tm_time T + 1 + of_nat k)
        @ (if Suc k = nat t then [\<lparr>tn_expire = tm_time T + word_of_int t, tn_event = ev\<rparr>] else []))
        [0..<n], T') \<and> wheel_ok T'"
proof -
  let ?w = "word_of_int t :: u32"
  have w: "?w = of_nat (nat t)" using assms(3) by simp
  have t: "0 < nat t" "nat t < 2 ^ 32" using assms(3,4) by auto
  note add = timer_add_ok [OF assms(1,3,4), of ev]
  have ne: "tm_time T + ?w \<noteq> tm_time T" unfolding w by (rule word_of_nat_ne [OF t])
  then have due: "calendar (timer_add T ev t) (tm_time (timer_add T ev t)) = []"
    using assms(2) add(2,3) by simp
  have "tm_time T + 1 + of_nat k = tm_time T + ?w \<longleftrightarrow> Suc k = nat t" if "k < n" for k
  proof -
    have "tm_time T + 1 + of_nat k = tm_time T + ?w \<longleftrightarrow> of_nat (Suc k) = (of_nat (nat t) :: u32)"
      unfolding w by (simp add: add.assoc)
    also have "\<dots> \<longleftrightarrow> Suc k = nat t"
      using that assms(5) t unat_of_nat32 [of "Suc k"] unat_of_nat32 [of "nat t"]
      by (metis Suc_lessI Suc_lessD less_trans_Suc)
    finally show ?thesis .
  qed
  note at = this
  have "calendar (timer_add T ev t) (tm_time T + 1 + of_nat k) = calendar T (tm_time T + 1 + of_nat k)
        @ (if Suc k = nat t then [\<lparr>tn_expire = tm_time T + ?w, tn_event = ev\<rparr>] else [])" if "k < n" for k
  proof -
    show ?thesis
    proof (cases "Suc k = nat t")
      case True
      with at [OF that] have "tm_time T + 1 + of_nat k = tm_time T + ?w" by blast
      with True show ?thesis
        by (simp only: add(2) fun_upd_apply if_True simp_thms add.commute [of ?w])
    next
      case False
      with at [OF that] have "tm_time T + 1 + of_nat k \<noteq> tm_time T + ?w" by blast
      with False show ?thesis by (simp only: add(2) fun_upd_apply if_False append_Nil2)
    qed
  qed
  then have "map (\<lambda>k. calendar (timer_add T ev t) (tm_time T + 1 + of_nat k)) [0..<n]
    = map (\<lambda>k. calendar T (tm_time T + 1 + of_nat k)
        @ (if Suc k = nat t then [\<lparr>tn_expire = tm_time T + ?w, tn_event = ev\<rparr>] else [])) [0..<n]"
    by simp
  with timer_updates_ok [OF add(1) due assms(5)] add(3) show ?thesis by metis
qed

lemma timer_add_fires_on_time_witness:
  "\<exists>T'. timer_updates 2 (timer_add timer_create_timer
       \<lparr>te_handle = 0x101, te_session = 1, te_data = None, te_size = 0\<rparr> 2) =
     Some ([[], [\<lparr>tn_expire = 2, tn_event =
       \<lparr>te_handle = 0x101, te_session = 1, te_data = None, te_size = 0\<rparr>\<rparr>]], T')"
proof -
  have [simp]: "timer_create_timer\<lparr>tm_time := 0\<rparr> = timer_create_timer" "tm_time timer_create_timer = 0"
    by (simp_all add: timer_create_timer_def)
  have 1: "wheel_ok timer_create_timer" "calendar timer_create_timer e = []" for e
    using timer_create_ok [of 0] by simp_all
  have 2: "[0..<2] = [0, Suc 0]" by (simp add: numeral_2_eq_2)
  have "calendar timer_create_timer (tm_time timer_create_timer) = []" "(0::int) < 2"
    "(2::int) < 2 ^ 31" "(2::nat) < 2 ^ 32" by (simp_all add: 1)
  from timer_add_fires_on_time [OF 1(1) this,
      of "\<lparr>te_handle = 0x101, te_session = 1, te_data = None, te_size = 0\<rparr>"]
  show ?thesis by (simp add: 1 2 del: timer_updates.simps) blast
qed

text \<open>Reading the clock. When it has not gone back, \<open>skynet_updatetime\<close> runs one tick
  for every millisecond that passed (modulo \<open>2 ^ 32\<close>), pushes the messages of all nodes
  that expire in that interval in order of expiry, and advances the current time by the
  interval; when it has gone back, nothing fires.\<close>

theorem skynet_updatetime_ticks:
  assumes "wheel_ok T" "calendar T (tm_time T) = []"
  shows "let diff = ucast (cp - tm_current_point T) :: u32 in
    \<exists>msgs T'. skynet_updatetime cp T = Some (msgs, T') \<and> wheel_ok T'
    \<and> tm_current_point T' = cp \<and> calendar T' (tm_time T') = []
    \<and> (if cp < tm_current_point T then msgs = [] \<and> tm_time T' = tm_time T \<and> tm_current T' = tm_current T
       else tm_time T' = tm_time T + diff \<and> tm_current T' = tm_current T + ucast diff
         \<and> msgs = concat (map (\<lambda>k. dispatch_list (calendar T (tm_time T + 1 + of_nat k))) [0..<unat diff]))"
proof -
  define diff where "diff = (ucast (cp - tm_current_point T) :: u32)"
  have upd: "wheel_ok (T\<lparr>tm_current_point := p, tm_current := c\<rparr>) = wheel_ok T"
    "calendar (T\<lparr>tm_current_point := p, tm_current := c\<rparr>) = calendar T" for p c
  proof -
    have "get_slot (T\<lparr>tm_current_point := p, tm_current := c\<rparr>) s = get_slot T s" for s by (cases s) auto
    then show "wheel_ok (T\<lparr>tm_current_point := p, tm_current := c\<rparr>) = wheel_ok T"
      "calendar (T\<lparr>tm_current_point := p, tm_current := c\<rparr>) = calendar T"
      by (auto simp: wheel_ok_def calendar_def)
  qed
  have upd1: "wheel_ok (T\<lparr>tm_current_point := p\<rparr>) = wheel_ok T"
    "calendar (T\<lparr>tm_current_point := p\<rparr>) = calendar T" for p
    using upd [where p = p and c = "tm_current T"] by simp_all
  show ?thesis
  proof (cases "cp \<le> tm_current_point T")
    case True
    with assms show ?thesis
      by (cases "cp = tm_current_point T") (auto simp: skynet_updatetime_def upd1)
  next
    case False
    let ?T = "T\<lparr>tm_current_point := cp, tm_current := tm_current T + ucast diff\<rparr>"
    have "unat diff < 2 ^ 32" using unsigned_less [of diff, where ?'a = nat] by simp
    from timer_updates_ok [of ?T "unat diff"] this assms(1,2) obtain T' where
      "timer_updates (unat diff) ?T = Some (map (\<lambda>k. calendar T (tm_time T + 1 + of_nat k)) [0..<unat diff], T')"
      "wheel_ok T'" "tm_time T' = tm_time T + diff" "calendar T' (tm_time T') = []"
      "tm_current T' = tm_current T + ucast diff" "tm_current_point T' = cp"
      by (auto simp: upd)
    with False show ?thesis unfolding Let_def diff_def [symmetric]
      by (auto simp: skynet_updatetime_def Let_def dispatch_list_def map_concat comp_def simp flip: diff_def)
  qed
qed

lemma skynet_updatetime_ticks_witness:
  "\<exists>T'. skynet_updatetime 10 (skynet_timer_init 0 0 7) = Some ([], T') \<and> tm_time T' = 3"
proof -
  let ?T = "skynet_timer_init 0 0 7"
  have "get_slot ?T s = []" for s
    by (cases s) (simp_all add: skynet_timer_init_def timer_create_timer_def)
  then have "wheel_ok ?T" "\<And>e. calendar ?T e = []" by (simp_all add: wheel_ok_def calendar_def)
  moreover have "tm_time ?T = 0" "tm_current_point ?T = 7"
    by (simp_all add: skynet_timer_init_def timer_create_timer_def)
  ultimately show ?thesis
    using skynet_updatetime_ticks [of ?T 10] by (auto simp: dispatch_list_def)
qed

end
