(* ===== verification/Global_Mq.thy ===== *)
theory Global_Mq
  imports Mq
begin

text \<open>
  The global queue of \<open>skynet_mq.c\<close>: the queues that wait for a worker, linked through
  their \<open>next\<close> fields between the pointers \<open>Q->head\<close> and \<open>Q->tail\<close>. The store maps the
  addresses of live \<open>message_queue\<close> objects to their contents; following a pointer to a
  freed queue, or failing the assertion of \<open>skynet_globalmq_pop\<close>, is \<open>None\<close>.
\<close>

record mq_heap =
  mqs :: "addr \<Rightarrow> message_queue option"
  g_head :: "addr option"
  g_tail :: "addr option"

definition upd_mq :: "addr \<Rightarrow> (message_queue \<Rightarrow> message_queue) \<Rightarrow> mq_heap \<Rightarrow> mq_heap option" where
  "upd_mq a f s = do { q \<leftarrow> mqs s a; Some (s\<lparr>mqs := (mqs s)(a := Some (f q))\<rparr>) }"

definition skynet_globalmq_push :: "addr \<Rightarrow> mq_heap \<Rightarrow> mq_heap option" where
  "skynet_globalmq_push queue s =
     (case g_tail s of
        Some t \<Rightarrow> do {
          s \<leftarrow> upd_mq t (\<lambda>q. q\<lparr>q_next := Some queue\<rparr>) s;
          Some (s\<lparr>g_tail := Some queue\<rparr>) }
      | None \<Rightarrow> Some (s\<lparr>g_head := Some queue, g_tail := Some queue\<rparr>))"

definition skynet_globalmq_pop :: "mq_heap \<Rightarrow> (addr option \<times> mq_heap) option" where
  "skynet_globalmq_pop s =
     (case g_head s of
        None \<Rightarrow> Some (None, s)
      | Some a \<Rightarrow> do {
          mq \<leftarrow> mqs s a;
          let s = s\<lparr>g_head := q_next mq\<rparr>;
          s \<leftarrow> (if g_head s = None
                then (if g_tail s = Some a then Some (s\<lparr>g_tail := None\<rparr>) else None)
                else Some s);
          s \<leftarrow> upd_mq a (\<lambda>q. q\<lparr>q_next := None\<rparr>) s;
          s \<leftarrow> (if q_concurrent mq then skynet_globalmq_push a s else Some s);
          Some (Some a, s) })"

definition skynet_mq_init :: mq_heap where
  "skynet_mq_init = \<lparr>mqs = Map.empty, g_head = None, g_tail = None\<rparr>"

definition skynet_mq_push :: "addr \<Rightarrow> skynet_message \<Rightarrow> mq_heap \<Rightarrow> mq_heap option" where
  "skynet_mq_push a message s = do {
     q \<leftarrow> mqs s a;
     let q = mq_store message q;
     if \<not> q_in_global q
     then skynet_globalmq_push a (s\<lparr>mqs := (mqs s)(a := Some (q\<lparr>q_in_global := True\<rparr>))\<rparr>)
     else Some (s\<lparr>mqs := (mqs s)(a := Some q)\<rparr>) }"

definition mq_pop_at :: "addr \<Rightarrow> mq_heap \<Rightarrow> (skynet_message option \<times> mq_heap) option" where
  "mq_pop_at a s = do {
     q \<leftarrow> mqs s a;
     let (r, q) = skynet_mq_pop q;
     Some (r, s\<lparr>mqs := (mqs s)(a := Some q)\<rparr>) }"

text \<open>
  \<open>skynet_mq_release\<close>: a concurrent queue is only marked the first time; any other
  queue is drained and freed. The result lists the messages whose data was freed.
\<close>

definition skynet_mq_release :: "addr \<Rightarrow> mq_heap \<Rightarrow> (skynet_message list \<times> mq_heap) option" where
  "skynet_mq_release a s = do {
     q \<leftarrow> mqs s a;
     if \<not> q_release q \<and> q_concurrent q
     then Some ([], s\<lparr>mqs := (mqs s)(a := Some (q\<lparr>q_release := True, q_concurrent := False\<rparr>))\<rparr>)
     else do {
       (ms, q') \<leftarrow> mq_drain q;
       Some (ms, s\<lparr>mqs := (mqs s)(a := None)\<rparr>) } }"

section \<open>The list behind the pointers\<close>

fun gpath :: "(addr \<Rightarrow> message_queue option) \<Rightarrow> addr option \<Rightarrow> addr list \<Rightarrow> bool" where
  "gpath h p [] \<longleftrightarrow> p = None"
| "gpath h p (a # as) \<longleftrightarrow>
     p = Some a \<and> (case h a of None \<Rightarrow> False | Some q \<Rightarrow> gpath h (q_next q) as)"

definition gq_rep :: "mq_heap \<Rightarrow> addr list \<Rightarrow> bool" where
  "gq_rep s as \<longleftrightarrow> gpath (mqs s) (g_head s) as \<and> distinct as
     \<and> g_tail s = (if as = [] then None else Some (last as))
     \<and> (\<forall>a q. mqs s a = Some q \<longrightarrow> a \<notin> set as \<longrightarrow> q_next q = None)"

text \<open>A queue without its link: what the global queue never changes.\<close>

definition mq_core :: "mq_heap \<Rightarrow> addr \<Rightarrow> message_queue option" where
  "mq_core s a = map_option (\<lambda>q. q\<lparr>q_next := None\<rparr>) (mqs s a)"

lemma gpath_dom: "gpath h p as \<Longrightarrow> a \<in> set as \<Longrightarrow> h a \<noteq> None"
  by (induction as arbitrary: p) (auto split: option.splits)

lemma gpath_upd_other [simp]: "a \<notin> set as \<Longrightarrow> gpath (h(a := v)) p as = gpath h p as"
  by (induction as arbitrary: p) (auto split: option.splits)

lemma gpath_upd_same_next:
  "h a = Some q \<Longrightarrow> q_next q' = q_next q \<Longrightarrow> gpath (h(a := Some q')) p as = gpath h p as"
  by (induction as arbitrary: p) (auto split: option.splits)

lemma gpath_last_next: "gpath h p (as @ [t]) \<Longrightarrow> \<exists>q. h t = Some q \<and> q_next q = None"
  by (induction as arbitrary: p) (auto split: option.splits)

lemma gpath_link:
  assumes "gpath h p (as @ [t])" "distinct (as @ [t])" "h t = Some tq"
    and "a \<notin> set (as @ [t])" "h a = Some q" "q_next q = None"
  shows "gpath (h(t := Some (tq\<lparr>q_next := Some a\<rparr>))) p (as @ [t, a])"
  using assms by (induction as arbitrary: p) (auto split: option.splits)

lemma mq_core_upd_next:
  "mqs s a = Some q \<Longrightarrow>
   mq_core (s\<lparr>mqs := (mqs s)(a := Some (q\<lparr>q_next := n\<rparr>))\<rparr>) = mq_core s"
  by (rule ext) (simp add: mq_core_def)

lemma mq_core_g [simp]:
  "mq_core (s\<lparr>g_head := x\<rparr>) = mq_core s" "mq_core (s\<lparr>g_tail := x\<rparr>) = mq_core s"
  by (rule ext, simp add: mq_core_def)+

lemma mq_core_eq_None: "mq_core s a = None \<longleftrightarrow> mqs s a = None"
  by (simp add: mq_core_def)

lemma mq_core_SomeD: "mq_core s a = Some q \<Longrightarrow> \<exists>q'. mqs s a = Some q' \<and> q = q'\<lparr>q_next := None\<rparr>"
  by (auto simp: mq_core_def)

lemma gq_rep_push:
  assumes rep: "gq_rep s as" and a: "a \<notin> set as" and q: "mqs s a = Some q"
  shows "\<exists>s'. skynet_globalmq_push a s = Some s' \<and> gq_rep s' (as @ [a]) \<and> mq_core s' = mq_core s"
proof (cases as rule: rev_cases)
  case Nil
  with rep q show ?thesis
    by (auto simp: skynet_globalmq_push_def gq_rep_def intro: mq_core_g [THEN trans])
next
  case (snoc bs t)
  with rep have path: "gpath (mqs s) (g_head s) (bs @ [t])" and d: "distinct (bs @ [t])"
    and tl: "g_tail s = Some t" by (auto simp: gq_rep_def)
  from gpath_last_next [OF path] obtain tq where tq: "mqs s t = Some tq" by blast
  from rep a q have n: "q_next q = None" by (auto simp: gq_rep_def)
  let ?s = "s\<lparr>mqs := (mqs s)(t := Some (tq\<lparr>q_next := Some a\<rparr>)), g_tail := Some a\<rparr>"
  have "skynet_globalmq_push a s = Some ?s"
    using tl tq by (simp add: skynet_globalmq_push_def upd_mq_def)
  moreover have "gq_rep ?s (as @ [a])"
    using gpath_link [OF path d tq _ q n] a rep snoc by (auto simp: gq_rep_def)
  moreover have "mq_core ?s = mq_core s"
    using mq_core_upd_next [OF tq] mq_core_g(2) by metis
  ultimately show ?thesis by blast
qed

lemma gq_rep_pop_Nil: "gq_rep s [] \<Longrightarrow> skynet_globalmq_pop s = Some (None, s)"
  by (simp add: gq_rep_def skynet_globalmq_pop_def)

lemma gq_rep_pop:
  assumes rep: "gq_rep s (a # as)" and q: "mq_core s a = Some x"
  shows "\<exists>s'. skynet_globalmq_pop s = Some (Some a, s')
    \<and> gq_rep s' (if q_concurrent x then as @ [a] else as) \<and> mq_core s' = mq_core s"
proof -
  from q obtain q where q: "mqs s a = Some q" "x = q\<lparr>q_next := None\<rparr>"
    by (auto dest: mq_core_SomeD)
  let ?s1 = "s\<lparr>mqs := (mqs s)(a := Some (q\<lparr>q_next := None\<rparr>)), g_head := q_next q,
    g_tail := (if as = [] then None else g_tail s)\<rparr>"
  from rep q have path: "gpath (mqs s) (q_next q) as" "g_head s = Some a" "a \<notin> set as"
    by (auto simp: gq_rep_def)
  then have Nil: "q_next q = None \<longleftrightarrow> as = []" by (cases as) auto
  have rep1: "gq_rep ?s1 as"
    using rep path Nil by (auto simp: gq_rep_def)
  have core1: "mq_core ?s1 = mq_core s"
    using mq_core_upd_next [OF q(1)] mq_core_g by metis
  have pop: "skynet_globalmq_pop s =
      do { s \<leftarrow> (if q_concurrent q then skynet_globalmq_push a ?s1 else Some ?s1);
           Some (Some a, s) }"
    using path q Nil rep
    by (cases s) (auto simp: skynet_globalmq_pop_def upd_mq_def gq_rep_def)
  show ?thesis
  proof (cases "q_concurrent q")
    case True
    from gq_rep_push [OF rep1 path(3)] obtain s' where
      "skynet_globalmq_push a ?s1 = Some s'" "gq_rep s' (as @ [a])" "mq_core s' = mq_core ?s1"
      by auto
    with True pop core1 q show ?thesis by auto
  next
    case False
    with pop rep1 core1 q show ?thesis by auto
  qed
qed

lemma gq_rep_distinct: "gq_rep s as \<Longrightarrow> distinct as"
  by (simp add: gq_rep_def)

lemma gq_rep_dom: "gq_rep s as \<Longrightarrow> a \<in> set as \<Longrightarrow> mq_core s a \<noteq> None"
  by (auto simp: gq_rep_def mq_core_eq_None dest: gpath_dom)

interpretation gq: work_list skynet_globalmq_push skynet_globalmq_pop mq_core q_concurrent gq_rep
proof
  fix s as a
  assume "gq_rep s as" "a \<notin> set as" "mq_core s a \<noteq> None"
  then show "\<exists>s'. skynet_globalmq_push a s = Some s' \<and> gq_rep s' (as @ [a]) \<and> mq_core s' = mq_core s"
    by (auto simp: mq_core_eq_None intro: gq_rep_push)
qed (assumption | rule gq_rep_distinct gq_rep_dom gq_rep_pop_Nil gq_rep_pop)+

text \<open>Changing a queue without touching its link keeps the list.\<close>

lemma gq_rep_upd:
  assumes "gq_rep s as" "mqs s a = Some q" "q_next q' = q_next q"
  shows "gq_rep (s\<lparr>mqs := (mqs s)(a := Some q')\<rparr>) as"
  using assms by (auto simp: gq_rep_def gpath_upd_same_next)

lemma gq_rep_init: "gq_rep skynet_mq_init []"
  by (simp add: gq_rep_def skynet_mq_init_def)

lemma gq_rep_new:
  assumes "gq_rep s as" "mqs s a = None" "q_next q = None"
  shows "gq_rep (s\<lparr>mqs := (mqs s)(a := Some q)\<rparr>) as"
proof -
  have "a \<notin> set as" using assms gpath_dom by (fastforce simp: gq_rep_def)
  with assms show ?thesis by (auto simp: gq_rep_def)
qed

text \<open>A push on a queue, as a change of the queues without their links.\<close>

lemma mq_push_rep:
  assumes "gq_rep s as" "mqs s a = Some q" "q_in_global q \<or> a \<notin> set as"
  shows "\<exists>s'. skynet_mq_push a m s = Some s'
    \<and> gq_rep s' (if q_in_global q then as else as @ [a])
    \<and> mq_core s' = (mq_core s)(a := Some ((mq_store m q)\<lparr>q_in_global := True, q_next := None\<rparr>))"
proof (cases "q_in_global q")
  case True
  with assms gq_rep_upd [OF assms(1,2), of "mq_store m q"] show ?thesis
    by (auto simp: skynet_mq_push_def Let_def frame_simps mq_core_def fun_eq_iff)
next
  case False
  let ?q = "(mq_store m q)\<lparr>q_in_global := True\<rparr>"
  let ?s = "s\<lparr>mqs := (mqs s)(a := Some ?q)\<rparr>"
  have "gq_rep ?s as" by (rule gq_rep_upd [OF assms(1,2)]) (simp add: frame_simps)
  from gq_rep_push [OF this, of a ?q] False assms(3) obtain s' where
    s': "skynet_globalmq_push a ?s = Some s'" "gq_rep s' (as @ [a])" "mq_core s' = mq_core ?s" by auto
  moreover have "mq_core ?s = (mq_core s)(a := Some ((mq_store m q)\<lparr>q_in_global := True, q_next := None\<rparr>))"
    by (simp add: mq_core_def fun_eq_iff)
  ultimately show ?thesis using False assms(2) by (auto simp: skynet_mq_push_def Let_def frame_simps)
qed

lemma mq_core_contents:
  assumes "mq_core s a = Some x"
  obtains q where "mqs s a = Some q" "mq_contents q = mq_contents x" "q_in_global q = q_in_global x"
    "q_concurrent q = q_concurrent x" "mq_ok q = mq_ok x"
  using assms by (auto simp: mq_core_def)

lemma mq_release_result:
  assumes "mqs s a = Some q" "mq_ok q"
  shows "\<exists>ms s'. skynet_mq_release a s = Some (ms, s')
    \<and> (if q_concurrent q \<and> \<not> q_release q
       then ms = [] \<and> mqs s' a = Some (q\<lparr>q_release := True, q_concurrent := False\<rparr>)
       else ms = mq_contents q \<and> mqs s' a = None)
    \<and> (\<forall>b. b \<noteq> a \<longrightarrow> mqs s' b = mqs s b)"
  using mq_drain_contents [OF assms(2)] assms(1) by (auto simp: skynet_mq_release_def)

section \<open>Properties\<close>

text \<open>Pushing a message on a queue that is not in the global queue links it once at
  the end of the global queue; a push on a queue that is already there leaves the global
  queue as it is. Either way the message is the last of its queue and no other queue
  changes.\<close>

theorem mq_push_wakes:
  assumes "gq_rep s as" "mqs s a = Some q" "mq_ok q" "q_in_global q \<or> a \<notin> set as"
  shows "\<exists>s' q'. skynet_mq_push a m s = Some s' \<and> mqs s' a = Some q'
    \<and> gq_rep s' (if q_in_global q then as else as @ [a])
    \<and> q_in_global q' \<and> mq_contents q' = mq_contents q @ [m]
    \<and> (\<forall>b. b \<noteq> a \<longrightarrow> mq_core s' b = mq_core s b)"
proof -
  from mq_push_rep [OF assms(1,2,4), of m] obtain s' where s': "skynet_mq_push a m s = Some s'"
    "gq_rep s' (if q_in_global q then as else as @ [a])"
    "mq_core s' = (mq_core s)(a := Some ((mq_store m q)\<lparr>q_in_global := True, q_next := None\<rparr>))" by blast
  then have "mq_core s' a = Some ((mq_store m q)\<lparr>q_in_global := True, q_next := None\<rparr>)" by simp
  then obtain q' where "mqs s' a = Some q'" "q_in_global q'"
    "mq_contents q' = mq_contents ((mq_store m q)\<lparr>q_in_global := True, q_next := None\<rparr>)"
    by (rule mq_core_contents) auto
  then show ?thesis using s' by (auto simp: mq_store_contents [OF assms(3)])
qed

lemma mq_push_wakes_witness:
  "\<exists>s'. skynet_mq_push 3 blank_message
      (skynet_mq_init\<lparr>mqs := [3 \<mapsto> (skynet_mq_create 1 False)\<lparr>q_in_global := False\<rparr>]\<rparr>) = Some s'
    \<and> gq_rep s' [3]"
proof -
  let ?q = "(skynet_mq_create 1 False)\<lparr>q_in_global := False\<rparr>"
  have "gq_rep (skynet_mq_init\<lparr>mqs := [3 \<mapsto> ?q]\<rparr>) []"
    by (simp add: gq_rep_def skynet_mq_init_def skynet_mq_create_def)
  moreover have "mq_ok ?q" using mq_create_ok [of 1 False] by (simp add: mq_ok_def)
  ultimately show ?thesis
    using mq_push_wakes [of "skynet_mq_init\<lparr>mqs := [3 \<mapsto> ?q]\<rparr>" "[]" 3 ?q blank_message] by auto
qed

text \<open>C19: releasing a queue frees the data of every message that is left in it, in order
  and once, and then the queue; a concurrent queue is first only marked, so that it leaves
  the global queue with its next pop.\<close>

theorem mq_release_drains:
  assumes "mqs s a = Some q" "mq_ok q"
  shows "\<exists>ms s'. skynet_mq_release a s = Some (ms, s')
    \<and> (if q_concurrent q \<and> \<not> q_release q
       then ms = [] \<and> mqs s' a = Some (q\<lparr>q_release := True, q_concurrent := False\<rparr>)
       else ms = mq_contents q \<and> mqs s' a = None)
    \<and> (\<forall>b. b \<noteq> a \<longrightarrow> mqs s' b = mqs s b)"
  by (rule mq_release_result [OF assms])

lemma mq_release_drains_witness:
  "\<exists>s'. skynet_mq_release 3
      (skynet_mq_init\<lparr>mqs := [3 \<mapsto> mq_store blank_message (skynet_mq_create 1 False)]\<rparr>)
        = Some ([blank_message], s')"
  using mq_release_drains [of "skynet_mq_init\<lparr>mqs := [3 \<mapsto> mq_store blank_message (skynet_mq_create 1 False)]\<rparr>"
      3 "mq_store blank_message (skynet_mq_create 1 False)"]
  by (auto simp: frame_simps mq_store_contents)

end
