(* ===== verification/Harbor.thy ===== *)
theory Harbor
  imports Prelude
begin

text \<open>
  Harbors (\<open>skynet_harbor.c\<close>): a handle is 16 bits, the harbor (node) in bits 8 to 15 and
  the slot in bits 0 to 7. C's \<open>int\<close> arguments are \<open>int\<close>s here and enter the word as
  two's complement.
\<close>

section \<open>Handles\<close>

definition skynet_harbor_id :: "u32 \<Rightarrow> int" where
  "skynet_harbor_id handle = uint (drop_bit 8 (handle AND 0xff00))"

definition skynet_harbor_index :: "u32 \<Rightarrow> int" where
  "skynet_harbor_index handle = uint (handle AND 0x00ff)"

definition skynet_harbor_handle :: "int \<Rightarrow> int \<Rightarrow> u32" where
  "skynet_harbor_handle harbor index =
     (push_bit 8 (word_of_int harbor) AND 0xff00) OR (word_of_int index AND 0x00ff)"

text \<open>\<open>HARBOR_ID\<close> is \<open>~0\<close> until \<open>skynet_harbor_init\<close>; the assertion is the \<open>None\<close>.\<close>

definition skynet_harbor_isremote :: "int \<Rightarrow> u32 \<Rightarrow> bool option" where
  "skynet_harbor_isremote HARBOR_ID handle =
     (if HARBOR_ID \<noteq> -1 then
        let h = skynet_harbor_id handle in Some (h \<noteq> HARBOR_ID \<and> h \<noteq> 0)
      else None)"

lemma and_ff: "(x :: u32) AND 0xff = take_bit 8 x"
  by (simp add: take_bit_eq_mask mask_eq_exp_minus_1)

lemma uint_and_ff: "uint ((x :: u32) AND 0xff) = uint x mod 256"
  by (simp only: and_ff unsigned_take_bit_eq) (simp add: take_bit_eq_mod)

lemma harbor_index_mod: "skynet_harbor_index h = uint h mod 256"
  by (simp add: skynet_harbor_index_def uint_and_ff)

lemma harbor_index_range [simp]: "0 \<le> skynet_harbor_index h" "skynet_harbor_index h < 256"
  by (simp_all add: harbor_index_mod)

lemma harbor_handle_low: "skynet_harbor_handle h i AND 0xff = word_of_int i AND 0xff"
  by (simp add: skynet_harbor_handle_def bit.conj_disj_distrib2 and.assoc)

lemma uint_word_of_int_mod: "uint (word_of_int i :: u32) mod 256 = i mod 256"
  by (simp add: uint_word_of_int mod_mod_cancel)

lemma harbor_handle_index: "skynet_harbor_index (skynet_harbor_handle h i) = i mod 256"
  unfolding skynet_harbor_index_def harbor_handle_low uint_and_ff
  by (rule uint_word_of_int_mod)

lemma harbor_handle_mod: "uint (skynet_harbor_handle h i) mod 256 = i mod 256"
  using harbor_handle_index [of h i] by (simp add: harbor_index_mod)

lemma harbor_handle_high: "drop_bit 8 (skynet_harbor_handle h i AND 0xff00) = word_of_int h AND 0xff"
proof -
  have "skynet_harbor_handle h i AND 0xff00 = push_bit 8 (word_of_int h) AND 0xff00"
    by (simp add: skynet_harbor_handle_def bit.conj_disj_distrib2 and.assoc)
  moreover have "take_bit 8 (drop_bit 8 (push_bit 8 w)) = take_bit 8 w" for w :: u32
    by (rule bit_word_eqI) (auto simp: bit_simps)
  ultimately show ?thesis by (simp add: and_ff)
qed

lemma harbor_handle_id: "skynet_harbor_id (skynet_harbor_handle h i) = h mod 256"
  unfolding skynet_harbor_id_def harbor_handle_high uint_and_ff
  by (rule uint_word_of_int_mod)

lemma harbor_handle_inj:
  "0 \<le> i \<Longrightarrow> i < 256 \<Longrightarrow> 0 \<le> j \<Longrightarrow> j < 256 \<Longrightarrow>
   skynet_harbor_handle h i = skynet_harbor_handle h' j \<Longrightarrow> i = j"
  using harbor_handle_index [of h i] harbor_handle_index [of h' j] by simp

section \<open>Properties\<close>

text \<open>A handle carries the low eight bits of its harbor and of its slot index, and
  both are read back; a handle of the local harbor is never remote.\<close>

theorem harbor_handle_roundtrip:
  "skynet_harbor_id (skynet_harbor_handle harbor index) = harbor mod 256
   \<and> skynet_harbor_index (skynet_harbor_handle harbor index) = index mod 256
   \<and> skynet_harbor_isremote (harbor mod 256) (skynet_harbor_handle harbor index) = Some False"
  using pos_mod_sign [of 256 harbor]
  by (auto simp: harbor_handle_id harbor_handle_index skynet_harbor_isremote_def)

end
