(* ===== verification/Service.thy ===== *)
theory Service
  imports Harbor
begin

text \<open>
  The service storage (\<open>skynet_service.c\<close>): a table of slots, indexed by the low bits of
  a service's handle, and an array of names sorted by \<open>strcmp\<close>. The storage is one
  record, as in the code; each function runs under its lock. A failed \<open>assert\<close>, or the
  handle of an empty slot being read, is \<open>None\<close>.
\<close>

section \<open>The storage\<close>

definition DEFAULT_SLOT_SIZE :: nat where "DEFAULT_SLOT_SIZE = 4"
definition INDEX_MASK :: nat where "INDEX_MASK = 0xffffff"

text \<open>
  \<open>struct skynet_service\<close>. The module's three entry points are determined by the library
  it was loaded from; \<open>sv_queue\<close> is the address of its message queue.
\<close>

record skynet_service =
  sv_closing :: bool
  sv_name :: cstring
  sv_module :: cstring
  sv_handle :: u32
  sv_queue :: "addr option"

record service_name =
  sn_name :: cstring
  sn_handle :: u32

record service_storage =
  slot_size :: nat
  slot_index :: nat
  slot :: "skynet_service option list"
  name_cap :: nat
  name_count :: nat
  name_arr :: "service_name list"

definition unset_name :: service_name where
  "unset_name = \<lparr>sn_name = cs '''', sn_handle = 0\<rparr>"

definition skynet_service_init :: service_storage where
  "skynet_service_init =
     \<lparr>slot_size = DEFAULT_SLOT_SIZE, slot_index = 0, slot = replicate DEFAULT_SLOT_SIZE None,
      name_cap = DEFAULT_SLOT_SIZE div 2, name_count = 0,
      name_arr = replicate (DEFAULT_SLOT_SIZE div 2) unset_name\<rparr>"

section \<open>Names\<close>

text \<open>
  The binary search shared by \<open>_insert_name\<close>, \<open>_delete_name\<close> and \<open>_find_name\<close>:
  \<open>Inr mid\<close> where the name is found, \<open>Inl begin\<close> where the loop ends without it.
\<close>

function name_search :: "service_name list \<Rightarrow> cstring \<Rightarrow> int \<Rightarrow> int \<Rightarrow> int + int" where
  "name_search arr name begin' end' =
     (if begin' \<le> end' then
        let mid = (begin' + end') div 2;
            c = strcmp (sn_name (arr ! nat mid)) name
        in if c = 0 then Inr mid
           else if c < 0 then name_search arr name (mid + 1) end'
           else name_search arr name begin' (mid - 1)
      else Inl begin')"
  by pat_completeness auto
termination
  by (relation "measure (\<lambda>(arr, name, b, e). nat (e + 1 - b))") auto

declare name_search.simps [simp del]

fun shift_right :: "nat \<Rightarrow> nat \<Rightarrow> 'a list \<Rightarrow> 'a list" where
  "shift_right i before xs =
     (if i > before then shift_right (i - 1) before (xs[i := xs ! (i - 1)]) else xs)"

function shift_left :: "nat \<Rightarrow> nat \<Rightarrow> 'a list \<Rightarrow> 'a list" where
  "shift_left i n xs = (if i < n then shift_left (Suc i) n (xs[i := xs ! Suc i]) else xs)"
  by pat_completeness auto
termination by (relation "measure (\<lambda>(i, n, xs). n - i)") auto

declare shift_right.simps [simp del] shift_left.simps [simp del]

definition insert_name_before ::
  "service_storage \<Rightarrow> cstring \<Rightarrow> u32 \<Rightarrow> nat \<Rightarrow> service_storage option" where
  "insert_name_before s name handle before = do {
     s \<leftarrow> (if name_count s \<ge> name_cap s then
             let cap = name_cap s * 2 in
             if cap \<le> slot_size s then
               Some (s\<lparr>name_cap := cap,
                 name_arr := take before (name_arr s) @ [unset_name]
                   @ take (name_count s - before) (drop before (name_arr s))
                   @ replicate (cap - (name_count s + 1)) unset_name\<rparr>)
             else None
           else Some (s\<lparr>name_arr := shift_right (name_count s) before (name_arr s)\<rparr>));
     Some (s\<lparr>name_arr := (name_arr s)[before := \<lparr>sn_name = name, sn_handle = handle\<rparr>],
             name_count := name_count s + 1\<rparr>) }"

definition insert_name :: "service_storage \<Rightarrow> cstring \<Rightarrow> u32 \<Rightarrow> service_storage option" where
  "insert_name s name handle =
     (case name_search (name_arr s) name 0 (int (name_count s) - 1) of
        Inr mid \<Rightarrow> Some s
      | Inl b \<Rightarrow> insert_name_before s name handle (nat b))"

definition delete_name :: "service_storage \<Rightarrow> cstring \<Rightarrow> service_storage" where
  "delete_name s name =
     (case name_search (name_arr s) name 0 (int (name_count s) - 1) of
        Inr mid \<Rightarrow> s\<lparr>name_arr := shift_left (nat mid) (name_count s - 1) (name_arr s),
                     name_count := name_count s - 1\<rparr>
      | Inl b \<Rightarrow> s)"

definition find_name :: "service_storage \<Rightarrow> cstring \<Rightarrow> u32" where
  "find_name s name =
     (case name_search (name_arr s) name 0 (int (name_count s) - 1) of
        Inr mid \<Rightarrow> sn_handle (name_arr s ! nat mid)
      | Inl b \<Rightarrow> 0)"

section \<open>Slots\<close>

text \<open>The probe for a free slot: \<open>Some (hash, index)\<close>, or \<open>None\<close> after a full round.\<close>

fun probe_slot :: "nat \<Rightarrow> skynet_service option list \<Rightarrow> nat \<Rightarrow> nat \<Rightarrow> (nat \<times> nat) option" where
  "probe_slot 0 sl sz index = None"
| "probe_slot (Suc n) sl sz index =
     (let index = (if index > INDEX_MASK then 1 else index);
          hash = index AND (sz - 1)
      in if sl ! hash = None then Some (hash, index)
         else probe_slot n sl sz (index + 1))"

text \<open>Moving the services to a table of twice the size, by their handles.\<close>

fun rehash :: "skynet_service option list \<Rightarrow> nat \<Rightarrow> skynet_service option list
    \<Rightarrow> skynet_service option list option" where
  "rehash [] sz' new_slot = Some new_slot"
| "rehash (None # sl) sz' new_slot = None"
| "rehash (Some ctx # sl) sz' new_slot =
     (let hash = unat (sv_handle ctx) AND (sz' - 1)
      in if new_slot ! hash = None then rehash sl sz' (new_slot[hash := Some ctx]) else None)"

text \<open>\<open>_create\<close>: the loop that probes and doubles the table until a slot is free.\<close>

partial_function (option) service_create_slot ::
  "int \<Rightarrow> cstring \<Rightarrow> cstring \<Rightarrow> service_storage \<Rightarrow> (nat \<times> service_storage) option" where
  "service_create_slot harbor name module m =
     (case probe_slot (slot_size m) (slot m) (slot_size m) (slot_index m) of
        Some (hash, index) \<Rightarrow>
          let result = \<lparr>sv_closing = False, sv_name = name, sv_module = module,
                        sv_handle = skynet_harbor_handle harbor (int hash), sv_queue = None\<rparr>
          in Some (hash, m\<lparr>slot := (slot m)[hash := Some result], slot_index := index + 1\<rparr>)
      | None \<Rightarrow>
          if slot_size m * 2 - 1 \<le> INDEX_MASK then do {
            new_slot \<leftarrow> rehash (slot m) (slot_size m * 2) (replicate (slot_size m * 2) None);
            service_create_slot harbor name module
              (m\<lparr>slot := new_slot, slot_size := slot_size m * 2\<rparr>) }
          else None)"

definition skynet_service_find :: "service_storage \<Rightarrow> u32 \<Rightarrow> nat option" where
  "skynet_service_find m handle =
     (let hash = skynet_harbor_index handle in
      if hash \<ge> 0 \<and> hash < int (slot_size m) then
        (case slot m ! nat hash of
           Some ctx \<Rightarrow> if sv_handle ctx = handle then Some (nat hash) else None
         | None \<Rightarrow> None)
      else None)"

definition skynet_service_findname :: "service_storage \<Rightarrow> cstring \<Rightarrow> nat option" where
  "skynet_service_findname m name = skynet_service_find m (find_name m name)"

text \<open>The part of \<open>skynet_service_release\<close> under the storage lock.\<close>

definition service_unlink :: "service_storage \<Rightarrow> skynet_service \<Rightarrow> service_storage option" where
  "service_unlink m ctx =
     (let hash = skynet_harbor_index (sv_handle ctx) in
      if hash \<ge> 0 \<and> hash < int (slot_size m)
      then let m = delete_name m (sv_name ctx) in Some (m\<lparr>slot := (slot m)[nat hash := None]\<rparr>)
      else None)"

section \<open>The names are a sorted directory\<close>

definition names_of :: "service_storage \<Rightarrow> service_name list" where
  "names_of s = take (name_count s) (name_arr s)"

definition dir_of :: "service_storage \<Rightarrow> cstring \<Rightarrow> u32 option" where
  "dir_of s = map_of (map (\<lambda>n. (sn_name n, sn_handle n)) (names_of s))"

definition names_ok :: "service_storage \<Rightarrow> bool" where
  "names_ok s \<longleftrightarrow> length (name_arr s) = name_cap s \<and> name_count s \<le> name_cap s
     \<and> 0 < name_cap s \<and> sorted_wrt (<) (map sn_name (names_of s))"

lemma names_okD [dest]:
  assumes "names_ok s"
  shows "length (name_arr s) = name_cap s" "name_count s \<le> name_cap s" "0 < name_cap s"
    "sorted_wrt (<) (map sn_name (names_of s))"
  using assms by (auto simp: names_ok_def)

lemma length_names_of [simp]: "names_ok s \<Longrightarrow> length (names_of s) = name_count s"
  by (auto simp: names_of_def names_ok_def)

lemma names_of_nth [simp]: "i < name_count s \<Longrightarrow> names_of s ! i = name_arr s ! i"
  by (simp add: names_of_def)

lemma names_ordered:
  assumes "names_ok s" "i < j" "j < name_count s"
  shows "sn_name (name_arr s ! i) < sn_name (name_arr s ! j)"
proof -
  from assms have "map sn_name (names_of s) ! i < map sn_name (names_of s) ! j"
    by (intro sorted_wrt_nth_less [of "(<)"]) auto
  with assms show ?thesis by simp
qed

text \<open>What the binary search finds, from the loop invariant of its bounds.\<close>

lemma name_search_spec:
  assumes "names_ok s" "0 \<le> b" "b \<le> e + 1" "e < int (name_count s)"
    and "\<And>i. i < b \<Longrightarrow> 0 \<le> i \<Longrightarrow> sn_name (name_arr s ! nat i) < name"
    and "\<And>i. e < i \<Longrightarrow> i < int (name_count s) \<Longrightarrow> name < sn_name (name_arr s ! nat i)"
  shows "case name_search (name_arr s) name b e of
      Inr mid \<Rightarrow> 0 \<le> mid \<and> mid < int (name_count s) \<and> sn_name (name_arr s ! nat mid) = name
    | Inl p \<Rightarrow> 0 \<le> p \<and> p \<le> int (name_count s)
        \<and> (\<forall>i. 0 \<le> i \<and> i < p \<longrightarrow> sn_name (name_arr s ! nat i) < name)
        \<and> (\<forall>i. p \<le> i \<and> i < int (name_count s) \<longrightarrow> name < sn_name (name_arr s ! nat i))"
  using assms(2-)
proof (induction "nat (e + 1 - b)" arbitrary: b e rule: less_induct)
  case less
  show ?case
  proof (cases "b \<le> e")
    case False
    with less.prems show ?thesis by (subst name_search.simps) auto
  next
    case True
    define mid where "mid = (b + e) div 2"
    have mid: "b \<le> mid" "mid \<le> e" using True by (auto simp: mid_def)
    let ?m = "sn_name (name_arr s ! nat mid)"
    have below: "sn_name (name_arr s ! nat i) < ?m" if "0 \<le> i" "i < mid" for i
      by (rule names_ordered [OF assms(1)]) (use that mid less.prems in auto)
    have above: "?m < sn_name (name_arr s ! nat i)" if "mid < i" "i < int (name_count s)" for i
      by (rule names_ordered [OF assms(1)]) (use that mid less.prems in auto)
    consider (eq) "?m = name" | (lt) "?m < name" | (gt) "name < ?m" by fastforce
    then show ?thesis
    proof cases
      case eq
      with True mid less.prems show ?thesis
        by (subst name_search.simps) (simp add: Let_def flip: mid_def)
    next
      case lt
      have "name_search (name_arr s) name b e = name_search (name_arr s) name (mid + 1) e"
        using True lt less_imp_neq [OF lt]
        by (subst name_search.simps) (simp add: Let_def flip: mid_def)
      moreover have "sn_name (name_arr s ! nat i) < name" if "i < mid + 1" "0 \<le> i" for i
        using that below [of i] lt by (cases "i = mid") auto
      ultimately show ?thesis
        using less.hyps [of e "mid + 1"] mid less.prems by simp
    next
      case gt
      have "name_search (name_arr s) name b e = name_search (name_arr s) name b (mid - 1)"
        using True gt less_not_sym [OF gt] less_imp_not_eq2 [OF gt] by (subst name_search.simps) (simp add: Let_def flip: mid_def)
      moreover have "name < sn_name (name_arr s ! nat i)" if "mid - 1 < i" "i < int (name_count s)" for i
        using that above [of i] gt by (cases "i = mid") auto
      ultimately show ?thesis
        using less.hyps [of "mid - 1" b] mid less.prems by simp
    qed
  qed
qed

text \<open>The search over all the names, as the three operations start it.\<close>

lemma name_search_cases:
  assumes ok: "names_ok s"
  obtains (found) mid where
      "name_search (name_arr s) name 0 (int (name_count s) - 1) = Inr (int mid)"
      "mid < name_count s" "sn_name (name_arr s ! mid) = name"
    | (absent) p where
      "name_search (name_arr s) name 0 (int (name_count s) - 1) = Inl (int p)"
      "p \<le> name_count s"
      "\<And>i. i < p \<Longrightarrow> sn_name (name_arr s ! i) < name"
      "\<And>i. p \<le> i \<Longrightarrow> i < name_count s \<Longrightarrow> name < sn_name (name_arr s ! i)"
proof -
  have spec: "case name_search (name_arr s) name 0 (int (name_count s) - 1) of
      Inr mid \<Rightarrow> 0 \<le> mid \<and> mid < int (name_count s) \<and> sn_name (name_arr s ! nat mid) = name
    | Inl p \<Rightarrow> 0 \<le> p \<and> p \<le> int (name_count s)
        \<and> (\<forall>i. 0 \<le> i \<and> i < p \<longrightarrow> sn_name (name_arr s ! nat i) < name)
        \<and> (\<forall>i. p \<le> i \<and> i < int (name_count s) \<longrightarrow> name < sn_name (name_arr s ! nat i))"
    by (rule name_search_spec [OF ok]) auto
  show ?thesis
  proof (cases "name_search (name_arr s) name 0 (int (name_count s) - 1)")
    case (Inr mid)
    with spec show ?thesis by (intro found [of "nat mid"]) auto
  next
    case (Inl p)
    from Inl spec have p: "0 \<le> p" "p \<le> int (name_count s)"
      and l: "\<forall>i. 0 \<le> i \<and> i < p \<longrightarrow> sn_name (name_arr s ! nat i) < name"
      and r: "\<forall>i. p \<le> i \<and> i < int (name_count s) \<longrightarrow> name < sn_name (name_arr s ! nat i)"
      by auto
    show ?thesis
    proof (rule absent [of "nat p"])
      fix i assume "i < nat p"
      then show "sn_name (name_arr s ! i) < name" using l [rule_format, of "int i"] by simp
    next
      fix i assume "nat p \<le> i" "i < name_count s"
      then show "name < sn_name (name_arr s ! i)" using r [rule_format, of "int i"] p by simp
    qed (use Inl p in auto)
  qed
qed

lemma dir_of_Some:
  assumes "names_ok s"
  shows "dir_of s n = Some h \<longleftrightarrow> (\<exists>i < name_count s. sn_name (name_arr s ! i) = n \<and> sn_handle (name_arr s ! i) = h)"
proof -
  have "distinct (map sn_name (names_of s))"
    using names_okD(4) [OF assms] by (simp add: strict_sorted_iff)
  then have "dir_of s n = Some h \<longleftrightarrow> (n, h) \<in> set (map (\<lambda>n. (sn_name n, sn_handle n)) (names_of s))"
    unfolding dir_of_def by (intro map_of_eq_Some_iff) (simp add: comp_def)
  also have "\<dots> \<longleftrightarrow> (\<exists>i < name_count s. sn_name (name_arr s ! i) = n \<and> sn_handle (name_arr s ! i) = h)"
    unfolding in_set_conv_nth using assms by (simp cong: conj_cong)
  finally show ?thesis .
qed

lemma dir_of_None:
  assumes "names_ok s" "\<And>i. i < name_count s \<Longrightarrow> sn_name (name_arr s ! i) \<noteq> n"
  shows "dir_of s n = None"
  using assms dir_of_Some [OF assms(1), of n] by (cases "dir_of s n") blast+

lemma find_name_dir:
  "names_ok s \<Longrightarrow> find_name s n = (case dir_of s n of None \<Rightarrow> 0 | Some h \<Rightarrow> h)"
proof -
  assume ok: "names_ok s"
  show ?thesis
  proof (cases rule: name_search_cases [OF ok, of n])
    case (1 mid)
    then have "dir_of s n = Some (sn_handle (name_arr s ! mid))" using dir_of_Some [OF ok] by blast
    with 1 show ?thesis by (simp add: find_name_def)
  next
    case (2 p)
    then have "sn_name (name_arr s ! i) \<noteq> n" if "i < name_count s" for i
      using that 2(3,4) by (metis less_irrefl not_le_imp_less)
    with 2 show ?thesis by (simp add: find_name_def dir_of_None [OF ok])
  qed
qed

subsection \<open>The array loops insert into and delete from the list\<close>

lemma shift_right_nth:
  "i < length xs \<Longrightarrow> b \<le> i \<Longrightarrow> length (shift_right i b xs) = length xs \<and>
   (\<forall>j < length xs. shift_right i b xs ! j = (if b < j \<and> j \<le> i then xs ! (j - 1) else xs ! j))"
proof (induction i arbitrary: xs)
  case 0
  then show ?case by (subst (1 2) shift_right.simps) simp
next
  case (Suc i)
  show ?case
  proof (cases "Suc i > b")
    case True
    with Suc.IH [of "xs[Suc i := xs ! i]"] Suc.prems show ?thesis
      by (subst (1 2) shift_right.simps) (auto simp: nth_list_update le_Suc_eq)
  next
    case False
    with Suc.prems show ?thesis by (subst (1 2) shift_right.simps) auto
  qed
qed

lemma shift_left_nth:
  "n < length xs \<Longrightarrow> length (shift_left i n xs) = length xs \<and>
   (\<forall>j < length xs. shift_left i n xs ! j = (if i \<le> j \<and> j < n then xs ! Suc j else xs ! j))"
proof (induction i n xs rule: shift_left.induct)
  case (1 i n xs)
  show ?case
  proof (cases "i < n")
    case True
    with 1 show ?thesis
      by (subst (1 2) shift_left.simps)
        (auto simp: nth_list_update, metis le_antisym not_less_eq_eq)
  next
    case False
    then show ?thesis by (subst (1 2) shift_left.simps) auto
  qed
qed

lemma insert_name_before_names:
  assumes ok: "names_ok s" and p: "p \<le> name_count s"
    and room: "name_count s < name_cap s \<or> name_cap s * 2 \<le> slot_size s"
  shows "\<exists>s'. insert_name_before s name h p = Some s'
    \<and> names_of s' = take p (names_of s) @ \<lparr>sn_name = name, sn_handle = h\<rparr> # drop p (names_of s)
    \<and> length (name_arr s') = name_cap s' \<and> name_count s' = Suc (name_count s)
    \<and> name_count s' \<le> name_cap s' \<and> name_cap s' = (if name_count s < name_cap s then name_cap s else name_cap s * 2)
    \<and> slot s' = slot s \<and> slot_size s' = slot_size s \<and> slot_index s' = slot_index s"
proof (cases "name_count s < name_cap s")
  case True
  let ?x = "\<lparr>sn_name = name, sn_handle = h\<rparr>"
  let ?a = "(shift_right (name_count s) p (name_arr s))[p := ?x]"
  note sh = shift_right_nth [of "name_count s" "name_arr s" p]
  have len: "length (name_arr s) = name_cap s" using ok by auto
  have "take (Suc (name_count s)) ?a = take p (names_of s) @ ?x # drop p (names_of s)"
  proof (rule nth_equalityI)
    fix i assume "i < length (take (Suc (name_count s)) ?a)"
    then have i: "i \<le> name_count s" by simp
    with sh len True p show "take (Suc (name_count s)) ?a ! i = (take p (names_of s) @ ?x # drop p (names_of s)) ! i"
      by (auto simp: nth_append nth_list_update nth_Cons' names_of_def min_def)
  qed (use sh len True p ok in auto)
  with True len sh p show ?thesis
    by (simp add: insert_name_before_def names_of_def)
next
  case False
  with ok have "name_count s = name_cap s" "names_of s = name_arr s" "length (name_arr s) = name_count s"
    by (auto simp: names_of_def names_ok_def)
  with False ok room p show ?thesis
    by (auto simp: insert_name_before_def Let_def names_of_def list_update_append Suc_diff_le)
qed

lemma map_of_insert_middle:
  "k \<notin> fst ` set (xs @ ys) \<Longrightarrow> map_of (xs @ (k, v) # ys) = (map_of (xs @ ys))(k := Some v)"
  by (induction xs) (auto simp: fun_upd_twist)

lemma map_of_delete_middle:
  "k \<notin> fst ` set (xs @ ys) \<Longrightarrow> map_of (xs @ ys) = (map_of (xs @ (k, v) # ys))(k := None)"
proof -
  assume k: "k \<notin> fst ` set (xs @ ys)"
  then have "map_of (xs @ ys) k = None" by (simp add: map_of_eq_None_iff del: map_of_append)
  then show ?thesis by (simp only: map_of_insert_middle [OF k] fun_upd_upd fun_upd_idem)
qed

lemma insert_name_dir:
  assumes ok: "names_ok s" and room: "name_count s < name_cap s \<or> name_cap s * 2 \<le> slot_size s"
  shows "\<exists>s'. insert_name s n h = Some s' \<and> names_ok s'
    \<and> dir_of s' = (if dir_of s n = None then (dir_of s)(n := Some h) else dir_of s)
    \<and> slot s' = slot s \<and> slot_size s' = slot_size s \<and> slot_index s' = slot_index s"
proof (cases rule: name_search_cases [OF ok, of n])
  case (1 mid)
  then have "dir_of s n \<noteq> None" using dir_of_Some [OF ok] by blast
  with 1 ok show ?thesis by (auto simp: insert_name_def)
next
  case (2 p)
  let ?x = "\<lparr>sn_name = n, sn_handle = h\<rparr>" and ?xs = "names_of s"
  from insert_name_before_names [OF ok 2(2) room] obtain s' where
    s': "insert_name_before s n h p = Some s'" "names_of s' = take p ?xs @ ?x # drop p ?xs"
      "length (name_arr s') = name_cap s'" "name_count s' \<le> name_cap s'"
      "name_cap s' = (if name_count s < name_cap s then name_cap s else name_cap s * 2)"
      "slot s' = slot s" "slot_size s' = slot_size s" "slot_index s' = slot_index s" by metis
  have new: "x \<noteq> n" if "x \<in> sn_name ` set ?xs" for x
    using that 2(3,4) ok by (auto simp: in_set_conv_nth) (metis less_irrefl not_le_imp_less)
  have lo: "x < n" if "x \<in> sn_name ` set (take p ?xs)" for x
    using that 2(2,3) ok by (auto simp: in_set_conv_nth)
  have hi: "n < x" if "x \<in> sn_name ` set (drop p ?xs)" for x
    using that 2(2,4) ok by (auto simp: in_set_conv_nth)
  have sorted: "sorted_wrt (<) (map sn_name (take p ?xs @ drop p ?xs))"
    using ok by auto
  have "sorted_wrt (<) (map sn_name (names_of s'))"
    unfolding s'(2) using sorted lo hi
    by (auto simp: sorted_wrt_append simp del: append_take_drop_id)
  then have "names_ok s'" using s' ok by (auto simp: names_ok_def)
  moreover have "dir_of s n = None" using new dir_of_None [OF ok, of n] by (force simp: in_set_conv_nth ok)
  moreover have "dir_of s' = (dir_of s)(n := Some h)"
  proof -
    let ?f = "\<lambda>x. (sn_name x, sn_handle x)"
    have "map_of (map ?f (take p ?xs) @ (n, h) # map ?f (drop p ?xs))
        = (map_of (map ?f (take p ?xs) @ map ?f (drop p ?xs)))(n := Some h)"
      by (rule map_of_insert_middle) (use lo hi in fastforce)
    moreover have xs: "map ?f ?xs = map ?f (take p ?xs) @ map ?f (drop p ?xs)"
      by (simp flip: map_append)
    ultimately show ?thesis
      unfolding dir_of_def s'(2) xs by (simp only: map_append list.map service_name.simps)
  qed
  ultimately show ?thesis using 2(1) s' by (auto simp: insert_name_def)
qed

lemma delete_name_dir:
  assumes ok: "names_ok s"
  shows "names_ok (delete_name s n) \<and> dir_of (delete_name s n) = (dir_of s)(n := None)
    \<and> name_count (delete_name s n) = name_count s - (if dir_of s n = None then 0 else 1)"
proof (cases rule: name_search_cases [OF ok, of n])
  case (2 p)
  then have "dir_of s n = None"
    by (intro dir_of_None [OF ok]) (metis less_irrefl not_le_imp_less)
  with 2 ok show ?thesis by (auto simp: delete_name_def fun_upd_idem)
next
  case (1 mid)
  let ?xs = "names_of s" and ?s = "delete_name s n"
  have s: "?s = s\<lparr>name_arr := shift_left mid (name_count s - 1) (name_arr s), name_count := name_count s - 1\<rparr>"
    using 1 by (simp add: delete_name_def)
  have len: "length (name_arr s) = name_cap s" "name_count s \<le> name_cap s" using ok by auto
  note sh = shift_left_nth [of "name_count s - 1" "name_arr s" mid]
  have names: "names_of ?s = take mid ?xs @ drop (Suc mid) ?xs"
  proof (rule nth_equalityI)
    fix i assume "i < length (names_of ?s)"
    then have "i < name_count s - 1" by (simp add: s names_of_def)
    with 1 sh len show "names_of ?s ! i = (take mid ?xs @ drop (Suc mid) ?xs) ! i"
      by (auto simp: s names_of_def nth_append min_def)
  qed (use 1 sh len in \<open>auto simp: s names_of_def min_def\<close>)
  have split: "?xs = take mid ?xs @ name_arr s ! mid # drop (Suc mid) ?xs"
    using 1(2) ok by (subst id_take_nth_drop [of mid]) auto
  have sorted: "sorted_wrt (<) (map sn_name (take mid ?xs @ name_arr s ! mid # drop (Suc mid) ?xs))"
    using ok split by auto
  then have "names_ok ?s"
    using 1 sh len ok unfolding names_ok_def names by (auto simp: s sorted_wrt_append)
  moreover have "dir_of s n \<noteq> None" using 1 dir_of_Some [OF ok] by blast
  moreover have "dir_of ?s = (dir_of s)(n := None)"
  proof -
    let ?f = "\<lambda>x. (sn_name x, sn_handle x)"
    have "map_of (map ?f (take mid ?xs) @ map ?f (drop (Suc mid) ?xs))
      = (map_of (map ?f (take mid ?xs) @ (n, sn_handle (name_arr s ! mid)) # map ?f (drop (Suc mid) ?xs)))(n := None)"
      by (rule map_of_delete_middle) (use sorted 1(3) in \<open>fastforce simp: sorted_wrt_append\<close>)
    also have "map ?f (take mid ?xs) @ (n, sn_handle (name_arr s ! mid)) # map ?f (drop (Suc mid) ?xs) = map ?f ?xs"
      using 1(3) by (subst (3) split) simp
    finally show ?thesis unfolding dir_of_def names by (simp only: map_append)
  qed
  ultimately show ?thesis using s by auto
qed

section \<open>Slots and handles\<close>

text \<open>
  While the table has at most 256 slots, a service in slot \<open>i\<close> has a handle whose index
  is \<open>i\<close>. A harbor's services all carry that harbor's number.
\<close>

definition table_size :: "nat \<Rightarrow> bool" where
  "table_size n \<longleftrightarrow> n \<in> {4, 8, 16, 32, 64, 128, 256}"

definition slots_ok :: "int \<Rightarrow> service_storage \<Rightarrow> bool" where
  "slots_ok harbor m \<longleftrightarrow> table_size (slot_size m)
     \<and> length (slot m) = slot_size m
     \<and> (\<forall>i ctx. i < slot_size m \<longrightarrow> slot m ! i = Some ctx \<longrightarrow>
          sv_handle ctx = skynet_harbor_handle harbor (int i))"

lemma slots_okD [dest]:
  assumes "slots_ok harbor m"
  shows "table_size (slot_size m)" "length (slot m) = slot_size m"
    "\<And>i ctx. i < slot_size m \<Longrightarrow> slot m ! i = Some ctx \<Longrightarrow>
       sv_handle ctx = skynet_harbor_handle harbor (int i)"
  using assms by (auto simp: slots_ok_def)

lemma nat_and_mask: "(i::nat) AND (2 ^ k - 1) = i mod 2 ^ k"
  by (simp only: take_bit_eq_mod [symmetric] take_bit_eq_mask mask_eq_exp_minus_1)

lemma table_size_and:
  "table_size sz \<Longrightarrow> (i::nat) AND (sz - 1) = i mod sz"
  "table_size sz \<Longrightarrow> (i::nat) AND (sz - Suc 0) = i mod sz"
  using nat_and_mask [of i 2] nat_and_mask [of i 3] nat_and_mask [of i 4] nat_and_mask [of i 5]
    nat_and_mask [of i 6] nat_and_mask [of i 7] nat_and_mask [of i 8]
  by (auto simp: table_size_def)

lemma table_size_pos: "table_size sz \<Longrightarrow> 0 < sz" "table_size sz \<Longrightarrow> sz \<le> 256"
  by (auto simp: table_size_def)

lemma table_size_dvd: "table_size sz \<Longrightarrow> sz dvd 256"
  by (auto simp: table_size_def)

lemma table_size_double: "table_size sz \<Longrightarrow> sz \<noteq> 256 \<Longrightarrow> table_size (sz * 2)"
  by (auto simp: table_size_def)

lemma probe_slot_Some:
  "table_size sz \<Longrightarrow> probe_slot n sl sz index = Some (hash, index') \<Longrightarrow>
   sl ! hash = None \<and> hash < sz \<and> index' < index + n + 1"
proof (induction n arbitrary: index)
  case (Suc n)
  let ?i = "if index > INDEX_MASK then 1 else index"
  have m: "?i mod sz < sz" using table_size_pos [OF Suc.prems(1)] by simp
  have le: "?i \<le> index" by (simp add: INDEX_MASK_def)
  show ?case
  proof (cases "sl ! (?i mod sz) = None")
    case True
    with Suc.prems m le show ?thesis by (auto simp: Let_def table_size_and)
  next
    case False
    with Suc.prems have "probe_slot n sl sz (?i + 1) = Some (hash, index')"
      by (auto simp: Let_def table_size_and)
    from Suc.IH [OF Suc.prems(1) this] le show ?thesis by linarith
  qed
qed simp

text \<open>A probe that does not wrap finds a free slot if there is one.\<close>

lemma probe_slot_None:
  "table_size sz \<Longrightarrow> index + n \<le> INDEX_MASK + 1 \<Longrightarrow>
   probe_slot n sl sz index = None \<Longrightarrow> index \<le> j \<Longrightarrow> j < index + n \<Longrightarrow> sl ! (j mod sz) \<noteq> None"
proof (induction n arbitrary: index)
  case (Suc n)
  have 1: "\<not> index > INDEX_MASK" using Suc.prems(2) by simp
  from Suc.prems 1 have 2: "sl ! (index mod sz) \<noteq> None" "probe_slot n sl sz (index + 1) = None"
    by (auto simp: Let_def table_size_and split: if_splits simp del: not_None_eq)
  show ?case
  proof (cases "j = index")
    case False
    with Suc.prems 2 show ?thesis by (intro Suc.IH [of "index + 1"]) auto
  qed (use 2 in simp)
qed simp

lemma probe_full:
  assumes sz: "table_size sz" and b: "index + sz \<le> INDEX_MASK + 1"
    and none: "probe_slot sz sl sz index = None" and i: "i < sz"
  shows "sl ! i \<noteq> None"
proof -
  define j where "j = (if i \<ge> index mod sz then index - index mod sz + i else index - index mod sz + sz + i)"
  have pos: "0 < sz" using table_size_pos [OF sz] by simp
  have m: "index mod sz < sz" "index mod sz \<le> index" using pos by auto
  obtain q where q: "index = q * sz + index mod sz" by (metis mult_div_mod_eq mult.commute)
  then have "j = (if i \<ge> index mod sz then q * sz + i else (q + 1) * sz + i)"
    unfolding j_def by (simp, linarith)
  then have "j = i + (if i \<ge> index mod sz then q else q + 1) * sz" by simp
  then have "j mod sz = i" using i by (simp only: mod_mult_self1 mod_less)
  moreover have "index \<le> j" unfolding j_def using m i by (simp split: if_splits; linarith)
  moreover have "j < index + sz" unfolding j_def using m i by (auto split: if_splits)
  ultimately show ?thesis using probe_slot_None [OF sz b none, of j] by simp
qed

lemma rehash_append:
  assumes "\<And>i. i < length xs \<Longrightarrow>
    \<exists>ctx. xs ! i = Some ctx \<and> unat (sv_handle ctx) AND (sz' - 1) = length ys + i"
  shows "rehash xs sz' (ys @ replicate (length xs + n) None) = Some (ys @ xs @ replicate n None)"
  using assms
proof (induction xs arbitrary: ys)
  case (Cons x xs)
  from Cons.prems [of 0] obtain ctx where
    x: "x = Some ctx" "unat (sv_handle ctx) AND (sz' - 1) = length ys" by auto
  have "\<exists>ctx. xs ! i = Some ctx \<and> unat (sv_handle ctx) AND (sz' - 1) = length (ys @ [x]) + i"
    if "i < length xs" for i
    using Cons.prems [of "Suc i"] that by simp
  from Cons.IH [OF this] x show ?case
    by (simp add: Let_def nth_append list_update_append)
qed simp

lemma harbor_handle_and:
  assumes "i < sz" "table_size sz"
  shows "unat (skynet_harbor_handle harbor (int i)) AND (sz - 1) = i"
proof -
  have "i < 256" using assms table_size_pos [of sz] by simp
  then have "int (unat (skynet_harbor_handle harbor (int i)) mod 256) = int i"
    using harbor_handle_mod [of harbor "int i"] by (simp add: zmod_int)
  then have "unat (skynet_harbor_handle harbor (int i)) mod 256 = i" by (simp only: of_nat_eq_iff)
  then have "unat (skynet_harbor_handle harbor (int i)) mod sz = i mod sz"
    using mod_mod_cancel [OF table_size_dvd [OF assms(2)]] by metis
  then show ?thesis using assms by (simp add: table_size_and)
qed

text \<open>A full table of at most 128 slots doubles, and every service keeps its slot.\<close>

lemma rehash_full:
  assumes ok: "slots_ok harbor m" and full: "\<And>i. i < slot_size m \<Longrightarrow> slot m ! i \<noteq> None"
    and small: "slot_size m \<noteq> 256"
  shows "rehash (slot m) (slot_size m * 2) (replicate (slot_size m * 2) None)
    = Some (slot m @ replicate (slot_size m) None)"
proof -
  have sz: "table_size (slot_size m * 2)" 
    using ok small by (intro table_size_double) auto
  have "\<exists>ctx. slot m ! i = Some ctx
      \<and> unat (sv_handle ctx) AND (slot_size m * 2 - 1) = length ([] :: unit list) + i"
    if "i < length (slot m)" for i
  proof -
    from full [of i] that ok obtain ctx where "slot m ! i = Some ctx" by (auto simp: slots_okD(2))
    with that ok harbor_handle_and [of i "slot_size m * 2" harbor] sz show ?thesis
      by (auto simp: slots_okD(2))
  qed
  with rehash_append [of "slot m" "slot_size m * 2" "[]" "slot_size m"] ok show ?thesis
    by (simp add: mult_2_right slots_okD(2) [OF ok])
qed

text \<open>What \<open>skynet_service_find\<close> returns: the slot that holds the handle.\<close>

lemma service_find_iff:
  assumes ok: "slots_ok harbor m"
  shows "skynet_service_find m h = Some i \<longleftrightarrow>
    i < slot_size m \<and> (\<exists>ctx. slot m ! i = Some ctx \<and> sv_handle ctx = h)"
proof -
  have "int i = skynet_harbor_index h"
    if "i < slot_size m" "slot m ! i = Some ctx" "sv_handle ctx = h" for ctx
  proof -
    from that ok have "h = skynet_harbor_handle harbor (int i)" "i < 256"
      using table_size_pos [OF slots_okD(1) [OF ok]] by auto
    then show ?thesis using harbor_handle_index [of harbor "int i"] by simp
  qed
  then have 1: "nat (skynet_harbor_index h) = i"
    if "i < slot_size m" "slot m ! i = Some ctx" "sv_handle ctx = h" for ctx
    using that by (metis nat_int)
  have 2: "skynet_harbor_index h < int (slot_size m) \<longleftrightarrow> nat (skynet_harbor_index h) < slot_size m"
    by (simp add: nat_less_iff)
  show ?thesis
    unfolding skynet_service_find_def Let_def 2
    using 1 by (auto split: option.splits)
qed

text \<open>
  Creating a service: with a free slot, or fewer than 256 slots, and no wrap of the index
  yet, it takes a slot that was free, gives it a handle that finds it, and every service
  that was there is still found under its handle.
\<close>

lemma slots_ok_insert:
  assumes "slots_ok harbor m" "i < slot_size m"
    "sv_handle ctx = skynet_harbor_handle harbor (int i)"
  shows "slots_ok harbor (m\<lparr>slot := (slot m)[i := Some ctx], slot_index := n\<rparr>)"
  using assms by (auto simp: slots_ok_def nth_list_update)

lemma service_create_free:
  assumes ok: "slots_ok harbor m" and w: "slot_index m + slot_size m \<le> INDEX_MASK + 1"
    and free: "j < slot_size m" "slot m ! j = None"
  shows "\<exists>i m'. service_create_slot harbor name module m = Some (i, m')
    \<and> slots_ok harbor m' \<and> slot_size m' = slot_size m \<and> i < slot_size m \<and> slot m ! i = None
    \<and> slot m' = (slot m)[i := Some \<lparr>sv_closing = False, sv_name = name, sv_module = module,
         sv_handle = skynet_harbor_handle harbor (int i), sv_queue = None\<rparr>]
    \<and> names_of m' = names_of m \<and> name_count m' = name_count m \<and> name_cap m' = name_cap m
    \<and> name_arr m' = name_arr m"
proof -
  let ?p = "probe_slot (slot_size m) (slot m) (slot_size m) (slot_index m)"
  have sz: "table_size (slot_size m)" using ok by auto
  have "?p \<noteq> None"
  proof
    assume "?p = None"
    from probe_full [OF sz w this free(1)] free(2) show False by simp
  qed
  then obtain i k where p: "?p = Some (i, k)" by (cases ?p) auto
  from probe_slot_Some [OF sz p] have i: "slot m ! i = None" "i < slot_size m" by auto
  show ?thesis
    using p i ok by (subst service_create_slot.simps)
      (auto simp: Let_def names_of_def intro!: slots_ok_insert)
qed

lemma service_create_full:
  assumes ok: "slots_ok harbor m" and w: "slot_index m + slot_size m * 2 \<le> INDEX_MASK + 1"
    and full: "\<And>i. i < slot_size m \<Longrightarrow> slot m ! i \<noteq> None" and small: "slot_size m \<noteq> 256"
  defines "m2 \<equiv> m\<lparr>slot := slot m @ replicate (slot_size m) None, slot_size := slot_size m * 2\<rparr>"
  shows "service_create_slot harbor name module m = service_create_slot harbor name module m2"
    and "slots_ok harbor m2"
proof -
  have sz: "table_size (slot_size m)" using ok by auto
  have "probe_slot (slot_size m) (slot m) (slot_size m) (slot_index m) = None"
  proof (cases "probe_slot (slot_size m) (slot m) (slot_size m) (slot_index m)")
    case (Some r)
    then obtain i k where "probe_slot (slot_size m) (slot m) (slot_size m) (slot_index m) = Some (i, k)"
      by (cases r) auto
    from probe_slot_Some [OF sz this] full [of i] show ?thesis by simp
  qed simp
  moreover have le: "slot_size m * 2 - Suc 0 \<le> INDEX_MASK"
    using table_size_pos [OF sz] by (simp add: INDEX_MASK_def)
  ultimately show "service_create_slot harbor name module m = service_create_slot harbor name module m2"
    using rehash_full [OF ok full small] le
    by (subst service_create_slot.simps) (simp add: m2_def)
  show "slots_ok harbor m2"
    using ok small table_size_double [OF sz small]
    by (auto simp: slots_ok_def m2_def nth_append)
qed

section \<open>Properties\<close>

text \<open>C18: registering a name. The first handle registered under a name stays; every other
  name keeps its handle; the array stays sorted, and lookups by the binary search answer
  as the directory does, with 0 for a name that is not there.\<close>

theorem insert_then_find:
  assumes "names_ok s" "name_count s < name_cap s \<or> name_cap s * 2 \<le> slot_size s"
  shows "\<exists>s'. insert_name s n h = Some s' \<and> names_ok s'
    \<and> find_name s' n = (case dir_of s n of None \<Rightarrow> h | Some h' \<Rightarrow> h')
    \<and> (\<forall>k. k \<noteq> n \<longrightarrow> find_name s' k = find_name s k)"
proof -
  from insert_name_dir [OF assms] obtain s' where s': "insert_name s n h = Some s'" "names_ok s'"
    "dir_of s' = (if dir_of s n = None then (dir_of s)(n := Some h) else dir_of s)" by blast
  with assms(1) show ?thesis by (auto simp: find_name_dir split: option.splits)
qed

lemma init_names_ok [simp]: "names_ok skynet_service_init"
  by (simp add: names_ok_def skynet_service_init_def names_of_def DEFAULT_SLOT_SIZE_def)

lemma insert_then_find_witness:
  "\<exists>s'. insert_name skynet_service_init (cs ''gate'') 0x105 = Some s'
     \<and> find_name s' (cs ''gate'') = 0x105"
proof -
  have "dir_of skynet_service_init (cs ''gate'') = None"
    by (simp add: dir_of_def names_of_def skynet_service_init_def)
  moreover have "name_count skynet_service_init < name_cap skynet_service_init"
    by (simp add: skynet_service_init_def DEFAULT_SLOT_SIZE_def)
  ultimately show ?thesis
    using insert_then_find [of skynet_service_init "cs ''gate''" "0x105"] by auto
qed

text \<open>Creating a service in a table with a free slot. The new service takes a slot that
  was free and is found under the handle it got; every other service is still found where
  it was, and the names are untouched.\<close>

theorem create_then_find:
  assumes "slots_ok harbor m" "slot_index m + slot_size m \<le> INDEX_MASK + 1"
    "j < slot_size m" "slot m ! j = None"
  shows "\<exists>i m' ctx. service_create_slot harbor name module m = Some (i, m') \<and> slots_ok harbor m'
    \<and> slot m' ! i = Some ctx \<and> sv_name ctx = name \<and> \<not> sv_closing ctx
    \<and> skynet_service_find m' (sv_handle ctx) = Some i \<and> skynet_service_find m (sv_handle ctx) = None
    \<and> (\<forall>h. h \<noteq> sv_handle ctx \<longrightarrow> skynet_service_find m' h = skynet_service_find m h)
    \<and> find_name m' = find_name m"
proof -
  define ctx where "ctx i = \<lparr>sv_closing = False, sv_name = name, sv_module = module,
         sv_handle = skynet_harbor_handle harbor (int i), sv_queue = None\<rparr>" for i
  from service_create_free [OF assms, of name module] obtain i m' where
    c: "service_create_slot harbor name module m = Some (i, m')" "slots_ok harbor m'"
    "slot_size m' = slot_size m" "i < slot_size m" "slot m ! i = None"
    "slot m' = (slot m)[i := Some (ctx i)]" "name_count m' = name_count m" "name_arr m' = name_arr m"
    unfolding ctx_def by blast
  have len: "length (slot m) = slot_size m" using assms(1) by auto
  have h: "sv_handle (ctx i) = skynet_harbor_handle harbor (int i)" by (simp add: ctx_def)
  have i: "slot m' ! i = Some (ctx i)" using c len by simp
  have f: "skynet_service_find m' (sv_handle (ctx i)) = Some i"
    using c i by (simp add: service_find_iff [OF c(2)])
  have "skynet_service_find m (sv_handle (ctx i)) \<noteq> Some k" for k
  proof
    assume k: "skynet_service_find m (sv_handle (ctx i)) = Some k"
    then obtain x where x: "k < slot_size m" "slot m ! k = Some x" "sv_handle x = sv_handle (ctx i)"
      by (auto simp: service_find_iff [OF assms(1)])
    with c(5) have "k \<noteq> i" by auto
    with x c len have "slot m' ! k = Some x" by simp
    with x f service_find_iff [OF c(2), of "sv_handle (ctx i)" k] \<open>k \<noteq> i\<close> c(3) show False by simp
  qed
  then have n: "skynet_service_find m (sv_handle (ctx i)) = None" by (metis option.exhaust)
  have "skynet_service_find m' h = skynet_service_find m h" if "h \<noteq> sv_handle (ctx i)" for h
    by (rule option_eqI)
      (use c len that in \<open>auto simp: service_find_iff [OF c(2)] service_find_iff [OF assms(1)] nth_list_update\<close>)
  moreover have "find_name m' = find_name m" 
    unfolding find_name_def [abs_def] c(7,8) ..
  moreover have "sv_name (ctx i) = name" "\<not> sv_closing (ctx i)" by (simp_all add: ctx_def)
  ultimately show ?thesis using c i f n by blast
qed

lemma init_slots_ok [simp]: "slots_ok harbor skynet_service_init"
  by (simp add: slots_ok_def table_size_def skynet_service_init_def DEFAULT_SLOT_SIZE_def)

lemma create_then_find_witness:
  "\<exists>i m'. service_create_slot 1 (cs ''gate'') (cs ''gate'') skynet_service_init = Some (i, m')
     \<and> slots_ok 1 m'"
proof -
  have "slot_index skynet_service_init + slot_size skynet_service_init \<le> INDEX_MASK + 1"
    "0 < slot_size skynet_service_init" "slot skynet_service_init ! 0 = None"
    by (simp_all add: skynet_service_init_def INDEX_MASK_def DEFAULT_SLOT_SIZE_def)
  then show ?thesis
    using create_then_find [of 1 skynet_service_init 0 "cs ''gate''" "cs ''gate''"] by auto
qed

text \<open>A full table of fewer than 256 slots doubles in place: no service moves, so every
  handle that was found is found again after the growth, and the next probe finds room.\<close>

theorem create_full_grows:
  assumes "slots_ok harbor m" "slot_index m + slot_size m * 2 \<le> INDEX_MASK + 1"
    and "\<forall>i < slot_size m. slot m ! i \<noteq> None" "slot_size m \<noteq> 256"
  shows "\<exists>i m'. service_create_slot harbor name module m = Some (i, m') \<and> slots_ok harbor m'
    \<and> slot_size m' = 2 * slot_size m \<and> slot_size m \<le> i
    \<and> (\<forall>h k. skynet_service_find m h = Some k \<longrightarrow> skynet_service_find m' h = Some k)"
proof -
  define m2 where "m2 = m\<lparr>slot := slot m @ replicate (slot_size m) None, slot_size := slot_size m * 2\<rparr>"
  have grow: "service_create_slot harbor name module m = service_create_slot harbor name module m2"
    "slots_ok harbor m2"
    using service_create_full(1) [OF assms(1,2) _ assms(4), of name module]
      service_create_full(2) [OF assms(1,2) _ assms(4)] assms(3) by (auto simp: m2_def)
  have len: "length (slot m) = slot_size m" and pos: "0 < slot_size m"
    using assms(1) table_size_pos [of "slot_size m"] by auto
  have "slot_size m < slot_size m2" "slot m2 ! slot_size m = None"
    "slot_index m2 + slot_size m2 \<le> INDEX_MASK + 1"
    using assms(2) len pos by (simp_all add: m2_def nth_append)
  from service_create_free [OF grow(2) this(3,1,2), of name module] obtain i m' where
    c: "service_create_slot harbor name module m2 = Some (i, m')" "slots_ok harbor m'"
    "slot_size m' = slot_size m2" "i < slot_size m2" "slot m2 ! i = None"
    "\<exists>c. slot m' = (slot m2)[i := Some c]" by blast
  have i: "slot_size m \<le> i"
    using c(5) assms(3) len by (auto simp: m2_def nth_append split: if_splits)
  have "slot m' ! k = slot m ! k" if "k < slot_size m" for k
    using c(6) i that len by (auto simp: m2_def nth_append)
  then have "skynet_service_find m' h = Some k" if "skynet_service_find m h = Some k" for h k
    using that c(3) by (auto simp: service_find_iff [OF assms(1)] service_find_iff [OF c(2)] m2_def)
  with grow c i show ?thesis by (auto simp: m2_def)
qed

lemma create_full_grows_witness:
  "\<exists>i m'. service_create_slot 1 (cs ''a'') (cs ''a'') (skynet_service_init\<lparr>slot :=
      map (\<lambda>i. Some \<lparr>sv_closing = False, sv_name = cs ''s'', sv_module = cs ''s'',
         sv_handle = skynet_harbor_handle 1 i, sv_queue = None\<rparr>) [0, 1, 2, 3]\<rparr>) = Some (i, m')
    \<and> slot_size m' = 8 \<and> 4 \<le> i"
proof -
  let ?m = "skynet_service_init\<lparr>slot :=
      map (\<lambda>i. Some \<lparr>sv_closing = False, sv_name = cs ''s'', sv_module = cs ''s'',
         sv_handle = skynet_harbor_handle 1 i, sv_queue = None\<rparr>) [0, 1, 2, 3]\<rparr>"
  have sz: "slot_size skynet_service_init = 4" "slot_index skynet_service_init = 0"
    by (simp_all add: skynet_service_init_def DEFAULT_SLOT_SIZE_def)
  have lt: "i < 4 \<longleftrightarrow> i = 0 \<or> i = 1 \<or> i = 2 \<or> i = (3::nat)" for i by auto
  have "slots_ok 1 ?m" by (auto simp: slots_ok_def table_size_def sz lt numeral_3_eq_3)
  moreover have "\<forall>i < slot_size ?m. slot ?m ! i \<noteq> None"
    by (auto simp: sz lt numeral_3_eq_3)
  ultimately show ?thesis
    using create_full_grows [of 1 ?m "cs ''a''" "cs ''a''"] by (auto simp: sz INDEX_MASK_def)
qed

end
