(* ===== verification/Server.thy ===== *)
theory Server
  imports Global_Mq Service
begin

text \<open>
  The server (\<open>skynet_server.c\<close>, with the parts of \<open>skynet_service.c\<close>,
  \<open>skynet_harbor.c\<close> and \<open>skynet_logger.c\<close> that send messages): the program's global
  state as one record, sending by pointer, name and handle, creating, closing and releasing
  services, and the dispatch of one message. A \<open>struct skynet_service *\<close> is the index of
  the slot that holds the service. The entry points of the loaded modules and the text
  that \<open>vsnprintf\<close> makes of a log line are parameters (\<open>modules\<close>); the modules may
  keep state of their own in an extension of the record.
\<close>

section \<open>The global state\<close>

record world =
  w_storage :: service_storage
  w_heap :: mq_heap
  w_brk :: addr
  w_HARBOR_ID :: int
  w_HARBOR :: "nat option"
  w_LOGGER :: "nat option"

datatype log_line =
  Log_overload nat
| Log_created cstring u32 cstring
| Log_create_failed cstring cstring
| Log_released cstring u32

record 'w modules =
  mod_create :: "nat \<Rightarrow> int \<Rightarrow> cstring \<Rightarrow> 'w \<Rightarrow> (int \<times> 'w) option"
  mod_release :: "skynet_service \<Rightarrow> 'w \<Rightarrow> 'w option"
  mod_cb :: "nat \<Rightarrow> skynet_message \<Rightarrow> 'w \<Rightarrow> 'w option"
  mod_text :: "u32 \<Rightarrow> int \<Rightarrow> log_line \<Rightarrow> byte list"

definition ctx_at :: "nat \<Rightarrow> 'a world_scheme \<Rightarrow> skynet_service option" where
  "ctx_at i w = (if i < length (slot (w_storage w)) then slot (w_storage w) ! i else None)"

definition set_ctx :: "nat \<Rightarrow> skynet_service \<Rightarrow> 'a world_scheme \<Rightarrow> 'a world_scheme" where
  "set_ctx i ctx w =
     w\<lparr>w_storage := (w_storage w)\<lparr>slot := (slot (w_storage w))[i := Some ctx]\<rparr>\<rparr>"

text \<open>The state before services are created, as \<open>main\<close> leaves it.\<close>

definition world_init :: "int \<Rightarrow> world" where
  "world_init harbor =
     \<lparr>w_storage = skynet_service_init, w_heap = skynet_mq_init, w_brk = 0,
      w_HARBOR_ID = harbor, w_HARBOR = None, w_LOGGER = None\<rparr>"

section \<open>Sending\<close>

definition skynet_service_sendmsg ::
  "nat \<Rightarrow> skynet_message \<Rightarrow> 'a world_scheme \<Rightarrow> (int \<times> 'a world_scheme) option" where
  "skynet_service_sendmsg context message w = do {
     ctx \<leftarrow> ctx_at context w;
     if \<not> sv_closing ctx then do {
       a \<leftarrow> sv_queue ctx;
       h \<leftarrow> skynet_mq_push a message (w_heap w);
       Some (0, w\<lparr>w_heap := h\<rparr>) }
     else Some (-1, w) }"

definition skynet_service_pushmsg ::
  "u32 \<Rightarrow> skynet_message \<Rightarrow> 'a world_scheme \<Rightarrow> (int \<times> 'a world_scheme) option" where
  "skynet_service_pushmsg handle message w =
     (case skynet_service_find (w_storage w) handle of
        None \<Rightarrow> Some (-1, w)
      | Some i \<Rightarrow> do {
          ctx \<leftarrow> ctx_at i w;
          if \<not> sv_closing ctx then do {
            a \<leftarrow> sv_queue ctx;
            h \<leftarrow> skynet_mq_push a message (w_heap w);
            Some (0, w\<lparr>w_heap := h\<rparr>) }
          else Some (-1, w) })"

fun copy_data :: "nat \<Rightarrow> payload \<Rightarrow> payload" where
  "copy_data sz (Bytes bs) = Bytes (take sz bs)"
| "copy_data sz d = d"

definition skynet_send ::
  "nat \<Rightarrow> u32 \<Rightarrow> u32 \<Rightarrow> int \<Rightarrow> payload option \<Rightarrow> nat \<Rightarrow> 'a world_scheme \<Rightarrow> 'a world_scheme option" where
  "skynet_send context source session type data sz w = do {
     let smsg = \<lparr>m_type = type, m_data = map_option (copy_data sz) data, m_size = sz,
                 m_source = source, m_session = session\<rparr>;
     (r, w) \<leftarrow> skynet_service_sendmsg context smsg w;
     Some w }"

text \<open>\<open>skynet_logger_print\<close>, with the text that \<open>snprintf\<close> and \<open>vsnprintf\<close> make.\<close>

definition skynet_logger_print ::
  "u32 \<Rightarrow> int \<Rightarrow> byte list \<Rightarrow> 'a world_scheme \<Rightarrow> 'a world_scheme option" where
  "skynet_logger_print source level txt w =
     (case w_LOGGER w of
        Some l \<Rightarrow> do {
          (r, w) \<leftarrow> skynet_service_sendmsg l
            \<lparr>m_type = level, m_data = Some (Bytes txt), m_size = length txt,
             m_source = source, m_session = 0\<rparr> w;
          Some w }
      | None \<Rightarrow> Some w)"

text \<open>\<open>strncpy (name, s, 32)\<close>: cut after 32 bytes, padded with NUL.\<close>

definition strncpy32 :: "cstring \<Rightarrow> byte list" where
  "strncpy32 s = take 32 (map (\<lambda>c. word_of_nat (of_char c)) (chars_of s) @ replicate 32 0)"

text \<open>\<open>sizeof (struct skynet_remote_message)\<close> on a 64-bit machine.\<close>

definition sizeof_remote_message :: nat where "sizeof_remote_message = 64"

definition remote_message ::
  "byte list \<Rightarrow> u32 \<Rightarrow> u32 \<Rightarrow> u32 \<Rightarrow> int \<Rightarrow> payload option \<Rightarrow> nat \<Rightarrow> skynet_remote_message" where
  "remote_message name handle source session type data sz =
     \<lparr>rm_name = name, rm_handle = handle, rm_source = source, rm_session = session,
      rm_type = type, rm_size = sz,
      rm_data = (case data of Some (Bytes bs) \<Rightarrow> Some (take sz bs) | _ \<Rightarrow> None)\<rparr>"

definition skynet_harbor_sendname ::
  "cstring \<Rightarrow> u32 \<Rightarrow> u32 \<Rightarrow> int \<Rightarrow> payload option \<Rightarrow> nat \<Rightarrow> 'a world_scheme \<Rightarrow> 'a world_scheme option" where
  "skynet_harbor_sendname name source session type data sz w =
     (case w_HARBOR w of
        Some h \<Rightarrow> skynet_send h source session SERVICE_REMOTE
          (Some (Remote (remote_message (strncpy32 name) 0 source session type data sz)))
          sizeof_remote_message w
      | None \<Rightarrow> Some w)"

text \<open>The name of a message sent by handle stays uninitialised; it is an argument here.\<close>

definition skynet_harbor_sendhandle ::
  "byte list \<Rightarrow> u32 \<Rightarrow> u32 \<Rightarrow> u32 \<Rightarrow> int \<Rightarrow> payload option \<Rightarrow> nat \<Rightarrow> 'a world_scheme \<Rightarrow> 'a world_scheme option" where
  "skynet_harbor_sendhandle junk target source session type data sz w =
     (case w_HARBOR w of
        Some h \<Rightarrow> do {
          remote \<leftarrow> skynet_harbor_isremote (w_HARBOR_ID w) target;
          if remote then skynet_send h source session SERVICE_REMOTE
            (Some (Remote (remote_message junk target source session type data sz)))
            sizeof_remote_message w
          else Some w }
      | None \<Rightarrow> Some w)"

definition skynet_sendname ::
  "cstring \<Rightarrow> u32 \<Rightarrow> u32 \<Rightarrow> int \<Rightarrow> payload option \<Rightarrow> nat \<Rightarrow> 'a world_scheme \<Rightarrow> 'a world_scheme option" where
  "skynet_sendname name source session type data sz w =
     (case skynet_service_findname (w_storage w) name of
        Some context \<Rightarrow> skynet_send context source session type data sz w
      | None \<Rightarrow> skynet_harbor_sendname name source session type data sz w)"

definition skynet_sendhandle ::
  "byte list \<Rightarrow> u32 \<Rightarrow> u32 \<Rightarrow> u32 \<Rightarrow> int \<Rightarrow> payload option \<Rightarrow> nat \<Rightarrow> 'a world_scheme \<Rightarrow> 'a world_scheme option" where
  "skynet_sendhandle junk target source session type data sz w = do {
     remote \<leftarrow> skynet_harbor_isremote (w_HARBOR_ID w) target;
     if remote then skynet_harbor_sendhandle junk target source session type data sz w
     else (case skynet_service_find (w_storage w) target of
        Some context \<Rightarrow> skynet_send context source session type data sz w
      | None \<Rightarrow> Some w) }"

section \<open>Dispatching a message\<close>

definition skynet_service_message_dispatch ::
  "'a world_scheme modules \<Rightarrow> nat \<Rightarrow> 'a world_scheme \<Rightarrow> (int \<times> 'a world_scheme) option" where
  "skynet_service_message_dispatch mods i w = do {
     ctx \<leftarrow> ctx_at i w;
     a \<leftarrow> sv_queue ctx;
     (r, h) \<leftarrow> mq_pop_at a (w_heap w);
     let w = w\<lparr>w_heap := h\<rparr>;
     case r of
       None \<Rightarrow> Some (1, w)
     | Some msg \<Rightarrow> do {
         q \<leftarrow> mqs (w_heap w) a;
         let (overload, q) = skynet_mq_overload q;
         let w = w\<lparr>w_heap := (w_heap w)\<lparr>mqs := (mqs (w_heap w))(a := Some q)\<rparr>\<rparr>;
         w \<leftarrow> (if overload \<noteq> 0
               then skynet_logger_print (sv_handle ctx) LOGGER_WARN
                 (mod_text mods (sv_handle ctx) LOGGER_WARN (Log_overload overload)) w
               else Some w);
         w \<leftarrow> mod_cb mods i msg w;
         Some (0, w) } }"

partial_function (option) dispatch_all ::
  "'a world_scheme modules \<Rightarrow> nat \<Rightarrow> 'a world_scheme \<Rightarrow> 'a world_scheme option" where
  "dispatch_all mods i w = do {
     (ret, w) \<leftarrow> skynet_service_message_dispatch mods i w;
     if ret = 0 then dispatch_all mods i w else Some w }"

section \<open>The life of a service\<close>

definition skynet_service_release ::
  "'a world_scheme modules \<Rightarrow> nat \<Rightarrow> 'a world_scheme \<Rightarrow> 'a world_scheme option" where
  "skynet_service_release mods i w = do {
     ctx \<leftarrow> ctx_at i w;
     w \<leftarrow> skynet_logger_print 0 LOGGER_NOTICE
       (mod_text mods 0 LOGGER_NOTICE (Log_released (sv_name ctx) (sv_handle ctx))) w;
     st \<leftarrow> service_unlink (w_storage w) ctx;
     w \<leftarrow> mod_release mods ctx (w\<lparr>w_storage := st\<rparr>);
     case sv_queue ctx of
       Some a \<Rightarrow> do { (ms, h) \<leftarrow> skynet_mq_release a (w_heap w); Some (w\<lparr>w_heap := h\<rparr>) }
     | None \<Rightarrow> Some w }"

definition skynet_service_create ::
  "'a world_scheme modules \<Rightarrow> cstring \<Rightarrow> int \<Rightarrow> cstring \<Rightarrow> cstring \<Rightarrow> bool
     \<Rightarrow> 'a world_scheme \<Rightarrow> (u32 \<times> 'a world_scheme) option" where
  "skynet_service_create mods name harbor module args concurrent w = do {
     (i, st) \<leftarrow> service_create_slot harbor name module (w_storage w);
     let w = w\<lparr>w_storage := st\<rparr>;
     ctx \<leftarrow> ctx_at i w;
     let a = w_brk w;
     let w = w\<lparr>w_brk := a + 1,
               w_heap := (w_heap w)\<lparr>mqs := (mqs (w_heap w))(a := Some (skynet_mq_create (sv_handle ctx) concurrent))\<rparr>\<rparr>;
     let w = set_ctx i (ctx\<lparr>sv_queue := Some a\<rparr>) w;
     (r, w) \<leftarrow> mod_create mods i harbor args w;
     if r = 0 then do {
       st \<leftarrow> insert_name (w_storage w) name (sv_handle ctx);
       h \<leftarrow> skynet_globalmq_push a (w_heap w);
       w \<leftarrow> skynet_logger_print 0 LOGGER_NOTICE
         (mod_text mods 0 LOGGER_NOTICE (Log_created name (sv_handle ctx) args))
         (w\<lparr>w_storage := st, w_heap := h\<rparr>);
       Some (sv_handle ctx, w) }
     else do {
       w \<leftarrow> skynet_logger_print 0 LOGGER_ERROR
         (mod_text mods 0 LOGGER_ERROR (Log_create_failed name args)) w;
       w \<leftarrow> skynet_service_release mods i w;
       Some (0, w) } }"

definition skynet_service_close :: "u32 \<Rightarrow> 'a world_scheme \<Rightarrow> 'a world_scheme option" where
  "skynet_service_close handle w =
     (case skynet_service_find (w_storage w) handle of
        None \<Rightarrow> Some w
      | Some i \<Rightarrow> do {
          ctx \<leftarrow> ctx_at i w;
          let w = set_ctx i (ctx\<lparr>sv_closing := True\<rparr>) w;
          a \<leftarrow> sv_queue ctx;
          q \<leftarrow> mqs (w_heap w) a;
          if \<not> q_in_global q then do {
            h \<leftarrow> skynet_globalmq_push a (w_heap w);
            Some (w\<lparr>w_heap := h\<rparr>) }
          else Some w })"

definition skynet_service_closename :: "cstring \<Rightarrow> 'a world_scheme \<Rightarrow> 'a world_scheme option" where
  "skynet_service_closename name w = skynet_service_close (find_name (w_storage w) name) w"

text \<open>\<open>skynet_service_releaseall\<close>: the loop over the slots, from the last to the first.\<close>

fun release_slots ::
  "'a world_scheme modules \<Rightarrow> nat \<Rightarrow> 'a world_scheme \<Rightarrow> 'a world_scheme option" where
  "release_slots mods 0 w = Some w"
| "release_slots mods (Suc i) w =
     (case ctx_at i w of
        Some ctx \<Rightarrow>
          if sv_handle ctx > 0 then do {
            w \<leftarrow> dispatch_all mods i (set_ctx i (ctx\<lparr>sv_closing := True\<rparr>) w);
            w \<leftarrow> skynet_service_release mods i w;
            release_slots mods i w }
          else release_slots mods i w
      | None \<Rightarrow> release_slots mods i w)"

definition skynet_service_releaseall ::
  "'a world_scheme modules \<Rightarrow> 'a world_scheme \<Rightarrow> 'a world_scheme option" where
  "skynet_service_releaseall mods w = release_slots mods (slot_size (w_storage w)) w"

text \<open>\<open>skynet_message_dispatch\<close>: what a worker does between two looks at the global queue.\<close>

definition skynet_message_dispatch ::
  "'a world_scheme modules \<Rightarrow> 'a world_scheme \<Rightarrow> (int \<times> 'a world_scheme) option" where
  "skynet_message_dispatch mods w = do {
     (r, h) \<leftarrow> skynet_globalmq_pop (w_heap w);
     let w = w\<lparr>w_heap := h\<rparr>;
     case r of
       None \<Rightarrow> Some (1, w)
     | Some a \<Rightarrow> do {
         q \<leftarrow> mqs (w_heap w) a;
         case skynet_service_find (w_storage w) (q_handle q) of
           None \<Rightarrow> Some (0, w)
         | Some i \<Rightarrow> do {
             ctx \<leftarrow> ctx_at i w;
             if sv_handle ctx = 0 then Some (0, w)
             else if sv_queue ctx \<noteq> Some a then None
             else if sv_closing ctx then do {
               w \<leftarrow> dispatch_all mods i w;
               w \<leftarrow> skynet_service_release mods i w;
               Some (0, w) }
             else do {
               (ret, w) \<leftarrow> skynet_service_message_dispatch mods i w;
               q \<leftarrow> mqs (w_heap w) a;
               if ret = 0 \<and> \<not> q_concurrent q then do {
                 h \<leftarrow> skynet_globalmq_push a (w_heap w);
                 Some (0, w\<lparr>w_heap := h\<rparr>) }
               else Some (0, w) } } } }"


section \<open>The invariant between steps\<close>

text \<open>
  Every service has a queue of its own that carries its handle; a queue is in the global
  queue exactly when its flag says so; a queue with messages is in the global queue.
\<close>

definition server_ok :: "'a world_scheme \<Rightarrow> addr list \<Rightarrow> bool" where
  "server_ok w as \<longleftrightarrow> slots_ok (w_HARBOR_ID w) (w_storage w) \<and> names_ok (w_storage w)
     \<and> gq_rep (w_heap w) as
     \<and> (\<forall>a q. mqs (w_heap w) a = Some q \<longrightarrow> a < w_brk w \<and> mq_ok q
          \<and> (q_in_global q \<longleftrightarrow> a \<in> set as) \<and> (mq_contents q \<noteq> [] \<longrightarrow> a \<in> set as))
     \<and> (\<forall>i ctx. ctx_at i w = Some ctx \<longrightarrow>
          (\<exists>a q. sv_queue ctx = Some a \<and> mqs (w_heap w) a = Some q \<and> q_handle q = sv_handle ctx))
     \<and> (\<forall>i j ctx ctx'. ctx_at i w = Some ctx \<longrightarrow> ctx_at j w = Some ctx' \<longrightarrow>
          sv_queue ctx = sv_queue ctx' \<longrightarrow> i = j)"

lemma server_okD:
  assumes "server_ok w as"
  shows "slots_ok (w_HARBOR_ID w) (w_storage w)" "names_ok (w_storage w)" "gq_rep (w_heap w) as"
    "\<And>a q. mqs (w_heap w) a = Some q \<Longrightarrow> a < w_brk w \<and> mq_ok q
       \<and> (q_in_global q \<longleftrightarrow> a \<in> set as) \<and> (mq_contents q \<noteq> [] \<longrightarrow> a \<in> set as)"
    "\<And>i ctx. ctx_at i w = Some ctx \<Longrightarrow>
       \<exists>a q. sv_queue ctx = Some a \<and> mqs (w_heap w) a = Some q \<and> q_handle q = sv_handle ctx"
    "\<And>i j ctx ctx'. ctx_at i w = Some ctx \<Longrightarrow> ctx_at j w = Some ctx' \<Longrightarrow>
       sv_queue ctx = sv_queue ctx' \<Longrightarrow> i = j"
proof -
  note a = assms [unfolded server_ok_def]
  show "slots_ok (w_HARBOR_ID w) (w_storage w)" "names_ok (w_storage w)" "gq_rep (w_heap w) as"
    using a by simp_all
  show "a < w_brk w \<and> mq_ok q \<and> (q_in_global q \<longleftrightarrow> a \<in> set as) \<and> (mq_contents q \<noteq> [] \<longrightarrow> a \<in> set as)"
    if "mqs (w_heap w) a = Some q" for a q
    using a that by (elim conjE) (erule allE, erule allE, erule (1) mp)
  show "\<exists>a q. sv_queue ctx = Some a \<and> mqs (w_heap w) a = Some q \<and> q_handle q = sv_handle ctx"
    if "ctx_at i w = Some ctx" for i ctx
    using a [THEN conjunct2, THEN conjunct2, THEN conjunct2, THEN conjunct2, THEN conjunct1] that by blast
  show "i = j" if "ctx_at i w = Some ctx" "ctx_at j w = Some ctx'" "sv_queue ctx = sv_queue ctx'" for i j ctx ctx'
    using a [THEN conjunct2, THEN conjunct2, THEN conjunct2, THEN conjunct2, THEN conjunct2] that by blast
qed

lemma find_cong:
  "slot m = slot m' \<Longrightarrow> slot_size m = slot_size m' \<Longrightarrow> skynet_service_find m h = skynet_service_find m' h"
  by (simp only: skynet_service_find_def)

lemma find_ctx:
  assumes "slots_ok harbor (w_storage w)"
  shows "skynet_service_find (w_storage w) h = Some i \<longleftrightarrow>
    (\<exists>ctx. ctx_at i w = Some ctx \<and> sv_handle ctx = h)"
  using assms by (auto simp: service_find_iff ctx_at_def)

lemma logger_print_storage:
  assumes "skynet_logger_print source level txt w = Some w'"
  shows "w_storage w' = w_storage w" "w_HARBOR_ID w' = w_HARBOR_ID w" "w_brk w' = w_brk w"
  using assms by (auto simp: skynet_logger_print_def skynet_service_sendmsg_def bind_eq_Some_conv
      split: option.splits if_splits)

text \<open>Pushing a message to the queue of a service keeps the invariant.\<close>

lemma sendmsg_ok:
  assumes ok: "server_ok w as" and ctx: "ctx_at i w = Some ctx" "\<not> sv_closing ctx"
  obtains a q w' as' where "sv_queue ctx = Some a" "mqs (w_heap w) a = Some q"
    "skynet_service_sendmsg i m w = Some (0, w')" "server_ok w' as'"
    "as' = (if a \<in> set as then as else as @ [a])" "w_storage w' = w_storage w"
    "\<exists>q'. mqs (w_heap w') a = Some q' \<and> mq_contents q' = mq_contents q @ [m]"
    "\<forall>b. b \<noteq> a \<longrightarrow> mq_core (w_heap w') b = mq_core (w_heap w) b"
proof -
  from ok ctx(1) obtain a q where a: "sv_queue ctx = Some a" "mqs (w_heap w) a = Some q"
    "q_handle q = sv_handle ctx" using server_okD(5) by blast
  note rep = server_okD(3) [OF ok]
  have q: "mq_ok q" "q_in_global q \<longleftrightarrow> a \<in> set as" using server_okD(4) [OF ok a(2)] by auto
  then have "q_in_global q \<or> a \<notin> set as" by blast
  from mq_push_rep [OF rep a(2) this, of m] obtain h where h: "skynet_mq_push a m (w_heap w) = Some h"
    "gq_rep h (if q_in_global q then as else as @ [a])"
    "mq_core h = (mq_core (w_heap w))(a := Some ((mq_store m q)\<lparr>q_in_global := True, q_next := None\<rparr>))"
    by blast
  let ?w = "w\<lparr>w_heap := h\<rparr>" and ?as = "if a \<in> set as then as else as @ [a]"
  have ca: "mq_core h a = Some ((mq_store m q)\<lparr>q_in_global := True, q_next := None\<rparr>)" by (simp add: h)
  then obtain q' where q': "mqs h a = Some q'" "q'\<lparr>q_next := None\<rparr> = (mq_store m q)\<lparr>q_in_global := True, q_next := None\<rparr>"
    by (auto dest: mq_core_SomeD)
  have q'_facts: "mq_contents q' = mq_contents q @ [m]" "q_in_global q'" "mq_ok q'" "q_handle q' = q_handle q"
    using arg_cong [OF q'(2), of mq_contents] arg_cong [OF q'(2), of q_in_global]
      arg_cong [OF q'(2), of mq_ok] arg_cong [OF q'(2), of q_handle]
    by (simp_all add: mq_store_contents [OF q(1)] mq_store_ok [OF q(1)] frame_simps)
  have other: "\<exists>r. mqs (w_heap w) b = Some r \<and> mq_contents p = mq_contents r \<and> mq_ok p = mq_ok r
      \<and> q_in_global p = q_in_global r \<and> q_handle p = q_handle r"
    if "mqs h b = Some p" "b \<noteq> a" for b p
  proof -
    have "mq_core (w_heap w) b = Some (p\<lparr>q_next := None\<rparr>)"
      using h(3) that by (metis mq_core_def fun_upd_other option.simps(9))
    then obtain r where r: "mqs (w_heap w) b = Some r" "p\<lparr>q_next := None\<rparr> = r\<lparr>q_next := None\<rparr>"
      by (auto dest: mq_core_SomeD)
    with same_but_link [OF r(2)] show ?thesis by auto
  qed
  have live: "\<exists>p. mqs h b = Some p \<and> q_handle p = q_handle r" if r: "mqs (w_heap w) b = Some r" for b r
  proof (cases "b = a")
    case True
    with r a(2) q' q'_facts show ?thesis by auto
  next
    case False
    then have "mq_core h b = Some (r\<lparr>q_next := None\<rparr>)" using h(3) r by (simp add: mq_core_def)
    then obtain p where "mqs h b = Some p" "r\<lparr>q_next := None\<rparr> = p\<lparr>q_next := None\<rparr>"
      by (auto dest: mq_core_SomeD)
    with same_but_link(4) show ?thesis by metis
  qed
  have all: "b < w_brk w \<and> mq_ok p \<and> (q_in_global p \<longleftrightarrow> b \<in> set ?as) \<and> (mq_contents p \<noteq> [] \<longrightarrow> b \<in> set ?as)"
    if p: "mqs h b = Some p" for b p
  proof (cases "b = a")
    case True
    with p q' q'_facts server_okD(4) [OF ok a(2)] show ?thesis by auto
  next
    case False
    from other [OF p False] False show ?thesis by (auto dest: server_okD(4) [OF ok])
  qed
  have ctxs: "\<exists>b r. sv_queue c = Some b \<and> mqs h b = Some r \<and> q_handle r = sv_handle c"
    if c: "ctx_at j w = Some c" for j c
  proof -
    from server_okD(5) [OF ok c] obtain b r where
      "sv_queue c = Some b" "mqs (w_heap w) b = Some r" "q_handle r = sv_handle c" by blast
    with live show ?thesis by metis
  qed
  have "ctx_at j ?w = ctx_at j w" for j by (simp add: ctx_at_def)
  note at = this
  have sel: "w_heap ?w = h" "w_brk ?w = w_brk w" "w_storage ?w = w_storage w"
    "w_HARBOR_ID ?w = w_HARBOR_ID w" by simp_all
  have rep': "gq_rep h ?as" using h(2) q(2) by simp
  have "server_ok ?w ?as"
    unfolding server_ok_def at sel
    by (intro conjI allI impI)
      (use server_okD(1,2,6) [OF ok] rep' all ctxs in \<open>blast+\<close>)
  with a h q' q'_facts ctx show ?thesis
    by (intro that [of a q ?w ?as]) (auto simp: skynet_service_sendmsg_def)
qed

section \<open>Properties\<close>


text \<open>A server with one service, \<open>echo\<close>, that sleeps on an empty queue.\<close>

definition one_service :: world where
  "one_service = (world_init 1)\<lparr>w_brk := 1,
     w_storage := skynet_service_init\<lparr>slot := [Some \<lparr>sv_closing = False, sv_name = cs ''echo'',
       sv_module = cs ''echo'', sv_handle = 0x100, sv_queue = Some 0\<rparr>, None, None, None]\<rparr>,
     w_heap := skynet_mq_init\<lparr>mqs := [0 \<mapsto> (skynet_mq_create 0x100 False)\<lparr>q_in_global := False\<rparr>]\<rparr>\<rparr>"

lemma one_service_ctx:
  "ctx_at i one_service = Some ctx \<longleftrightarrow> i = 0 \<and> ctx = \<lparr>sv_closing = False, sv_name = cs ''echo'',
       sv_module = cs ''echo'', sv_handle = 0x100, sv_queue = Some 0\<rparr>"
  by (auto simp: ctx_at_def one_service_def nth_Cons split: nat.splits)

lemma handle_100: "skynet_harbor_handle 1 0 = 0x100"
  by (simp add: skynet_harbor_handle_def push_bit_eq_mult)

lemma one_service_ok: "server_ok one_service []"
proof -
  have "slots_ok 1 (w_storage one_service)"
    by (auto simp: slots_ok_def table_size_def one_service_def nth_Cons handle_100
        skynet_service_init_def DEFAULT_SLOT_SIZE_def split: nat.splits)
  moreover have "names_ok (w_storage one_service)"
    using init_names_ok by (simp add: one_service_def names_ok_def names_of_def)
  moreover have "gq_rep (w_heap one_service) []"
    by (simp add: gq_rep_def one_service_def skynet_mq_init_def frame_simps)
  ultimately show ?thesis
    unfolding server_ok_def by (auto simp: one_service_ctx) (auto simp: one_service_def world_init_def frame_simps split: if_splits)
qed

lemma one_service_find: "skynet_service_find (w_storage one_service) 0x100 = Some 0"
proof -
  have "slots_ok (w_HARBOR_ID one_service) (w_storage one_service)"
    using one_service_ok by (simp add: server_ok_def)
  from find_ctx [OF this] show ?thesis by (simp add: one_service_ctx)
qed


text \<open>Modules whose entry points touch only their own state and return \<open>r\<close> from create.\<close>

definition quiet :: "'a world_scheme modules \<Rightarrow> int \<Rightarrow> bool" where
  "quiet mods r \<longleftrightarrow>
     (\<forall>i h a w. \<exists>w'. mod_create mods i h a w = Some (r, w') \<and> w_storage w' = w_storage w
        \<and> w_heap w' = w_heap w \<and> w_LOGGER w' = w_LOGGER w)
     \<and> (\<forall>c w. \<exists>w'. mod_release mods c w = Some w' \<and> w_storage w' = w_storage w
        \<and> w_heap w' = w_heap w \<and> w_LOGGER w' = w_LOGGER w)"

lemma quietD:
  assumes "quiet mods r"
  obtains w1 where "mod_create mods i h a w = Some (r, w1)" "w_storage w1 = w_storage w"
    "w_heap w1 = w_heap w" "w_LOGGER w1 = w_LOGGER w"
  using assms unfolding quiet_def by blast

lemma quiet_releaseD:
  assumes "quiet mods r"
  obtains w1 where "mod_release mods c w = Some w1" "w_storage w1 = w_storage w"
    "w_heap w1 = w_heap w" "w_LOGGER w1 = w_LOGGER w"
  using assms unfolding quiet_def by blast

lemma log_off [simp]: "w_LOGGER w = None \<Longrightarrow> skynet_logger_print source level txt w = Some w"
  by (simp add: skynet_logger_print_def)

text \<open>The address of the next queue is not in use, and a new queue there is linked at the end of the global queue.\<close>

lemma fresh_queue:
  assumes "server_ok w as"
  shows "mqs (w_heap w) (w_brk w) = None"
proof (rule ccontr)
  assume "mqs (w_heap w) (w_brk w) \<noteq> None"
  then obtain q where "mqs (w_heap w) (w_brk w) = Some q" by blast
  from server_okD(4) [OF assms this] show False by simp
qed

lemma new_queue_linked:
  assumes rep: "gq_rep h as" and fresh: "mqs h a = None"
  obtains h' q where "skynet_globalmq_push a (h\<lparr>mqs := (mqs h)(a := Some (skynet_mq_create handle concurrent))\<rparr>) = Some h'"
    "gq_rep h' (as @ [a])" "mqs h' a = Some q" "mq_contents q = []" "q_concurrent q = concurrent"
proof -
  let ?h = "h\<lparr>mqs := (mqs h)(a := Some (skynet_mq_create handle concurrent))\<rparr>"
  have r: "gq_rep ?h as" by (rule gq_rep_new [OF rep fresh]) (simp add: frame_simps)
  have "a \<notin> set as" using gq_rep_dom [OF rep, of a] fresh by (auto simp: mq_core_eq_None)
  from gq_rep_push [OF r this, of "skynet_mq_create handle concurrent"] obtain h' where
    h': "skynet_globalmq_push a ?h = Some h'" "gq_rep h' (as @ [a])" "mq_core h' = mq_core ?h" by auto
  have "mq_core h' a = Some ((skynet_mq_create handle concurrent)\<lparr>q_next := None\<rparr>)"
    by (simp add: h'(3)) (simp add: mq_core_def)
  then obtain q where "mqs h' a = Some q" "mq_contents q = []" "q_concurrent q = concurrent"
    by (rule mq_core_contents) (auto simp: frame_simps)
  with h' that show thesis by blast
qed


definition quiet_modules :: "int \<Rightarrow> world modules" where
  "quiet_modules r = \<lparr>mod_create = (\<lambda>i h a w. Some (r, w)), mod_release = (\<lambda>c w. Some w),
     mod_cb = (\<lambda>i m w. Some w), mod_text = (\<lambda>h l x. [])\<rparr>"

lemma quiet_modules [simp]: "quiet (quiet_modules r) r"
  by (simp add: quiet_def quiet_modules_def)

lemma world_init_ok: "server_ok (world_init harbor) []"
  by (auto simp: server_ok_def world_init_def gq_rep_init ctx_at_def)
    (auto simp: skynet_mq_init_def skynet_service_init_def)


text \<open>A service whose module fails to start under a name that is taken deregisters the
  service that holds the name: it stays alive under its handle, but its name is gone.\<close>

theorem failed_create_drops_name:
  assumes "server_ok w as" "quiet mods 1" "w_LOGGER w = None"
    "slot_index (w_storage w) + slot_size (w_storage w) \<le> INDEX_MASK + 1"
    "j < slot_size (w_storage w)" "slot (w_storage w) ! j = None"
  shows "\<exists>w'. skynet_service_create mods name (w_HARBOR_ID w) module args concurrent w = Some (0, w')
    \<and> find_name (w_storage w') name = 0
    \<and> (\<forall>k. k \<noteq> name \<longrightarrow> find_name (w_storage w') k = find_name (w_storage w) k)
    \<and> (\<forall>h. skynet_service_find (w_storage w') h = skynet_service_find (w_storage w) h)"
proof -
  let ?st = "w_storage w" and ?a = "w_brk w"
  note ok = server_okD(1-3) [OF assms(1)]
  define ctx where "ctx i = \<lparr>sv_closing = False, sv_name = name, sv_module = module,
         sv_handle = skynet_harbor_handle (w_HARBOR_ID w) (int i), sv_queue = None\<rparr>" for i
  from service_create_free [OF ok(1) assms(4-6), of name module, folded ctx_def] obtain i st where
    c: "service_create_slot (w_HARBOR_ID w) name module ?st = Some (i, st)" "slots_ok (w_HARBOR_ID w) st"
    "slot_size st = slot_size ?st" "i < slot_size ?st" "slot ?st ! i = None"
    "slot st = (slot ?st)[i := Some (ctx i)]" "names_of st = names_of ?st" "name_count st = name_count ?st"
    "name_cap st = name_cap ?st" "name_arr st = name_arr ?st" by blast
  have len: "length (slot ?st) = slot_size ?st" "length (slot st) = slot_size st" using ok(1) c(2) by auto
  define ctx' where "ctx' = (ctx i)\<lparr>sv_queue := Some ?a\<rparr>"
  define h where "h = sv_handle ctx'"
  define st1 where "st1 = st\<lparr>slot := (slot ?st)[i := Some ctx']\<rparr>"
  define hp where "hp = (w_heap w)\<lparr>mqs := (mqs (w_heap w))(?a := Some (skynet_mq_create h concurrent))\<rparr>"
  define w1 where "w1 = w\<lparr>w_storage := st1, w_brk := ?a + 1, w_heap := hp\<rparr>"
  define st2 where "st2 = (delete_name st1 name)\<lparr>slot := (slot (delete_name st1 name))[i := None]\<rparr>"
  have hctx: "sv_handle (ctx i) = h" "sv_handle ctx' = h" "sv_name ctx' = name" "sv_queue ctx' = Some ?a"
    by (simp_all add: h_def ctx'_def ctx_def)
  have idx: "skynet_harbor_index h = int i"
    using c(4) table_size_pos(2) [OF slots_okD(1) [OF ok(1)]]
    by (simp add: h_def ctx'_def ctx_def harbor_handle_index)
  have at: "ctx_at i (w\<lparr>w_storage := st\<rparr>) = Some (ctx i)" using c len by (simp add: ctx_at_def)
  obtain w2 where w2: "mod_create mods i (w_HARBOR_ID w) args w1 = Some (1, w2)" "w_storage w2 = st1"
    "w_heap w2 = hp" "w_LOGGER w2 = None"
    by (rule quietD [OF assms(2), of i "w_HARBOR_ID w" args w1]) (simp add: w1_def assms(3))
  have at2: "ctx_at i w2 = Some ctx'" using c(4) len by (simp add: ctx_at_def w2 st1_def)
  have sz1: "slot_size st1 = slot_size ?st" "slot_size (delete_name st1 name) = slot_size st1"
    "slot (delete_name st1 name) = slot st1"
    using c(3) by (simp_all add: st1_def delete_name_def split: sum.splits)
  have unlink: "service_unlink st1 ctx' = Some st2"
    using c(4) sz1 by (simp add: service_unlink_def hctx idx st2_def Let_def)
  obtain w3 where w3: "mod_release mods ctx' (w2\<lparr>w_storage := st2\<rparr>) = Some w3" "w_storage w3 = st2"
    "w_heap w3 = hp" "w_LOGGER w3 = None"
    by (rule quiet_releaseD [OF assms(2), of ctx' "w2\<lparr>w_storage := st2\<rparr>"]) (simp add: w2)
  obtain ms hp2 where "skynet_mq_release ?a hp = Some (ms, hp2)"
    using mq_release_result [of hp ?a "skynet_mq_create h concurrent"] by (auto simp: hp_def)
  then have "skynet_service_release mods i w2 = Some (w3\<lparr>w_heap := hp2\<rparr>)"
    using at2 w2 w3 unlink by (simp add: skynet_service_release_def hctx)
  moreover have "set_ctx i ctx' (w\<lparr>w_storage := st, w_brk := ?a + 1, w_heap := hp\<rparr>) = w1"
    by (simp add: set_ctx_def w1_def st1_def c(6))
  ultimately have run: "skynet_service_create mods name (w_HARBOR_ID w) module args concurrent w
      = Some (0, w3\<lparr>w_heap := hp2\<rparr>)"
    using c(1) at w2 by (simp add: skynet_service_create_def Let_def hctx flip: ctx'_def hp_def)
  have nst1: "names_ok st1" and dir1: "dir_of st1 = dir_of ?st"
    using c ok(2) by (auto simp: dir_of_def names_ok_def names_of_def st1_def)
  have st2: "names_ok st2" "dir_of st2 = (dir_of ?st)(name := None)"
    using delete_name_dir [OF nst1, of name] dir1 by (auto simp: st2_def names_ok_def dir_of_def names_of_def)
  have "slot st2 = slot ?st"
    using c(4,5) len sz1 by (simp add: st2_def st1_def list_update_same_conv)
  then have "skynet_service_find st2 h' = skynet_service_find ?st h'" for h'
    using sz1 by (intro find_cong) (simp_all add: st2_def)
  then show ?thesis
    using run w3(2) by (auto simp: find_name_dir [OF st2(1)] find_name_dir [OF ok(2)] st2(2))
qed

lemma failed_create_drops_name_witness:
  "\<exists>w'. skynet_service_create (quiet_modules 1) (cs ''echo'') 1 (cs ''echo'') (cs []) False
      (one_service\<lparr>w_storage := (w_storage one_service)
         \<lparr>name_arr := [\<lparr>sn_name = cs ''echo'', sn_handle = 0x100\<rparr>, unset_name], name_count := 1\<rparr>\<rparr>) = Some (0, w')
    \<and> find_name (w_storage w') (cs ''echo'') = 0 \<and> skynet_service_find (w_storage w') 0x100 = Some 0"
proof -
  let ?w = "one_service\<lparr>w_storage := (w_storage one_service)
         \<lparr>name_arr := [\<lparr>sn_name = cs ''echo'', sn_handle = 0x100\<rparr>, unset_name], name_count := 1\<rparr>\<rparr>"
  have at: "ctx_at i ?w = ctx_at i one_service" for i by (simp add: ctx_at_def)
  have names: "names_ok (w_storage ?w)"
    by (simp add: names_ok_def names_of_def one_service_def skynet_service_init_def DEFAULT_SLOT_SIZE_def)
  have slots: "slots_ok (w_HARBOR_ID one_service) (w_storage ?w)"
    using server_okD(1) [OF one_service_ok] by (simp add: slots_ok_def)
  have "server_ok ?w []"
    using one_service_ok slots names unfolding server_ok_def at by (elim conjE) (intro conjI, simp_all)
  moreover have "w_HARBOR_ID ?w = 1" "w_LOGGER ?w = None"
    "slot_index (w_storage ?w) + slot_size (w_storage ?w) \<le> INDEX_MASK + 1"
    "1 < slot_size (w_storage ?w)" "slot (w_storage ?w) ! 1 = None"
    by (simp_all add: one_service_def world_init_def skynet_service_init_def DEFAULT_SLOT_SIZE_def INDEX_MASK_def)
  moreover have "skynet_service_find (w_storage ?w) 0x100 = Some 0"
    using one_service_find find_cong [of "w_storage ?w" "w_storage one_service"] by simp
  ultimately show ?thesis
    using failed_create_drops_name [of ?w "[]" "quiet_modules 1" 1 "cs ''echo''" "cs ''echo''" "cs []" False]
    by (metis quiet_modules)
qed

text \<open>The service of \<open>one_service\<close> as closing it twice leaves it: with its flag, its link in the global queue and
  the two ends of that queue.\<close>

definition idle_ctx :: "bool \<Rightarrow> skynet_service" where
  "idle_ctx b = \<lparr>sv_closing = b, sv_name = cs ''echo'', sv_module = cs ''echo'', sv_handle = 0x100, sv_queue = Some 0\<rparr>"

definition idle_queue :: "nat option \<Rightarrow> message_queue" where
  "idle_queue n = (skynet_mq_create 0x100 False)\<lparr>q_in_global := False, q_next := n\<rparr>"

definition idle_storage :: "bool \<Rightarrow> service_storage" where
  "idle_storage b = skynet_service_init\<lparr>slot := [Some (idle_ctx b), None, None, None]\<rparr>"

definition idle_world :: "bool \<Rightarrow> nat option \<Rightarrow> nat option \<Rightarrow> world" where
  "idle_world b n g = (world_init 1)\<lparr>w_brk := 1, w_storage := idle_storage b,
     w_heap := \<lparr>mqs = [0 \<mapsto> idle_queue n], g_head = g, g_tail = g\<rparr>\<rparr>"

definition dangling_world :: world where
  "dangling_world = (idle_world True None (Some 0))
     \<lparr>w_storage := (idle_storage True)\<lparr>slot := [None, None, None, None]\<rparr>,
      w_heap := \<lparr>mqs = Map.empty, g_head = Some 0, g_tail = Some 0\<rparr>\<rparr>"

lemma one_service_idle: "one_service = idle_world False None None"
  by (simp add: idle_world_def one_service_def idle_storage_def idle_ctx_def idle_queue_def
      skynet_mq_init_def skynet_mq_create_def)

lemma idle_slot_size: "slot_size (idle_storage b) = 4"
  by (simp add: idle_storage_def skynet_service_init_def DEFAULT_SLOT_SIZE_def)

lemma idle_find: "skynet_service_find (idle_storage b) 0x100 = Some 0"
  by (simp add: skynet_service_find_def idle_slot_size harbor_index_mod) (simp add: idle_storage_def idle_ctx_def)

lemma idle_at: "ctx_at 0 (idle_world b n g) = Some (idle_ctx b)"
  by (simp add: ctx_at_def idle_world_def idle_storage_def)

lemma idle_set: "set_ctx 0 ((idle_ctx b)\<lparr>sv_closing := True\<rparr>) (idle_world b n g) = idle_world True n g"
  by (simp add: set_ctx_def idle_world_def idle_storage_def idle_ctx_def)

lemma close_first: "skynet_service_close 0x100 (idle_world False None None) = Some (idle_world True None (Some 0))"
  using idle_at [of False] idle_set [of False]
  by (simp add: skynet_service_close_def)
    (simp add: idle_world_def idle_find idle_ctx_def idle_queue_def skynet_globalmq_push_def)

lemma close_second:
  "skynet_service_close 0x100 (idle_world True None (Some 0)) = Some (idle_world True (Some 0) (Some 0))"
  using idle_at [of True] idle_set [of True]
  by (simp add: skynet_service_close_def)
    (simp add: idle_world_def idle_find idle_ctx_def idle_queue_def skynet_globalmq_push_def upd_mq_def)

lemma idle_dispatch_all:
  "dispatch_all (quiet_modules 0) 0 (idle_world True None (Some 0)) = Some (idle_world True None (Some 0))"
proof -
  have "skynet_mq_pop (idle_queue None) = (None, idle_queue None)"
    by (simp add: idle_queue_def mq_pop_empty skynet_mq_create_def MQ_OVERLOAD_def)
  then have "skynet_service_message_dispatch (quiet_modules 0) 0 (idle_world True None (Some 0))
      = Some (1, idle_world True None (Some 0))"
    using idle_at [of True None "Some 0"]
    by (simp add: skynet_service_message_dispatch_def idle_ctx_def)
      (simp add: idle_world_def mq_pop_at_def Let_def fun_upd_idem)
  then show ?thesis
    by (subst dispatch_all.simps) simp
qed

lemma idle_release:
  "skynet_service_release (quiet_modules 0) 0 (idle_world True None (Some 0)) = Some dangling_world"
proof -
  have unlink: "service_unlink (idle_storage True) (idle_ctx True)
      = Some ((idle_storage True)\<lparr>slot := [None, None, None, None]\<rparr>)"
    by (simp add: service_unlink_def idle_slot_size idle_ctx_def harbor_index_mod delete_name_def)
      (simp add: idle_storage_def skynet_service_init_def name_search.simps)
  have "mq_ok (idle_queue None)" by (simp add: idle_queue_def)
  then have "\<exists>ms. skynet_mq_release 0 (w_heap (idle_world True None (Some 0)))
     = Some (ms, \<lparr>mqs = Map.empty, g_head = Some 0, g_tail = Some 0\<rparr>)"
    using mq_drain_contents [of "idle_queue None"]
    by (auto simp: skynet_mq_release_def idle_world_def) (simp_all add: idle_queue_def frame_simps)
  then obtain ms where "skynet_mq_release 0 (w_heap (idle_world True None (Some 0)))
     = Some (ms, \<lparr>mqs = Map.empty, g_head = Some 0, g_tail = Some 0\<rparr>)" ..
  then show ?thesis
    using idle_at [of True None "Some 0"] unlink
    by (simp add: skynet_service_release_def quiet_modules_def dangling_world_def)
      (simp add: idle_world_def idle_ctx_def world_init_def)
qed

text \<open>The queue that is its own successor is taken, its service released and the queue left in the global queue.\<close>

lemma idle_dispatch:
  "skynet_message_dispatch (quiet_modules 0) (idle_world True (Some 0) (Some 0)) = Some (0, dangling_world)"
proof -
  let ?w = "idle_world True (Some 0) (Some 0)" and ?w' = "idle_world True None (Some 0)"
  have pop: "skynet_globalmq_pop (w_heap ?w) = Some (Some 0, w_heap ?w')"
    by (simp add: idle_world_def skynet_globalmq_pop_def upd_mq_def Let_def)
      (simp add: idle_queue_def skynet_mq_create_def)
  have "?w\<lparr>w_heap := w_heap ?w'\<rparr> = ?w'" "mqs (w_heap ?w') 0 = Some (idle_queue None)"
    "w_storage ?w' = idle_storage True" "w_storage ?w = idle_storage True"
    by (simp_all add: idle_world_def)
  then show ?thesis
    using pop idle_dispatch_all idle_release idle_at [of True None "Some 0"] idle_find [of True]
    by (simp add: skynet_message_dispatch_def) (simp add: idle_queue_def frame_simps idle_ctx_def)
qed

text \<open>C20: closing an idle service twice. The first close links the queue without setting its
  flag, so the second links it again and makes it its own successor; the worker that
  releases the service leaves the global queue pointing to the freed queue, and the next
  look at the global queue follows that pointer.\<close>

theorem close_twice_dangles:
  "\<exists>w1 w2 w3. skynet_service_close 0x100 one_service = Some w1
     \<and> skynet_service_close 0x100 w1 = Some w2
     \<and> skynet_message_dispatch (quiet_modules 0) w2 = Some (0, w3)
     \<and> mqs (w_heap w3) 0 = None \<and> g_head (w_heap w3) = Some 0
     \<and> skynet_message_dispatch (quiet_modules 0) w3 = None"
proof -
  have "skynet_message_dispatch (quiet_modules 0) dangling_world = None"
    by (simp add: skynet_message_dispatch_def skynet_globalmq_pop_def dangling_world_def)
  with close_first close_second idle_dispatch show ?thesis
    unfolding one_service_idle by (auto simp: dangling_world_def)
qed

end
