(* ===== verification/Worker.thy ===== *)
theory Worker
  imports Server
begin

text \<open>
  Workers as an interleaving (\<open>thread_worker\<close> of \<open>skynet_main.c\<close> around
  \<open>skynet_message_dispatch\<close>): any number of threads run the operations of \<open>Global_Mq\<close>,
  each under its lock and so in one atomic step, while any code sends messages and creates
  services. Between its steps a worker holds the queue it took from the global queue.
  Services are not closed here. The lists \<open>sent\<close> and \<open>processed\<close> record, for each queue,
  the messages pushed on it and the messages taken off it, in order.
\<close>

section \<open>The step relation\<close>

datatype phase = Idle | Holding addr | Running addr skynet_message

fun holds :: "phase \<Rightarrow> addr option" where
  "holds Idle = None"
| "holds (Holding a) = Some a"
| "holds (Running a m) = Some a"

record wstate =
  ws_heap :: mq_heap
  ws_phase :: "nat \<Rightarrow> phase"
  ws_creating :: "addr set"
  sent :: "addr \<Rightarrow> skynet_message list"
  processed :: "addr \<Rightarrow> skynet_message list"

definition ws_init :: wstate where
  "ws_init = \<lparr>ws_heap = skynet_mq_init, ws_phase = (\<lambda>_. Idle), ws_creating = {},
     sent = (\<lambda>_. []), processed = (\<lambda>_. [])\<rparr>"

text \<open>The end of a dispatch: a queue that is not concurrent goes back to the global queue.\<close>

definition push_back :: "addr \<Rightarrow> mq_heap \<Rightarrow> mq_heap option" where
  "push_back a h = do {
     q \<leftarrow> mqs h a;
     if \<not> q_concurrent q then skynet_globalmq_push a h else Some h }"

inductive wstep :: "wstate \<Rightarrow> wstate \<Rightarrow> bool" where
  take: "ws_phase s t = Idle \<Longrightarrow> skynet_globalmq_pop (ws_heap s) = Some (Some a, h) \<Longrightarrow>
    wstep s (s\<lparr>ws_heap := h, ws_phase := (ws_phase s)(t := Holding a)\<rparr>)"
| pop: "ws_phase s t = Holding a \<Longrightarrow> mq_pop_at a (ws_heap s) = Some (Some m, h) \<Longrightarrow>
    wstep s (s\<lparr>ws_heap := h, ws_phase := (ws_phase s)(t := Running a m),
      processed := (processed s)(a := processed s a @ [m])\<rparr>)"
| pop_empty: "ws_phase s t = Holding a \<Longrightarrow> mq_pop_at a (ws_heap s) = Some (None, h) \<Longrightarrow>
    wstep s (s\<lparr>ws_heap := h, ws_phase := (ws_phase s)(t := Idle)\<rparr>)"
| finish: "ws_phase s t = Running a m \<Longrightarrow> push_back a (ws_heap s) = Some h \<Longrightarrow>
    wstep s (s\<lparr>ws_heap := h, ws_phase := (ws_phase s)(t := Idle)\<rparr>)"
| send: "skynet_mq_push a m (ws_heap s) = Some h \<Longrightarrow>
    wstep s (s\<lparr>ws_heap := h, sent := (sent s)(a := sent s a @ [m])\<rparr>)"
| create: "mqs (ws_heap s) a = None \<Longrightarrow>
    wstep s (s\<lparr>ws_heap := (ws_heap s)\<lparr>mqs := (mqs (ws_heap s))(a := Some (skynet_mq_create handle c))\<rparr>,
      ws_creating := insert a (ws_creating s)\<rparr>)"
| created: "a \<in> ws_creating s \<Longrightarrow> skynet_globalmq_push a (ws_heap s) = Some h \<Longrightarrow>
    wstep s (s\<lparr>ws_heap := h, ws_creating := ws_creating s - {a}\<rparr>)"

inductive reachable :: "wstate \<Rightarrow> bool" where
  init: "reachable ws_init"
| step: "reachable s \<Longrightarrow> wstep s s' \<Longrightarrow> reachable s'"

section \<open>The invariant\<close>

definition owned :: "wstate \<Rightarrow> addr list \<Rightarrow> addr \<Rightarrow> bool" where
  "owned s as a \<longleftrightarrow> a \<in> set as \<or> a \<in> ws_creating s \<or> (\<exists>t. holds (ws_phase s t) = Some a)"

text \<open>What holds of one queue, by whom it is owned.\<close>

definition queue_inv :: "wstate \<Rightarrow> addr list \<Rightarrow> addr \<Rightarrow> message_queue \<Rightarrow> bool" where
  "queue_inv s as a q \<longleftrightarrow> mq_ok q
     \<and> sent s a = processed s a @ mq_contents q
     \<and> (mq_contents q \<noteq> [] \<longrightarrow> q_in_global q)
     \<and> (a \<in> ws_creating s \<longrightarrow> a \<notin> set as \<and> q_in_global q \<and> (\<forall>t. holds (ws_phase s t) \<noteq> Some a))
     \<and> (if q_concurrent q then q_in_global q \<and> (a \<in> set as \<or> a \<in> ws_creating s)
        else (q_in_global q \<longleftrightarrow> owned s as a)
          \<and> (\<forall>t. holds (ws_phase s t) = Some a \<longrightarrow> a \<notin> set as)
          \<and> (\<forall>t t'. holds (ws_phase s t) = Some a \<longrightarrow> holds (ws_phase s t') = Some a \<longrightarrow> t = t'))"

definition winv :: "wstate \<Rightarrow> addr list \<Rightarrow> bool" where
  "winv s as \<longleftrightarrow> gq_rep (ws_heap s) as
     \<and> (\<forall>a q. mqs (ws_heap s) a = Some q \<longrightarrow> queue_inv s as a q)
     \<and> (\<forall>a. mqs (ws_heap s) a = None \<longrightarrow> sent s a = [] \<and> processed s a = [] \<and> a \<notin> ws_creating s
          \<and> (\<forall>t. holds (ws_phase s t) \<noteq> Some a))"

text \<open>A queue's invariant does not look at its link.\<close>

definition unlink :: "message_queue \<Rightarrow> message_queue" where
  "unlink q = q\<lparr>q_next := None\<rparr>"

lemma unlink_simps [simp]:
  "mq_ok (unlink q) = mq_ok q" "mq_contents (unlink q) = mq_contents q"
  "q_in_global (unlink q) = q_in_global q" "q_concurrent (unlink q) = q_concurrent q"
  by (simp_all add: unlink_def)

lemma queue_inv_unlink: "queue_inv s as a (unlink q) = queue_inv s as a q"
  by (simp add: queue_inv_def)

lemma winv_core:
  "winv s as \<longleftrightarrow> gq_rep (ws_heap s) as
     \<and> (\<forall>a q. mq_core (ws_heap s) a = Some q \<longrightarrow> queue_inv s as a q)
     \<and> (\<forall>a. mq_core (ws_heap s) a = None \<longrightarrow> sent s a = [] \<and> processed s a = [] \<and> a \<notin> ws_creating s
          \<and> (\<forall>t. holds (ws_phase s t) \<noteq> Some a))"
proof -
  have "mq_core h a = map_option unlink (mqs h a)" for h a
    by (simp add: mq_core_def unlink_def [abs_def])
  then show ?thesis
    by (auto simp: winv_def queue_inv_unlink) (metis queue_inv_unlink)
qed

lemma winvD:
  assumes "winv s as"
  shows "gq_rep (ws_heap s) as" "\<And>a q. mq_core (ws_heap s) a = Some q \<Longrightarrow> queue_inv s as a q"
    "\<And>t a. holds (ws_phase s t) = Some a \<Longrightarrow> mq_core (ws_heap s) a \<noteq> None"
    "\<And>a. a \<in> ws_creating s \<Longrightarrow> mq_core (ws_heap s) a \<noteq> None"
  using assms unfolding winv_core by blast+


text \<open>A step changes one queue; of the others it must keep everything.\<close>

lemma winv_frame:
  assumes inv: "winv s as" and rep: "gq_rep (ws_heap s') as'"
    and core: "mq_core (ws_heap s') = (mq_core (ws_heap s))(a := Some q')" and q': "queue_inv s' as' a q'"
    and frame: "\<And>b. b \<noteq> a \<Longrightarrow> (b \<in> set as' \<longleftrightarrow> b \<in> set as) \<and> (b \<in> ws_creating s' \<longleftrightarrow> b \<in> ws_creating s)
      \<and> sent s' b = sent s b \<and> processed s' b = processed s b"
    and ph: "\<And>b t. b \<noteq> a \<Longrightarrow> holds (ws_phase s' t) = Some b \<longleftrightarrow> holds (ws_phase s t) = Some b"
  shows "winv s' as'"
proof -
  have "queue_inv s' as' b q" if "b \<noteq> a" "mq_core (ws_heap s) b = Some q" for b q
  proof -
    have "queue_inv s as b q" using winvD(2) [OF inv that(2)] .
    then show ?thesis
      using frame [OF that(1)] ph [OF that(1)] by (simp add: queue_inv_def owned_def)
  qed
  moreover have "sent s' b = [] \<and> processed s' b = [] \<and> b \<notin> ws_creating s'
      \<and> (\<forall>t. holds (ws_phase s' t) \<noteq> Some b)" if "b \<noteq> a" "mq_core (ws_heap s) b = None" for b
    using inv that frame [OF that(1)] ph [OF that(1)] by (auto simp: winv_core)
  ultimately show ?thesis
    using rep q' unfolding winv_core core by auto
qed

lemma winv_take:
  assumes inv: "winv s as" and t: "ws_phase s t = Idle"
    and pop: "skynet_globalmq_pop (ws_heap s) = Some (Some a, h)"
  shows "\<exists>as'. winv (s\<lparr>ws_heap := h, ws_phase := (ws_phase s)(t := Holding a)\<rparr>) as'"
proof -
  note rep = winvD(1) [OF inv]
  obtain as1 where as: "as = a # as1" using rep pop gq_rep_pop_Nil
  proof (cases as)
    case (Cons b as1)
    then obtain x where "mq_core (ws_heap s) b = Some x" using gq_rep_dom [OF rep, of b] by auto
    from gq_rep_pop [OF rep [unfolded Cons] this] pop Cons that show ?thesis by auto
  qed auto
  then obtain q where q: "mq_core (ws_heap s) a = Some q" using gq_rep_dom [OF rep, of a] by auto
  from gq_rep_pop [OF rep [unfolded as] q] pop have
    h: "gq_rep h (if q_concurrent q then as1 @ [a] else as1)" "mq_core h = mq_core (ws_heap s)" by auto
  note qi = winvD(2) [OF inv q] and d = gq_rep_distinct [OF rep]
  let ?s = "s\<lparr>ws_heap := h, ws_phase := (ws_phase s)(t := Holding a)\<rparr>"
  let ?as = "if q_concurrent q then as1 @ [a] else as1"
  have "queue_inv ?s ?as a q"
    using qi d as t by (auto simp: queue_inv_def owned_def split: if_splits)
  then have "winv ?s ?as"
    using h q as t by (intro winv_frame [OF inv]) (auto simp: fun_upd_idem)
  then show ?thesis by blast
qed

lemma mq_pop_at_core:
  assumes rep: "gq_rep h as" and pop: "mq_pop_at a h = Some (r, h')" and q: "mq_core h a = Some q"
  shows "gq_rep h' as" "fst (skynet_mq_pop q) = r" "mq_core h' = (mq_core h)(a := Some (snd (skynet_mq_pop q)))"
proof -
  from q obtain p where p: "mqs h a = Some p" "q = p\<lparr>q_next := None\<rparr>" by (auto dest: mq_core_SomeD)
  have pq: "skynet_mq_pop q = (fst (skynet_mq_pop p), (snd (skynet_mq_pop p))\<lparr>q_next := None\<rparr>)"
    by (simp add: p(2) skynet_mq_pop_def Let_def split: prod.splits)
  from pop p have h': "h' = h\<lparr>mqs := (mqs h)(a := Some (snd (skynet_mq_pop p)))\<rparr>"
    and r: "r = fst (skynet_mq_pop p)"
    by (auto simp: mq_pop_at_def split: prod.splits)
  from gq_rep_upd [OF rep p(1), of "snd (skynet_mq_pop p)"] show "gq_rep h' as"
    by (simp add: h' frame_simps)
  show "fst (skynet_mq_pop q) = r" by (simp add: pq r)
  show "mq_core h' = (mq_core h)(a := Some (snd (skynet_mq_pop q)))"
    by (simp add: h' pq mq_core_def fun_eq_iff)
qed

lemma winv_pop:
  assumes inv: "winv s as" and t: "ws_phase s t = Holding a"
    and pop: "mq_pop_at a (ws_heap s) = Some (Some m, h)"
  shows "winv (s\<lparr>ws_heap := h, ws_phase := (ws_phase s)(t := Running a m),
      processed := (processed s)(a := processed s a @ [m])\<rparr>) as"
proof -
  from winvD(3) [OF inv, of t a] t obtain q where q: "mq_core (ws_heap s) a = Some q" by auto
  note core = mq_pop_at_core [OF winvD(1) [OF inv] pop q] and qi = winvD(2) [OF inv q]
  have ok: "mq_ok q" using qi by (simp add: queue_inv_def)
  have ne: "q_head q \<noteq> q_tail q" using core(2) mq_pop_None [of q] by auto
  have c: "mq_contents q = m # mq_contents (snd (skynet_mq_pop q))"
    using mq_pop_contents [OF ok] core(2) by (cases "mq_contents q") auto
  let ?s = "s\<lparr>ws_heap := h, ws_phase := (ws_phase s)(t := Running a m),
      processed := (processed s)(a := processed s a @ [m])\<rparr>"
  have ph: "holds (ws_phase ?s t') = holds (ws_phase s t')" for t' using t by simp
  have "queue_inv ?s as a (snd (skynet_mq_pop q))"
    using qi c ne ok unfolding queue_inv_def owned_def ph
    by (auto simp: frame_simps)
  then show ?thesis
    using core t by (intro winv_frame [OF inv, where a = a]) (auto simp: ph)
qed

lemma winv_pop_empty:
  assumes inv: "winv s as" and t: "ws_phase s t = Holding a"
    and pop: "mq_pop_at a (ws_heap s) = Some (None, h)"
  shows "winv (s\<lparr>ws_heap := h, ws_phase := (ws_phase s)(t := Idle)\<rparr>) as"
proof -
  from winvD(3) [OF inv, of t a] t obtain q where q: "mq_core (ws_heap s) a = Some q" by auto
  note core = mq_pop_at_core [OF winvD(1) [OF inv] pop q] and qi = winvD(2) [OF inv q]
  have ok: "mq_ok q" using qi by (simp add: queue_inv_def)
  have e: "q_head q = q_tail q" using core(2) mq_pop_None [of q] by auto
  then have c: "mq_contents q = []" using mq_contents_Nil [OF ok] by simp
  have hold: "holds (ws_phase s t) = Some a" using t by simp
  from c mq_pop_contents(2) [OF ok] have c': "mq_contents (snd (skynet_mq_pop q)) = []" by simp
  have "queue_inv (s\<lparr>ws_heap := h, ws_phase := (ws_phase s)(t := Idle)\<rparr>) as a (snd (skynet_mq_pop q))"
    using qi c c' e hold ok unfolding queue_inv_def owned_def
    by (auto simp: frame_simps split: if_splits)
  then show ?thesis
    using core t by (intro winv_frame [OF inv, where a = a]) auto
qed


lemma winv_finish:
  assumes inv: "winv s as" and t: "ws_phase s t = Running a m"
    and pb: "push_back a (ws_heap s) = Some h"
  shows "\<exists>as'. winv (s\<lparr>ws_heap := h, ws_phase := (ws_phase s)(t := Idle)\<rparr>) as'"
proof -
  from winvD(3) [OF inv, of t a] t obtain x where x: "mq_core (ws_heap s) a = Some x" by auto
  then obtain q where q: "mqs (ws_heap s) a = Some q" "q_concurrent q = q_concurrent x"
    by (auto elim: mq_core_contents)
  note qi = winvD(2) [OF inv x] and rep = winvD(1) [OF inv]
  have hold: "holds (ws_phase s t) = Some a" using t by simp
  let ?as = "if q_concurrent x then as else as @ [a]"
  have a: "\<not> q_concurrent x \<Longrightarrow> a \<notin> set as" using qi hold by (auto simp: queue_inv_def)
  have h: "gq_rep h ?as" "mq_core h = mq_core (ws_heap s)"
  proof -
    have "gq_rep h ?as \<and> mq_core h = mq_core (ws_heap s)"
      using gq_rep_push [OF rep a q(1)] pb q rep by (auto simp: push_back_def)
    then show "gq_rep h ?as" "mq_core h = mq_core (ws_heap s)" by auto
  qed
  have "queue_inv (s\<lparr>ws_heap := h, ws_phase := (ws_phase s)(t := Idle)\<rparr>) ?as a x"
    using qi hold unfolding queue_inv_def owned_def by (auto split: if_splits)
  then have "winv (s\<lparr>ws_heap := h, ws_phase := (ws_phase s)(t := Idle)\<rparr>) ?as"
    using h x t by (intro winv_frame [OF inv, where a = a]) (auto simp: fun_upd_idem)
  then show ?thesis by blast
qed

lemma winv_send:
  assumes inv: "winv s as" and push: "skynet_mq_push a m (ws_heap s) = Some h"
  shows "\<exists>as'. winv (s\<lparr>ws_heap := h, sent := (sent s)(a := sent s a @ [m])\<rparr>) as'"
proof -
  from push obtain q where q: "mqs (ws_heap s) a = Some q" by (auto simp: skynet_mq_push_def bind_eq_Some_conv)
  let ?x = "q\<lparr>q_next := None\<rparr>"
  have x: "mq_core (ws_heap s) a = Some ?x" using q by (simp add: mq_core_def)
  have qi: "queue_inv s as a q" using winvD(2) [OF inv x] queue_inv_unlink [of s as a q] by (simp add: unlink_def)
  then have ok: "mq_ok q" by (simp add: queue_inv_def)
  have "q_in_global q \<or> a \<notin> set as" using qi by (auto simp: queue_inv_def owned_def split: if_splits)
  from mq_push_rep [OF winvD(1) [OF inv] q this, of m] push
  have h: "gq_rep h (if q_in_global q then as else as @ [a])"
    "mq_core h = (mq_core (ws_heap s))(a := Some ((mq_store m q)\<lparr>q_in_global := True, q_next := None\<rparr>))"
    by auto
  let ?as = "if q_in_global q then as else as @ [a]"
  let ?y = "(mq_store m q)\<lparr>q_in_global := True, q_next := None\<rparr>"
  have y: "mq_ok ?y" "mq_contents ?y = mq_contents q @ [m]" "q_in_global ?y" "q_concurrent ?y = q_concurrent q"
    using mq_store_ok [OF ok, of m] mq_store_contents [OF ok, of m]
    by (simp_all add: frame_simps)
  have "queue_inv (s\<lparr>ws_heap := h, sent := (sent s)(a := sent s a @ [m])\<rparr>) ?as a ?y"
    using qi unfolding queue_inv_def owned_def y by (auto split: if_splits)
  then have "winv (s\<lparr>ws_heap := h, sent := (sent s)(a := sent s a @ [m])\<rparr>) ?as"
    using h by (intro winv_frame [OF inv, where a = a]) auto
  then show ?thesis by blast
qed

lemma winv_create:
  assumes inv: "winv s as" and a: "mqs (ws_heap s) a = None"
  shows "winv (s\<lparr>ws_heap := (ws_heap s)\<lparr>mqs := (mqs (ws_heap s))(a := Some (skynet_mq_create handle c))\<rparr>,
      ws_creating := insert a (ws_creating s)\<rparr>) as"
proof -
  let ?q = "skynet_mq_create handle c"
  let ?h = "(ws_heap s)\<lparr>mqs := (mqs (ws_heap s))(a := Some ?q)\<rparr>"
  let ?s = "s\<lparr>ws_heap := ?h, ws_creating := insert a (ws_creating s)\<rparr>"
  have core: "mq_core ?h = (mq_core (ws_heap s))(a := Some ?q)"
    by (simp add: mq_core_def fun_eq_iff skynet_mq_create_def)
  have none: "mq_core (ws_heap s) a = None" using a by (simp add: mq_core_eq_None)
  with inv have fresh: "sent s a = []" "processed s a = []" "\<forall>t. holds (ws_phase s t) \<noteq> Some a"
    by (auto simp: winv_core)
  have "a \<notin> set as" using gq_rep_dom [OF winvD(1) [OF inv]] none by blast
  then have "queue_inv ?s as a ?q"
    using fresh by (auto simp: queue_inv_def owned_def frame_simps)
  moreover have "gq_rep ?h as" by (rule gq_rep_new [OF winvD(1) [OF inv] a]) (simp add: frame_simps)
  ultimately show ?thesis using core by (intro winv_frame [OF inv, where a = a]) auto
qed

lemma winv_created:
  assumes inv: "winv s as" and a: "a \<in> ws_creating s"
    and push: "skynet_globalmq_push a (ws_heap s) = Some h"
  shows "winv (s\<lparr>ws_heap := h, ws_creating := ws_creating s - {a}\<rparr>) (as @ [a])"
proof -
  from winvD(4) [OF inv a] obtain x where x: "mq_core (ws_heap s) a = Some x" by auto
  then obtain q where q: "mqs (ws_heap s) a = Some q" by (auto elim: mq_core_contents)
  note qi = winvD(2) [OF inv x]
  have "a \<notin> set as" using qi a by (simp add: queue_inv_def)
  from gq_rep_push [OF winvD(1) [OF inv] this q] push
  have h: "gq_rep h (as @ [a])" "mq_core h = mq_core (ws_heap s)" by auto
  have "queue_inv (s\<lparr>ws_heap := h, ws_creating := ws_creating s - {a}\<rparr>) (as @ [a]) a x"
    using qi a unfolding queue_inv_def owned_def by (auto split: if_splits)
  then show ?thesis using h x by (intro winv_frame [OF inv, where a = a]) (auto simp: fun_upd_idem)
qed

lemma winv_init: "winv ws_init []"
  by (simp add: winv_def ws_init_def gq_rep_init) (simp add: skynet_mq_init_def)

lemma winv_step: "wstep s s' \<Longrightarrow> winv s as \<Longrightarrow> \<exists>as'. winv s' as'"
  by (induction rule: wstep.induct)
    (blast intro: winv_take winv_pop winv_pop_empty winv_finish winv_send winv_create winv_created)+

lemma reachable_winv: "reachable s \<Longrightarrow> \<exists>as. winv s as"
  by (induction rule: reachable.induct) (blast intro: winv_init winv_step)+


text \<open>A state in which a worker has taken the message of a queue.\<close>

lemma demo_reachable:
  "\<exists>s q. reachable s \<and> mqs (ws_heap s) 7 = Some q \<and> \<not> q_concurrent q
    \<and> ws_phase s 3 = Holding 7 \<and> mq_contents q = [blank_message]"
proof -
  let ?q = "skynet_mq_create 0x101 False"
  let ?s1 = "ws_init\<lparr>ws_heap := skynet_mq_init\<lparr>mqs := [7 \<mapsto> ?q]\<rparr>, ws_creating := {7}\<rparr>"
  have "reachable (ws_init\<lparr>ws_heap := (ws_heap ws_init)\<lparr>mqs := (mqs (ws_heap ws_init))(7 := Some ?q)\<rparr>,
      ws_creating := insert 7 (ws_creating ws_init)\<rparr>)"
    by (rule reachable.step [OF reachable.init wstep.create]) (simp add: ws_init_def skynet_mq_init_def)
  then have 1: "reachable ?s1" by (simp add: ws_init_def skynet_mq_init_def)
  let ?h2 = "skynet_mq_init\<lparr>mqs := [7 \<mapsto> ?q], g_head := Some 7, g_tail := Some 7\<rparr>"
  have "reachable (?s1\<lparr>ws_heap := ?h2, ws_creating := ws_creating ?s1 - {7}\<rparr>)"
    by (rule reachable.step [OF 1 wstep.created]) (simp_all add: skynet_globalmq_push_def skynet_mq_init_def)
  then have 2: "reachable (ws_init\<lparr>ws_heap := ?h2, ws_creating := {}\<rparr>)" by simp
  let ?q3 = "mq_store blank_message ?q" and ?s2 = "ws_init\<lparr>ws_heap := ?h2, ws_creating := {}\<rparr>"
  let ?h3 = "?h2\<lparr>mqs := [7 \<mapsto> ?q3]\<rparr>"
  have 3: "reachable (?s2\<lparr>ws_heap := ?h3, sent := (sent ?s2)(7 := sent ?s2 7 @ [blank_message])\<rparr>)" (is "reachable ?s3")
    by (rule reachable.step [OF 2 wstep.send]) (simp add: skynet_mq_push_def Let_def frame_simps)
  let ?h4 = "?h2\<lparr>mqs := [7 \<mapsto> ?q3\<lparr>q_next := None\<rparr>], g_head := None, g_tail := None\<rparr>"
  have n: "q_next ?q3 = None" "\<not> q_concurrent ?q3" by (simp_all add: frame_simps)
  have "skynet_globalmq_pop ?h3 = Some (Some 7, ?h4)"
    using n by (simp add: skynet_globalmq_pop_def upd_mq_def Let_def skynet_mq_init_def)
  then have "reachable (?s3\<lparr>ws_heap := ?h4, ws_phase := (ws_phase ?s3)(3 := Holding 7)\<rparr>)"
    by (intro reachable.step [OF 3 wstep.take]) (simp_all add: ws_init_def)
  then show ?thesis
    using n by (intro exI [of _ "?s3\<lparr>ws_heap := ?h4, ws_phase := (ws_phase ?s3)(3 := Holding 7)\<rparr>"])
      (simp add: mq_store_contents)
qed

section \<open>Properties\<close>





text \<open>C4: messages are delivered exactly once and in order: in every interleaving, what was
  pushed on a queue is what was taken off it followed by what is still in it.\<close>

theorem delivered_once_in_order:
  assumes "reachable s" "mqs (ws_heap s) a = Some q"
  shows "sent s a = processed s a @ mq_contents q"
proof -
  from reachable_winv [OF assms(1)] obtain as where "winv s as" ..
  with assms(2) show ?thesis by (auto simp: winv_def queue_inv_def)
qed

lemma delivered_once_in_order_witness:
  "\<exists>s. reachable s \<and> sent s 7 = processed s 7 @ [blank_message]"
proof -
  obtain s q where "reachable s" "mqs (ws_heap s) 7 = Some q" "mq_contents q = [blank_message]"
    using demo_reachable by blast
  with delivered_once_in_order [of s 7 q] show ?thesis by auto
qed



end
