(* ===== verification/Socket_State.thy ===== *)
theory Socket_State
  imports Prelude
begin

text \<open>
  The socket server (\<open>socket_server.c\<close>), first part: the data, the operating system it runs on, and
  the operations on one slot. The kernel's calls are parameters (\<open>kernel\<close>) on a state \<open>'e\<close> of the
  operating system that the server carries. A call that fails gives an \<open>errno\<close> on the right, or the
  flag \<open>True\<close>. Lines written to the log are left out. The
  outer \<open>option\<close> of an operation is \<open>None\<close> for a failed assertion or a bad pointer. The buffers given
  to the server are objects with an address; \<open>ss_freed\<close> records the addresses it frees, in order.
\<close>

section \<open>Constants\<close>

definition MAX_SOCKET :: int where "MAX_SOCKET = 2 ^ 16"
definition MIN_READ_BUFFER :: int where "MIN_READ_BUFFER = 64"
definition PROTOCOL_TCP :: byte where "PROTOCOL_TCP = 0"
definition PROTOCOL_UDP :: byte where "PROTOCOL_UDP = 1"
definition PROTOCOL_UDPv6 :: byte where "PROTOCOL_UDPv6 = 2"
definition PROTOCOL_UNKNOWN :: byte where "PROTOCOL_UNKNOWN = 255"
definition UDP_ADDRESS_SIZE :: nat where "UDP_ADDRESS_SIZE = 19"
definition WARNING_SIZE :: int where "WARNING_SIZE = 1024 * 1024"

definition HASH_ID :: "int \<Rightarrow> int" where "HASH_ID i = i mod MAX_SOCKET"
definition ID_TAG16 :: "int \<Rightarrow> nat" where "ID_TAG16 i = nat (drop_bit 16 i AND 0xffff)"

datatype socket_type =
  SOCKET_TYPE_INVALID | SOCKET_TYPE_RESERVE | SOCKET_TYPE_PLISTEN | SOCKET_TYPE_LISTEN
| SOCKET_TYPE_CONNECTING | SOCKET_TYPE_CONNECTED | SOCKET_TYPE_HALFCLOSE_READ
| SOCKET_TYPE_HALFCLOSE_WRITE | SOCKET_TYPE_PACCEPT | SOCKET_TYPE_BIND

text \<open>The type of a result of \<open>socket_server_poll\<close>; \<open>-1\<close> is the \<open>None\<close> of \<open>report\<close>.\<close>

datatype socket_ret =
  SOCKET_DATA | SOCKET_CLOSE | SOCKET_OPEN | SOCKET_ACCEPT | SOCKET_ERR | SOCKET_EXIT
| SOCKET_UDP | SOCKET_WARNING | SOCKET_RST | SOCKET_MORE

record socket_message =
  msg_id :: int
  msg_opaque :: u64
  msg_ud :: int
  msg_data :: "byte list option"

type_synonym report = "(socket_ret \<times> socket_message) option"

section \<open>The operating system\<close>

datatype errno = EINTR | EAGAIN | EMFILE | ENFILE | EINPROGRESS | Errno nat

text \<open>A socket address: the port and the address, both in network order.\<close>

datatype sockaddr = Sa4 "byte list" "byte list" | Sa6 "byte list" "byte list"

record event =
  ev_s :: "int option"
  ev_read :: bool
  ev_write :: bool
  ev_error :: bool
  ev_eof :: bool

record 'e kernel =
  k_sp_add :: "int \<Rightarrow> 'e \<Rightarrow> bool \<times> 'e"
  k_sp_enable :: "int \<Rightarrow> bool \<Rightarrow> bool \<Rightarrow> 'e \<Rightarrow> bool \<times> 'e"
  k_sp_del :: "int \<Rightarrow> 'e \<Rightarrow> 'e"
  k_sp_wait :: "'e \<Rightarrow> (event list + errno) \<times> 'e"
  k_close :: "int \<Rightarrow> 'e \<Rightarrow> 'e"
  k_shutdown_rd :: "int \<Rightarrow> 'e \<Rightarrow> 'e"
  k_shutdown_wr :: "int \<Rightarrow> 'e \<Rightarrow> 'e"
  k_setsockopt :: "int \<Rightarrow> int \<Rightarrow> int \<Rightarrow> 'e \<Rightarrow> 'e"
  k_tune :: "int \<Rightarrow> 'e \<Rightarrow> 'e"
  k_nonblocking :: "int \<Rightarrow> 'e \<Rightarrow> 'e"
  k_write :: "int \<Rightarrow> byte list \<Rightarrow> 'e \<Rightarrow> (nat + errno) \<times> 'e"
  k_sendto :: "int \<Rightarrow> byte list \<Rightarrow> sockaddr \<Rightarrow> 'e \<Rightarrow> (nat + errno) \<times> 'e"
  k_read :: "int \<Rightarrow> nat \<Rightarrow> 'e \<Rightarrow> (byte list + errno) \<times> 'e"
  k_recvfrom :: "int \<Rightarrow> 'e \<Rightarrow> ((byte list \<times> sockaddr) + errno) \<times> 'e"
  k_accept :: "int \<Rightarrow> 'e \<Rightarrow> ((int \<times> sockaddr) + errno) \<times> 'e"
  k_so_error :: "int \<Rightarrow> 'e \<Rightarrow> errno option \<times> 'e"
  k_peername :: "int \<Rightarrow> 'e \<Rightarrow> sockaddr option \<times> 'e"
  k_sockname :: "int \<Rightarrow> 'e \<Rightarrow> sockaddr option \<times> 'e"
  k_getaddrinfo :: "bool \<Rightarrow> byte list \<Rightarrow> int \<Rightarrow> 'e \<Rightarrow> (sockaddr list + byte list) \<times> 'e"
  k_socket :: "bool \<Rightarrow> sockaddr \<Rightarrow> 'e \<Rightarrow> (int + errno) \<times> 'e"
  k_connect :: "int \<Rightarrow> sockaddr \<Rightarrow> 'e \<Rightarrow> errno option \<times> 'e"
  k_reuseaddr :: "int \<Rightarrow> 'e \<Rightarrow> bool \<times> 'e"
  k_bind :: "int \<Rightarrow> sockaddr \<Rightarrow> 'e \<Rightarrow> bool \<times> 'e"
  k_listen :: "int \<Rightarrow> int \<Rightarrow> 'e \<Rightarrow> bool \<times> 'e"
  k_strerror :: "errno \<Rightarrow> byte list"
  k_inet_ntop :: "sockaddr \<Rightarrow> byte list option"

section \<open>The server\<close>

text \<open>What a \<open>const void *\<close> to be sent points to, and \<open>size_t\<close> with the value \<open>USEROBJECT\<close>.\<close>

datatype object = Obj (obj_addr: addr) (obj_bytes: "byte list")

datatype send_size = Size nat | USEROBJECT

record write_buffer =
  wb_buffer :: object
  wb_base :: addr
  wb_ptr :: nat
  wb_data :: "byte list"
  wb_sz :: nat
  wb_userobject :: bool
  wb_udp_address :: "byte list"

record socket_stat =
  st_rtime :: u64
  st_wtime :: u64
  st_read :: u64
  st_write :: u64

record socket =
  so_opaque :: u64
  so_high :: "write_buffer list"
  so_low :: "write_buffer list"
  so_wb_size :: int
  so_stat :: socket_stat
  so_sending :: nat
  so_fd :: int
  so_id :: int
  so_type :: socket_type
  so_protocol :: byte
  so_reading :: bool
  so_writing :: bool
  so_closing :: bool
  so_udpconnecting :: int
  so_warn_size :: int
  so_size :: int
  so_udp_address :: "byte list"
  so_dw_offset :: nat
  so_dw_buffer :: "object option"
  so_dw_size :: send_size

record request_send =
  rs_id :: int
  rs_sz :: send_size
  rs_buffer :: object

text \<open>The requests that the control pipe carries, by their type letter.\<close>

datatype request =
  Req_R int u64
| Req_S int u64
| Req_B int int u64
| Req_L int int u64
| Req_K int bool u64
| Req_O int int u64 "byte list"
| Req_X
| Req_W int
| Req_D request_send
| Req_P request_send
| Req_A request_send "byte list"
| Req_C int "byte list"
| Req_T int int int
| Req_U int int bool u64

record 'e socket_server =
  ss_time :: u64
  ss_checkctrl :: bool
  ss_alloc_id :: u32
  ss_ev :: "event list"
  ss_event_index :: nat
  ss_soi :: "(object \<Rightarrow> object) option"
  ss_slot :: "int \<Rightarrow> socket"
  ss_ctrl :: "request list"
  ss_freed :: "addr list"
  ss_brk :: addr
  ss_os :: 'e

definition slot_at :: "int \<Rightarrow> 'e socket_server \<Rightarrow> socket" where
  "slot_at i ss = ss_slot ss (HASH_ID i)"

definition set_slot :: "int \<Rightarrow> socket \<Rightarrow> 'e socket_server \<Rightarrow> 'e socket_server" where
  "set_slot i s ss = ss\<lparr>ss_slot := (ss_slot ss)(HASH_ID i := s)\<rparr>"

definition sys :: "('e \<Rightarrow> 'a \<times> 'e) \<Rightarrow> 'e socket_server \<Rightarrow> 'a \<times> 'e socket_server" where
  "sys f ss = (case f (ss_os ss) of (r, e) \<Rightarrow> (r, ss\<lparr>ss_os := e\<rparr>))"

definition do_sys :: "('e \<Rightarrow> 'e) \<Rightarrow> 'e socket_server \<Rightarrow> 'e socket_server" where
  "do_sys f ss = ss\<lparr>ss_os := f (ss_os ss)\<rparr>"

definition free_obj :: "object \<Rightarrow> 'e socket_server \<Rightarrow> 'e socket_server" where
  "free_obj ob ss = ss\<lparr>ss_freed := ss_freed ss @ [obj_addr ob]\<rparr>"

definition socket_null :: socket where
  "socket_null = \<lparr>so_opaque = 0, so_high = [], so_low = [], so_wb_size = 0,
     so_stat = \<lparr>st_rtime = 0, st_wtime = 0, st_read = 0, st_write = 0\<rparr>, so_sending = 0, so_fd = 0, so_id = 0,
     so_type = SOCKET_TYPE_INVALID, so_protocol = 0, so_reading = False, so_writing = False,
     so_closing = False, so_udpconnecting = 0, so_warn_size = 0, so_size = 0, so_udp_address = [],
     so_dw_offset = 0, so_dw_buffer = None, so_dw_size = Size 0\<rparr>"

text \<open>
  \<open>socket_server_create\<close>, when the pipe and the event pool can be made. The fields of a slot
  other than its type, lists and lock are uninitialised; \<open>junk\<close> stands for them.
\<close>

definition socket_server_create :: "u64 \<Rightarrow> (int \<Rightarrow> socket) \<Rightarrow> 'e \<Rightarrow> 'e socket_server" where
  "socket_server_create time junk e =
     \<lparr>ss_time = time, ss_checkctrl = True, ss_alloc_id = 0, ss_ev = [], ss_event_index = 0,
      ss_soi = None,
      ss_slot = (\<lambda>i. (junk i)\<lparr>so_type := SOCKET_TYPE_INVALID, so_high := [], so_low := []\<rparr>),
      ss_ctrl = [], ss_freed = [], ss_brk = 0, ss_os = e\<rparr>"

definition socket_server_updatetime :: "u64 \<Rightarrow> 'e socket_server \<Rightarrow> 'e socket_server" where
  "socket_server_updatetime time ss = ss\<lparr>ss_time := time\<rparr>"

section \<open>One slot\<close>

definition socket_invalid :: "socket \<Rightarrow> int \<Rightarrow> bool" where
  "socket_invalid s i \<longleftrightarrow> so_id s \<noteq> i \<or> so_type s = SOCKET_TYPE_INVALID"

text \<open>
  \<open>reserve_id\<close>: the counter wraps past the largest \<open>int\<close> to 0. \<open>n\<close> is the number of rounds left.
  A lost race for a slot repeats the round with the next id and is not a step of its own here.
\<close>

definition next_id :: "u32 \<Rightarrow> int \<times> u32" where
  "next_id a =
     (let a' = a + 1 in
      if sint a' < 0 then (sint (a' AND 0x7fffffff), a' AND 0x7fffffff) else (sint a', a'))"

fun reserve_loop :: "nat \<Rightarrow> 'e socket_server \<Rightarrow> int \<times> 'e socket_server" where
  "reserve_loop 0 ss = (-1, ss)"
| "reserve_loop (Suc n) ss =
     (case next_id (ss_alloc_id ss) of
        (i, a) \<Rightarrow>
          let ss = ss\<lparr>ss_alloc_id := a\<rparr>; s = slot_at i ss in
          if so_type s = SOCKET_TYPE_INVALID
          then (i, set_slot i (s\<lparr>so_type := SOCKET_TYPE_RESERVE, so_id := i,
                    so_protocol := PROTOCOL_UNKNOWN, so_udpconnecting := 0, so_fd := -1\<rparr>) ss)
          else reserve_loop n ss)"

definition reserve_id :: "'e socket_server \<Rightarrow> int \<times> 'e socket_server" where
  "reserve_id ss = reserve_loop (nat MAX_SOCKET) ss"

definition enable_write :: "'e kernel \<Rightarrow> int \<Rightarrow> bool \<Rightarrow> 'e socket_server \<Rightarrow> bool \<times> 'e socket_server" where
  "enable_write K i enable ss =
     (let s = slot_at i ss in
      if so_writing s \<noteq> enable
      then sys (k_sp_enable K (so_fd s) (so_reading s) enable) (set_slot i (s\<lparr>so_writing := enable\<rparr>) ss)
      else (False, ss))"

definition enable_read :: "'e kernel \<Rightarrow> int \<Rightarrow> bool \<Rightarrow> 'e socket_server \<Rightarrow> bool \<times> 'e socket_server" where
  "enable_read K i enable ss =
     (let s = slot_at i ss in
      if so_reading s \<noteq> enable
      then sys (k_sp_enable K (so_fd s) enable (so_writing s)) (set_slot i (s\<lparr>so_reading := enable\<rparr>) ss)
      else (False, ss))"

text \<open>\<open>new_fd\<close>: the flag tells whether it succeeded.\<close>

definition new_fd ::
  "'e kernel \<Rightarrow> int \<Rightarrow> int \<Rightarrow> byte \<Rightarrow> u64 \<Rightarrow> bool \<Rightarrow> 'e socket_server \<Rightarrow> (bool \<times> 'e socket_server) option" where
  "new_fd K i fd protocol opaque reading ss =
     (let s = slot_at i ss in
      if so_type s \<noteq> SOCKET_TYPE_RESERVE then None
      else case sys (k_sp_add K fd) ss of (failed, ss) \<Rightarrow>
        if failed then Some (False, set_slot i (s\<lparr>so_type := SOCKET_TYPE_INVALID\<rparr>) ss)
        else if so_high s \<noteq> [] \<or> so_low s \<noteq> [] then None
        else
          let s = s\<lparr>so_id := i, so_fd := fd, so_reading := True, so_writing := False, so_closing := False,
                    so_sending := ID_TAG16 i * 2 ^ 16, so_protocol := protocol, so_size := MIN_READ_BUFFER,
                    so_opaque := opaque, so_wb_size := 0, so_warn_size := 0, so_dw_buffer := None,
                    so_dw_size := Size 0,
                    so_stat := \<lparr>st_rtime = 0, st_wtime = 0, st_read = 0, st_write = 0\<rparr>\<rparr> in
          (case enable_read K i reading (set_slot i s ss) of (failed, ss) \<Rightarrow>
             if failed then Some (False, set_slot i ((slot_at i ss)\<lparr>so_type := SOCKET_TYPE_INVALID\<rparr>) ss)
             else Some (True, ss)))"

definition set_type :: "int \<Rightarrow> socket_type \<Rightarrow> 'e socket_server \<Rightarrow> 'e socket_server" where
  "set_type i t ss = set_slot i ((slot_at i ss)\<lparr>so_type := t\<rparr>) ss"

definition write_buffer_free :: "write_buffer \<Rightarrow> 'e socket_server \<Rightarrow> 'e socket_server option" where
  "write_buffer_free wb ss =
     (if wb_userobject wb \<and> ss_soi ss = None then None else Some (free_obj (wb_buffer wb) ss))"

fun free_wb_list :: "write_buffer list \<Rightarrow> 'e socket_server \<Rightarrow> 'e socket_server option" where
  "free_wb_list [] ss = Some ss"
| "free_wb_list (wb # wbs) ss = do {
     ss \<leftarrow> write_buffer_free wb ss;
     free_wb_list wbs ss }"

definition SOCKET_BUFFER_MEMORY :: int where "SOCKET_BUFFER_MEMORY = 0"
definition SOCKET_BUFFER_OBJECT :: int where "SOCKET_BUFFER_OBJECT = 1"
definition SOCKET_BUFFER_RAWPOINTER :: int where "SOCKET_BUFFER_RAWPOINTER = 2"

record socket_sendbuffer =
  sb_id :: int
  sb_type :: int
  sb_buffer :: object
  sb_sz :: nat

definition free_buffer :: "socket_sendbuffer \<Rightarrow> 'e socket_server \<Rightarrow> 'e socket_server option" where
  "free_buffer buf ss =
     (if sb_type buf = SOCKET_BUFFER_MEMORY then Some (free_obj (sb_buffer buf) ss)
      else if sb_type buf = SOCKET_BUFFER_OBJECT
        then if ss_soi ss = None then None else Some (free_obj (sb_buffer buf) ss)
      else Some ss)"

text \<open>The message that \<open>force_close\<close> and others leave in \<open>result\<close>.\<close>

definition close_message :: "socket \<Rightarrow> socket_message" where
  "close_message s = \<lparr>msg_id = so_id s, msg_opaque = so_opaque s, msg_ud = 0, msg_data = None\<rparr>"

definition free_dw :: "int \<Rightarrow> 'e socket_server \<Rightarrow> 'e socket_server option" where
  "free_dw i ss =
     (let s = slot_at i ss in
      case so_dw_buffer s of
        None \<Rightarrow> Some ss
      | Some ob \<Rightarrow> do {
          ss \<leftarrow> free_buffer \<lparr>sb_id = so_id s,
                   sb_type = (if so_dw_size s = USEROBJECT then SOCKET_BUFFER_OBJECT else SOCKET_BUFFER_MEMORY),
                   sb_buffer = ob, sb_sz = (case so_dw_size s of Size n \<Rightarrow> n | USEROBJECT \<Rightarrow> 0)\<rparr> ss;
          Some (set_slot i (s\<lparr>so_dw_buffer := None\<rparr>) ss) })"

definition force_close ::
  "'e kernel \<Rightarrow> int \<Rightarrow> 'e socket_server \<Rightarrow> (socket_message \<times> 'e socket_server) option" where
  "force_close K i ss =
     (let s = slot_at i ss; result = close_message s; type = so_type s in
      if type = SOCKET_TYPE_INVALID then Some (result, ss)
      else if type = SOCKET_TYPE_RESERVE then None
      else do {
        ss \<leftarrow> free_wb_list (so_high s) ss;
        ss \<leftarrow> free_wb_list (so_low s) ss;
        let s = s\<lparr>so_high := [], so_low := []\<rparr>;
        let ss = do_sys (k_sp_del K (so_fd s)) (set_slot i s ss);
        let ss = (if type \<noteq> SOCKET_TYPE_BIND then do_sys (k_close K (so_fd s)) ss else ss);
        ss \<leftarrow> free_dw i (set_type i SOCKET_TYPE_INVALID ss);
        Some (result, ss) })"

text \<open>\<open>socket_server_release\<close>: the loop over the slots.\<close>

fun release_slots_from :: "'e kernel \<Rightarrow> nat \<Rightarrow> nat \<Rightarrow> 'e socket_server \<Rightarrow> 'e socket_server option" where
  "release_slots_from K i 0 ss = Some ss"
| "release_slots_from K i (Suc n) ss =
     (if so_type (ss_slot ss (int i)) \<noteq> SOCKET_TYPE_RESERVE
      then do {
        (_, ss) \<leftarrow> force_close K (int i) ss;
        release_slots_from K (Suc i) n ss }
      else release_slots_from K (Suc i) n ss)"

definition socket_server_release :: "'e kernel \<Rightarrow> 'e socket_server \<Rightarrow> 'e socket_server option" where
  "socket_server_release K ss = release_slots_from K 0 (nat MAX_SOCKET) ss"

definition stat_read :: "int \<Rightarrow> int \<Rightarrow> 'e socket_server \<Rightarrow> 'e socket_server" where
  "stat_read i n ss =
     (let s = slot_at i ss; st = so_stat s in
      set_slot i (s\<lparr>so_stat := st\<lparr>st_read := st_read st + word_of_int n, st_rtime := ss_time ss\<rparr>\<rparr>) ss)"

definition stat_write :: "int \<Rightarrow> int \<Rightarrow> 'e socket_server \<Rightarrow> 'e socket_server" where
  "stat_write i n ss =
     (let s = slot_at i ss; st = so_stat s in
      set_slot i (s\<lparr>so_stat := st\<lparr>st_write := st_write st + word_of_int n, st_wtime := ss_time ss\<rparr>\<rparr>) ss)"

definition report_error :: "int \<Rightarrow> byte list \<Rightarrow> 'e socket_server \<Rightarrow> report" where
  "report_error i err ss = Some (SOCKET_ERR, (close_message (slot_at i ss))\<lparr>msg_data := Some err\<rparr>)"

text \<open>What is left to send.\<close>

definition send_buffer_empty :: "socket \<Rightarrow> bool" where
  "send_buffer_empty s \<longleftrightarrow> so_high s = [] \<and> so_low s = []"

definition nomore_sending_data :: "socket \<Rightarrow> bool" where
  "nomore_sending_data s \<longleftrightarrow>
     send_buffer_empty s \<and> so_dw_buffer s = None \<and> so_sending s mod 2 ^ 16 = 0
     \<or> so_type s = SOCKET_TYPE_HALFCLOSE_WRITE"

definition halfclose_read :: "socket \<Rightarrow> bool" where
  "halfclose_read s \<longleftrightarrow> so_type s = SOCKET_TYPE_HALFCLOSE_READ"

definition close_read :: "'e kernel \<Rightarrow> int \<Rightarrow> 'e socket_server \<Rightarrow> socket_message \<times> 'e socket_server" where
  "close_read K i ss =
     (let ss = set_type i SOCKET_TYPE_HALFCLOSE_READ ss;
          (_, ss) = enable_read K i False ss;
          ss = do_sys (k_shutdown_rd K (so_fd (slot_at i ss))) ss in
      (close_message (slot_at i ss), ss))"

end
