(* ===== verification/Socket_Send.thy ===== *)
theory Socket_Send
  imports Socket_State
begin

text \<open>
  The socket server, second part: sending. The write buffers of a slot, the loops that write them to
  the socket, the requests to send, and the direct write of the calling thread. The section of a
  function under the lock of the slot is one step. A \<open>for (;;)\<close> around a call that may be
  interrupted is a \<open>partial_function\<close>: it may not end.
\<close>

section \<open>Objects to send\<close>

record send_object =
  snd_base :: addr
  snd_bytes :: "byte list"

text \<open>\<open>send_object_init\<close>, with its result: whether the object is a user object.\<close>

definition send_object_init ::
  "'e socket_server \<Rightarrow> object \<Rightarrow> send_size \<Rightarrow> (bool \<times> send_object) option" where
  "send_object_init ss ob sz =
     (case sz of
        USEROBJECT \<Rightarrow> do {
          soi \<leftarrow> ss_soi ss;
          Some (True, \<lparr>snd_base = obj_addr (soi ob), snd_bytes = obj_bytes (soi ob)\<rparr>) }
      | Size n \<Rightarrow>
          if n \<le> length (obj_bytes ob)
          then Some (False, \<lparr>snd_base = obj_addr ob, snd_bytes = take n (obj_bytes ob)\<rparr>)
          else None)"

definition send_object_init_from_sendbuffer ::
  "'e socket_server \<Rightarrow> socket_sendbuffer \<Rightarrow> send_object option" where
  "send_object_init_from_sendbuffer ss buf =
     (if sb_type buf = SOCKET_BUFFER_MEMORY
        then map_option snd (send_object_init ss (sb_buffer buf) (Size (sb_sz buf)))
      else if sb_type buf = SOCKET_BUFFER_OBJECT
        then map_option snd (send_object_init ss (sb_buffer buf) USEROBJECT)
      else if sb_type buf = SOCKET_BUFFER_RAWPOINTER
        then if sb_sz buf \<le> length (obj_bytes (sb_buffer buf))
             then Some \<lparr>snd_base = obj_addr (sb_buffer buf), snd_bytes = take (sb_sz buf) (obj_bytes (sb_buffer buf))\<rparr>
             else None
      else None)"

text \<open>\<open>clone_buffer\<close>: a raw pointer is copied to fresh memory, the others change their owner.\<close>

definition clone_buffer ::
  "socket_sendbuffer \<Rightarrow> 'e socket_server \<Rightarrow> ((object \<times> send_size) \<times> 'e socket_server) option" where
  "clone_buffer buf ss =
     (if sb_type buf = SOCKET_BUFFER_MEMORY then Some ((sb_buffer buf, Size (sb_sz buf)), ss)
      else if sb_type buf = SOCKET_BUFFER_OBJECT then Some ((sb_buffer buf, USEROBJECT), ss)
      else if sb_type buf = SOCKET_BUFFER_RAWPOINTER
        then if sb_sz buf \<le> length (obj_bytes (sb_buffer buf))
             then Some ((Obj (ss_brk ss) (take (sb_sz buf) (obj_bytes (sb_buffer buf))), Size (sb_sz buf)),
                        ss\<lparr>ss_brk := ss_brk ss + 1\<rparr>)
             else None
      else None)"

text \<open>The \<open>free_func\<close> of a send object.\<close>

definition free_size :: "object \<Rightarrow> send_size \<Rightarrow> 'e socket_server \<Rightarrow> 'e socket_server option" where
  "free_size ob sz ss = (if sz = USEROBJECT \<and> ss_soi ss = None then None else Some (free_obj ob ss))"

section \<open>The lists of a slot\<close>

text \<open>A slot has two lists; \<open>True\<close> is the one with high priority.\<close>

definition wlist :: "bool \<Rightarrow> socket \<Rightarrow> write_buffer list" where
  "wlist high s = (if high then so_high s else so_low s)"

definition set_wlist :: "bool \<Rightarrow> write_buffer list \<Rightarrow> socket \<Rightarrow> socket" where
  "set_wlist high l s = (if high then s\<lparr>so_high := l\<rparr> else s\<lparr>so_low := l\<rparr>)"

definition close_write ::
  "'e kernel \<Rightarrow> int \<Rightarrow> errno \<Rightarrow> 'e socket_server \<Rightarrow> (report \<times> 'e socket_server) option" where
  "close_write K i err ss =
     (let s = slot_at i ss in
      if so_closing s \<or> so_type s = SOCKET_TYPE_HALFCLOSE_READ then do {
        (result, ss) \<leftarrow> force_close K i ss;
        Some (Some (SOCKET_RST, result), ss) }
      else if so_type s = SOCKET_TYPE_HALFCLOSE_WRITE then Some (Some (SOCKET_RST, close_message s), ss)
      else
        let ss = do_sys (k_shutdown_wr K (so_fd s)) (set_type i SOCKET_TYPE_HALFCLOSE_WRITE ss);
            (_, ss) = enable_write K i False ss in
        Some (report_error i (k_strerror K err) ss, ss))"

definition wb_rest :: "write_buffer \<Rightarrow> byte list" where
  "wb_rest wb = take (wb_sz wb) (drop (wb_ptr wb) (wb_data wb))"

text \<open>The outer loop of \<open>send_list_tcp\<close> and the inner one around \<open>write\<close> are one recursion.\<close>

partial_function (option) send_list_tcp ::
  "'e kernel \<Rightarrow> int \<Rightarrow> bool \<Rightarrow> 'e socket_server \<Rightarrow> (report \<times> 'e socket_server) option" where
  "send_list_tcp K i high ss =
     (case wlist high (slot_at i ss) of
        [] \<Rightarrow> Some (None, ss)
      | tmp # rest \<Rightarrow>
          (case sys (k_write K (so_fd (slot_at i ss)) (wb_rest tmp)) ss of
             (Inr err, ss) \<Rightarrow>
               if err = EINTR then send_list_tcp K i high ss
               else if err = EAGAIN then Some (None, ss)
               else close_write K i err ss
           | (Inl sz, ss) \<Rightarrow>
               let ss = stat_write i (int sz) ss; s = slot_at i ss;
                   s = s\<lparr>so_wb_size := so_wb_size s - int sz\<rparr> in
               if sz \<noteq> wb_sz tmp
               then Some (None, set_slot i (set_wlist high
                      (tmp\<lparr>wb_ptr := wb_ptr tmp + sz, wb_sz := wb_sz tmp - sz\<rparr> # rest) s) ss)
               else do {
                 ss \<leftarrow> write_buffer_free tmp (set_slot i (set_wlist high rest s) ss);
                 send_list_tcp K i high ss }))"

text \<open>The address that the 19 bytes of a UDP buffer stand for; none if the family is not the socket's.\<close>

definition udp_socket_address :: "socket \<Rightarrow> byte list \<Rightarrow> sockaddr option" where
  "udp_socket_address s address =
     (if address = [] \<or> hd address \<noteq> so_protocol s then None
      else if so_protocol s = PROTOCOL_UDP then Some (Sa4 (take 2 (drop 1 address)) (take 4 (drop 3 address)))
      else if so_protocol s = PROTOCOL_UDPv6 then Some (Sa6 (take 2 (drop 1 address)) (take 16 (drop 3 address)))
      else None)"

definition drop_udp :: "int \<Rightarrow> bool \<Rightarrow> 'e socket_server \<Rightarrow> 'e socket_server option" where
  "drop_udp i high ss =
     (let s = slot_at i ss in
      case wlist high s of
        [] \<Rightarrow> None
      | tmp # rest \<Rightarrow>
          write_buffer_free tmp
            (set_slot i (set_wlist high rest (s\<lparr>so_wb_size := so_wb_size s - int (wb_sz tmp)\<rparr>)) ss))"

partial_function (option) send_list_udp ::
  "'e kernel \<Rightarrow> int \<Rightarrow> bool \<Rightarrow> 'e socket_server \<Rightarrow> (report \<times> 'e socket_server) option" where
  "send_list_udp K i high ss =
     (let s = slot_at i ss in
      case wlist high s of
        [] \<Rightarrow> Some (None, ss)
      | tmp # rest \<Rightarrow>
          (case udp_socket_address s (wb_udp_address tmp) of
             None \<Rightarrow> map_option (\<lambda>ss. (None, ss)) (drop_udp i high ss)
           | Some sa \<Rightarrow>
               (case sys (k_sendto K (so_fd s) (wb_rest tmp) sa) ss of
                  (Inr err, ss) \<Rightarrow>
                    if err = EINTR \<or> err = EAGAIN then Some (None, ss)
                    else map_option (\<lambda>ss. (None, ss)) (drop_udp i high ss)
                | (Inl n, ss) \<Rightarrow> do {
                    ss \<leftarrow> drop_udp i high (stat_write i (int (wb_sz tmp)) ss);
                    send_list_udp K i high ss })))"

definition send_list ::
  "'e kernel \<Rightarrow> int \<Rightarrow> bool \<Rightarrow> 'e socket_server \<Rightarrow> (report \<times> 'e socket_server) option" where
  "send_list K i high ss =
     (if so_protocol (slot_at i ss) = PROTOCOL_TCP then send_list_tcp K i high ss
      else send_list_udp K i high ss)"

text \<open>The head of a list has been sent in part: its pointer is not where its buffer starts.\<close>

fun list_uncomplete :: "write_buffer list \<Rightarrow> bool" where
  "list_uncomplete [] = False"
| "list_uncomplete (wb # wbs) = (wb_base wb \<noteq> obj_addr (wb_buffer wb) \<or> wb_ptr wb \<noteq> 0)"

definition raise_uncomplete :: "socket \<Rightarrow> socket option" where
  "raise_uncomplete s =
     (case so_low s of
        [] \<Rightarrow> None
      | tmp # rest \<Rightarrow> if so_high s \<noteq> [] then None else Some (s\<lparr>so_high := [tmp], so_low := rest\<rparr>))"

section \<open>Sending the buffers\<close>

text \<open>Step 4 of \<open>send_buffer_\<close>: both lists are empty.\<close>

definition send_done :: "'e kernel \<Rightarrow> int \<Rightarrow> 'e socket_server \<Rightarrow> (report \<times> 'e socket_server) option" where
  "send_done K i ss =
     (let s = slot_at i ss in
      if \<not> (send_buffer_empty s \<and> so_wb_size s = 0) then None
      else if so_closing s then do {
        (_, ss) \<leftarrow> force_close K i ss;
        Some (None, ss) }
      else case enable_write K i False ss of (err, ss) \<Rightarrow>
        if err then Some (report_error i (map of_char ''disable write failed'') ss, ss)
        else
          let s = slot_at i ss in
          if so_warn_size s > 0
          then let ss = set_slot i (s\<lparr>so_warn_size := 0\<rparr>) ss in
               Some (Some (SOCKET_WARNING, close_message s), ss)
          else Some (None, ss))"

text \<open>A result of \<open>send_list\<close> other than -1: an error is passed on, a reset is not.\<close>

definition pass_error :: "report \<Rightarrow> report" where
  "pass_error r = (case r of Some (SOCKET_ERR, m) \<Rightarrow> r | _ \<Rightarrow> None)"

definition send_buffer_' ::
  "'e kernel \<Rightarrow> int \<Rightarrow> 'e socket_server \<Rightarrow> (report \<times> 'e socket_server) option" where
  "send_buffer_' K i ss =
     (if list_uncomplete (so_low (slot_at i ss)) then None
      else do {
        (ret, ss) \<leftarrow> send_list K i True ss;
        if ret \<noteq> None then Some (pass_error ret, ss)
        else if so_high (slot_at i ss) \<noteq> [] then Some (None, ss)
        else if so_low (slot_at i ss) \<noteq> [] then do {
          (ret, ss) \<leftarrow> send_list K i False ss;
          if ret \<noteq> None then Some (pass_error ret, ss)
          else if list_uncomplete (so_low (slot_at i ss)) then do {
            s \<leftarrow> raise_uncomplete (slot_at i ss);
            Some (None, set_slot i s ss) }
          else if so_low (slot_at i ss) \<noteq> [] then Some (None, ss)
          else send_done K i ss }
        else send_done K i ss })"

text \<open>The buffer of an unfinished direct write goes before the head of the high list.\<close>

definition take_dw :: "int \<Rightarrow> 'e socket_server \<Rightarrow> 'e socket_server option" where
  "take_dw i ss =
     (let s = slot_at i ss in
      case so_dw_buffer s of
        None \<Rightarrow> Some ss
      | Some ob \<Rightarrow> do {
          (user, so) \<leftarrow> send_object_init ss ob (so_dw_size s);
          let sz = length (snd_bytes so) - so_dw_offset s;
          let buf = \<lparr>wb_buffer = ob, wb_base = snd_base so, wb_ptr = so_dw_offset s, wb_data = snd_bytes so,
                     wb_sz = sz, wb_userobject = user, wb_udp_address = []\<rparr>;
          Some (set_slot i (s\<lparr>so_wb_size := so_wb_size s + int sz, so_high := buf # so_high s,
                              so_dw_buffer := None\<rparr>) ss) })"

definition send_buffer ::
  "'e kernel \<Rightarrow> int \<Rightarrow> 'e socket_server \<Rightarrow> (report \<times> 'e socket_server) option" where
  "send_buffer K i ss = do {
     ss \<leftarrow> take_dw i ss;
     send_buffer_' K i ss }"

section \<open>Requests to send\<close>

definition append_sendbuffer_' ::
  "int \<Rightarrow> bool \<Rightarrow> request_send \<Rightarrow> byte list \<Rightarrow> 'e socket_server \<Rightarrow> 'e socket_server option" where
  "append_sendbuffer_' i high request address ss = do {
     (user, so) \<leftarrow> send_object_init ss (rs_buffer request) (rs_sz request);
     let buf = \<lparr>wb_buffer = rs_buffer request, wb_base = snd_base so, wb_ptr = 0, wb_data = snd_bytes so,
                wb_sz = length (snd_bytes so), wb_userobject = user, wb_udp_address = address\<rparr>;
     let s = slot_at i ss;
     Some (set_slot i (set_wlist high (wlist high s @ [buf])
             (s\<lparr>so_wb_size := so_wb_size s + int (length (snd_bytes so))\<rparr>)) ss) }"

definition append_sendbuffer :: "int \<Rightarrow> request_send \<Rightarrow> 'e socket_server \<Rightarrow> 'e socket_server option" where
  "append_sendbuffer i request ss = append_sendbuffer_' i True request [] ss"

definition append_sendbuffer_low :: "int \<Rightarrow> request_send \<Rightarrow> 'e socket_server \<Rightarrow> 'e socket_server option" where
  "append_sendbuffer_low i request ss = append_sendbuffer_' i False request [] ss"

definition append_sendbuffer_udp ::
  "int \<Rightarrow> bool \<Rightarrow> request_send \<Rightarrow> byte list \<Rightarrow> 'e socket_server \<Rightarrow> 'e socket_server option" where
  "append_sendbuffer_udp i high request address ss = append_sendbuffer_' i high request address ss"

definition trigger_write :: "'e kernel \<Rightarrow> int \<Rightarrow> 'e socket_server \<Rightarrow> report \<times> 'e socket_server" where
  "trigger_write K i ss =
     (if socket_invalid (slot_at i ss) i then (None, ss)
      else case enable_write K i True ss of (err, ss) \<Rightarrow>
        (if err then report_error i (map of_char ''enable write failed'') ss else None, ss))"

text \<open>The end of \<open>send_socket\<close>: a warning when much is waiting, at doubling sizes, in KB rounded up.\<close>

definition wb_warning :: "int \<Rightarrow> 'e socket_server \<Rightarrow> report \<times> 'e socket_server" where
  "wb_warning i ss =
     (let s = slot_at i ss in
      if so_wb_size s \<ge> WARNING_SIZE \<and> so_wb_size s \<ge> so_warn_size s
      then (Some (SOCKET_WARNING, (close_message s)\<lparr>msg_ud :=
              (if so_wb_size s mod 1024 = 0 then so_wb_size s div 1024 else so_wb_size s div 1024 + 1)\<rparr>),
            set_slot i (s\<lparr>so_warn_size := (if so_warn_size s = 0 then WARNING_SIZE * 2 else so_warn_size s * 2)\<rparr>) ss)
      else (None, ss))"

text \<open>
  \<open>send_socket\<close> on an empty socket: TCP data wait in the high list, a datagram is sent at once.
  The flag tells whether the data wait.
\<close>

definition send_first ::
  "'e kernel \<Rightarrow> request_send \<Rightarrow> bool \<Rightarrow> byte list option \<Rightarrow> 'e socket_server \<Rightarrow> (bool \<times> 'e socket_server) option" where
  "send_first K request high address ss =
     (let i = rs_id request; s = slot_at i ss in
      if so_protocol s = PROTOCOL_TCP then map_option (\<lambda>ss. (True, ss)) (append_sendbuffer i request ss)
      else do {
        let address = (case address of Some a \<Rightarrow> a | None \<Rightarrow> so_udp_address s);
        (_, so) \<leftarrow> send_object_init ss (rs_buffer request) (rs_sz request);
        case udp_socket_address s address of
          None \<Rightarrow> map_option (\<lambda>ss. (False, ss)) (free_size (rs_buffer request) (rs_sz request) ss)
        | Some sa \<Rightarrow>
            (case sys (k_sendto K (so_fd s) (snd_bytes so) sa) ss of (n, ss) \<Rightarrow>
               if n = Inl (length (snd_bytes so))
               then map_option (\<lambda>ss. (False, ss))
                      (free_size (rs_buffer request) (rs_sz request) (stat_write i (int (length (snd_bytes so))) ss))
               else map_option (\<lambda>ss. (True, ss)) (append_sendbuffer_udp i high request address ss)) })"

definition send_socket ::
  "'e kernel \<Rightarrow> request_send \<Rightarrow> bool \<Rightarrow> byte list option \<Rightarrow> 'e socket_server
     \<Rightarrow> (report \<times> 'e socket_server) option" where
  "send_socket K request high address ss = do {
     let i = rs_id request;
     let s = slot_at i ss;
     let type = so_type s;
     _ \<leftarrow> send_object_init ss (rs_buffer request) (rs_sz request);
     if type = SOCKET_TYPE_INVALID \<or> so_id s \<noteq> i \<or> type = SOCKET_TYPE_HALFCLOSE_WRITE
        \<or> type = SOCKET_TYPE_PACCEPT \<or> so_closing s
        \<or> type = SOCKET_TYPE_PLISTEN \<or> type = SOCKET_TYPE_LISTEN
     then do {
       ss \<leftarrow> free_size (rs_buffer request) (rs_sz request) ss;
       Some (None, ss) }
     else if send_buffer_empty s then do {
       (waits, ss) \<leftarrow> send_first K request high address ss;
       if \<not> waits then Some (None, ss)
       else case enable_write K i True ss of (err, ss) \<Rightarrow>
         if err then Some (report_error i (map of_char ''enable write failed'') ss, ss)
         else Some (wb_warning i ss) }
     else do {
       ss \<leftarrow> (if so_protocol s = PROTOCOL_TCP
              then if high then append_sendbuffer i request ss else append_sendbuffer_low i request ss
              else append_sendbuffer_udp i high request
                     (case address of Some a \<Rightarrow> a | None \<Rightarrow> so_udp_address s) ss);
       Some (wb_warning i ss) } }"

section \<open>References of requests in the pipe\<close>

text \<open>The counter in the low 16 bits waits when it is full, which is \<open>None\<close> here.\<close>

definition inc_sending_ref :: "int \<Rightarrow> 'e socket_server \<Rightarrow> 'e socket_server option" where
  "inc_sending_ref i ss =
     (let s = slot_at i ss in
      if so_protocol s \<noteq> PROTOCOL_TCP \<or> so_sending s div 2 ^ 16 \<noteq> ID_TAG16 i then Some ss
      else if so_sending s mod 2 ^ 16 = 0xffff then None
      else Some (set_slot i (s\<lparr>so_sending := so_sending s + 1\<rparr>) ss))"

definition dec_sending_ref :: "int \<Rightarrow> 'e socket_server \<Rightarrow> 'e socket_server option" where
  "dec_sending_ref i ss =
     (let s = slot_at i ss in
      if so_id s = i \<and> so_protocol s = PROTOCOL_TCP then
        if so_sending s mod 2 ^ 16 = 0 then None
        else Some (set_slot i (s\<lparr>so_sending := so_sending s - 1\<rparr>) ss)
      else Some ss)"

definition send_request :: "request \<Rightarrow> 'e socket_server \<Rightarrow> 'e socket_server" where
  "send_request r ss = ss\<lparr>ss_ctrl := ss_ctrl ss @ [r]\<rparr>"

section \<open>The calls of other threads\<close>

definition can_direct_write :: "socket \<Rightarrow> int \<Rightarrow> bool" where
  "can_direct_write s i \<longleftrightarrow> so_id s = i \<and> nomore_sending_data s \<and> so_type s = SOCKET_TYPE_CONNECTED
     \<and> so_udpconnecting s = 0"

text \<open>The bytes written at once; an error counts as none. \<open>None\<close> is a missing UDP address.\<close>

definition direct_write ::
  "'e kernel \<Rightarrow> int \<Rightarrow> byte list \<Rightarrow> 'e socket_server \<Rightarrow> nat option \<times> 'e socket_server" where
  "direct_write K i bs ss =
     (let s = slot_at i ss; n = (\<lambda>r. case r of Inl n \<Rightarrow> n | Inr _ \<Rightarrow> 0) in
      if so_protocol s = PROTOCOL_TCP
      then (case sys (k_write K (so_fd s) bs) ss of (r, ss) \<Rightarrow> (Some (n r), ss))
      else (case udp_socket_address s (so_udp_address s) of
              None \<Rightarrow> (None, ss)
            | Some sa \<Rightarrow> (case sys (k_sendto K (so_fd s) bs sa) ss of (r, ss) \<Rightarrow> (Some (n r), ss))))"

definition socket_server_send ::
  "'e kernel \<Rightarrow> socket_sendbuffer \<Rightarrow> 'e socket_server \<Rightarrow> (int \<times> 'e socket_server) option" where
  "socket_server_send K buf ss =
     (let i = sb_id buf; s = slot_at i ss in
      if socket_invalid s i \<or> so_closing s then map_option (\<lambda>ss. (-1, ss)) (free_buffer buf ss)
      else if can_direct_write s i then do {
        so \<leftarrow> send_object_init_from_sendbuffer ss buf;
        (case direct_write K i (snd_bytes so) ss of
           (None, ss) \<Rightarrow> map_option (\<lambda>ss. (-1, ss)) (free_buffer buf ss)
         | (Some n, ss) \<Rightarrow>
             let ss = stat_write i (int n) ss in
             if n = length (snd_bytes so) then map_option (\<lambda>ss. (0, ss)) (free_buffer buf ss)
             else do {
               ((ob, sz), ss) \<leftarrow> clone_buffer buf ss;
               let ss = set_slot i ((slot_at i ss)\<lparr>so_dw_buffer := Some ob, so_dw_size := sz, so_dw_offset := n\<rparr>) ss;
               Some (0, send_request (Req_W i) ss) }) }
      else do {
        ss \<leftarrow> inc_sending_ref i ss;
        ((ob, sz), ss) \<leftarrow> clone_buffer buf ss;
        Some (0, send_request (Req_D \<lparr>rs_id = i, rs_sz = sz, rs_buffer = ob\<rparr>) ss) })"

definition socket_server_send_lowpriority ::
  "socket_sendbuffer \<Rightarrow> 'e socket_server \<Rightarrow> (int \<times> 'e socket_server) option" where
  "socket_server_send_lowpriority buf ss =
     (let i = sb_id buf in
      if socket_invalid (slot_at i ss) i then map_option (\<lambda>ss. (-1, ss)) (free_buffer buf ss)
      else do {
        ss \<leftarrow> inc_sending_ref i ss;
        ((ob, sz), ss) \<leftarrow> clone_buffer buf ss;
        Some (0, send_request (Req_P \<lparr>rs_id = i, rs_sz = sz, rs_buffer = ob\<rparr>) ss) })"

text \<open>The size of a UDP address by its first byte.\<close>

definition udp_address_size :: "byte \<Rightarrow> nat option" where
  "udp_address_size t =
     (if t = PROTOCOL_UDP then Some (1 + 2 + 4)
      else if t = PROTOCOL_UDPv6 then Some (1 + 2 + 16) else None)"

definition socket_server_udp_send ::
  "'e kernel \<Rightarrow> byte list \<Rightarrow> socket_sendbuffer \<Rightarrow> 'e socket_server \<Rightarrow> (int \<times> 'e socket_server) option" where
  "socket_server_udp_send K address buf ss =
     (let i = sb_id buf; s = slot_at i ss in
      if socket_invalid s i then map_option (\<lambda>ss. (-1, ss)) (free_buffer buf ss)
      else if address = [] then None
      else case udp_address_size (hd address) of
        None \<Rightarrow> map_option (\<lambda>ss. (-1, ss)) (free_buffer buf ss)
      | Some addrsz \<Rightarrow>
          if length address < addrsz then None else
          let request = (\<lambda>ss. do {
                ((ob, sz), ss) \<leftarrow> clone_buffer buf ss;
                Some (0, send_request (Req_A \<lparr>rs_id = i, rs_sz = sz, rs_buffer = ob\<rparr> (take addrsz address)) ss) }) in
          if can_direct_write s i then do {
            so \<leftarrow> send_object_init_from_sendbuffer ss buf;
            case udp_socket_address s address of
              None \<Rightarrow> map_option (\<lambda>ss. (-1, ss)) (free_buffer buf ss)
            | Some sa \<Rightarrow>
                (case sys (k_sendto K (so_fd s) (snd_bytes so) sa) ss of
                   (Inl n, ss) \<Rightarrow> map_option (\<lambda>ss. (0, ss)) (free_buffer buf (stat_write i (int n) ss))
                 | (Inr _, ss) \<Rightarrow> request ss) }
          else request ss)"

end
