(* ===== verification/Socket_Ctrl.thy ===== *)
theory Socket_Ctrl
  imports Socket_Send
begin

text \<open>
  The socket server, third part: the requests of the control pipe, made by the calls of other threads
  and carried out one at a time by the socket thread (\<open>ctrl_cmd\<close>). The pipe is a queue, since a
  request is written in one piece.
\<close>

abbreviation msgtext :: "string \<Rightarrow> byte list" where
  "msgtext s \<equiv> map of_char s"

section \<open>Carrying out a request\<close>

text \<open>
  The loop over the addresses in \<open>open_socket\<close>: the socket and the state of its connection, or the
  last error. \<open>connect\<close> that is in progress counts as a success that is not there yet.
\<close>

fun connect_loop ::
  "'e kernel \<Rightarrow> sockaddr list \<Rightarrow> errno \<Rightarrow> 'e socket_server \<Rightarrow> ((int \<times> bool \<times> sockaddr) + errno) \<times> 'e socket_server" where
  "connect_loop K [] err ss = (Inr err, ss)"
| "connect_loop K (a # as) err ss =
     (case sys (k_socket K True a) ss of
        (Inr err, ss) \<Rightarrow> connect_loop K as err ss
      | (Inl sock, ss) \<Rightarrow>
          let ss = do_sys (k_nonblocking K sock) (do_sys (k_tune K sock) ss) in
          (case sys (k_connect K sock a) ss of
             (None, ss) \<Rightarrow> (Inl (sock, True, a), ss)
           | (Some err, ss) \<Rightarrow>
               if err = EINPROGRESS then (Inl (sock, False, a), ss)
               else connect_loop K as err (do_sys (k_close K sock) ss)))"

definition open_failed :: "int \<Rightarrow> u64 \<Rightarrow> byte list \<Rightarrow> 'e socket_server \<Rightarrow> report \<times> 'e socket_server" where
  "open_failed i opaque err ss =
     (Some (SOCKET_ERR, \<lparr>msg_id = i, msg_opaque = opaque, msg_ud = 0, msg_data = Some err\<rparr>),
      set_type i SOCKET_TYPE_INVALID ss)"

text \<open>\<open>err0\<close> is what \<open>errno\<close> holds before, for an empty list of addresses.\<close>

definition open_socket ::
  "'e kernel \<Rightarrow> errno \<Rightarrow> int \<Rightarrow> int \<Rightarrow> u64 \<Rightarrow> byte list \<Rightarrow> 'e socket_server \<Rightarrow> (report \<times> 'e socket_server) option" where
  "open_socket K err0 i port opaque host ss =
     (case sys (k_getaddrinfo K True host port) ss of
        (Inr err, ss) \<Rightarrow> Some (open_failed i opaque err ss)
      | (Inl as, ss) \<Rightarrow>
          (case connect_loop K as err0 ss of
             (Inr err, ss) \<Rightarrow> Some (open_failed i opaque (k_strerror K err) ss)
           | (Inl (sock, connected, a), ss) \<Rightarrow> do {
               (ok, ss) \<leftarrow> new_fd K i sock PROTOCOL_TCP opaque True ss;
               if \<not> ok then Some (open_failed i opaque (msgtext ''reach skynet socket number limit'')
                                   (do_sys (k_close K sock) ss))
               else if connected then
                 Some (Some (SOCKET_OPEN, \<lparr>msg_id = i, msg_opaque = opaque, msg_ud = 0, msg_data = k_inet_ntop K a\<rparr>),
                       set_type i SOCKET_TYPE_CONNECTED ss)
               else case enable_write K i True ss of (err, ss) \<Rightarrow>
                 if err then Some (open_failed i opaque (msgtext ''enable write failed'') (do_sys (k_close K sock) ss))
                 else Some (None, set_type i SOCKET_TYPE_CONNECTING ss) }))"

definition listen_socket ::
  "'e kernel \<Rightarrow> int \<Rightarrow> int \<Rightarrow> u64 \<Rightarrow> 'e socket_server \<Rightarrow> (report \<times> 'e socket_server) option" where
  "listen_socket K i listen_fd opaque ss = do {
     (ok, ss) \<leftarrow> new_fd K i listen_fd PROTOCOL_TCP opaque False ss;
     if ok then Some (None, set_type i SOCKET_TYPE_PLISTEN ss)
     else Some (open_failed i opaque (msgtext ''reach skynet socket number limit'') (do_sys (k_close K listen_fd) ss)) }"

definition close_socket ::
  "'e kernel \<Rightarrow> int \<Rightarrow> bool \<Rightarrow> 'e socket_server \<Rightarrow> (report \<times> 'e socket_server) option" where
  "close_socket K i shutdown ss =
     (let s = slot_at i ss in
      if socket_invalid s i then Some (None, ss)
      else
        let shutdown_read = halfclose_read s in
        if shutdown \<or> nomore_sending_data s then do {
          (result, ss) \<leftarrow> force_close K i ss;
          Some (if shutdown_read then None else Some (SOCKET_CLOSE, result), ss) }
        else
          let ss = set_slot i (s\<lparr>so_closing := True\<rparr>) ss in
          if \<not> shutdown_read
          then (case close_read K i ss of (result, ss) \<Rightarrow> Some (Some (SOCKET_CLOSE, result), ss))
          else Some (None, ss))"

definition bind_socket ::
  "'e kernel \<Rightarrow> int \<Rightarrow> int \<Rightarrow> u64 \<Rightarrow> 'e socket_server \<Rightarrow> (report \<times> 'e socket_server) option" where
  "bind_socket K i fd opaque ss = do {
     let result = \<lparr>msg_id = i, msg_opaque = opaque, msg_ud = 0, msg_data = None\<rparr>;
     (ok, ss) \<leftarrow> new_fd K i fd PROTOCOL_TCP opaque True ss;
     if \<not> ok
     then Some (Some (SOCKET_ERR, result\<lparr>msg_data := Some (msgtext ''reach skynet socket number limit'')\<rparr>), ss)
     else Some (Some (SOCKET_OPEN, result\<lparr>msg_data := Some (msgtext ''binding'')\<rparr>),
                set_type i SOCKET_TYPE_BIND (do_sys (k_nonblocking K fd) ss)) }"

definition resume_socket ::
  "'e kernel \<Rightarrow> int \<Rightarrow> u64 \<Rightarrow> 'e socket_server \<Rightarrow> report \<times> 'e socket_server" where
  "resume_socket K i opaque ss =
     (let result = \<lambda>d. \<lparr>msg_id = i, msg_opaque = opaque, msg_ud = 0, msg_data = Some (msgtext d)\<rparr>;
          s = slot_at i ss in
      if socket_invalid s i then (Some (SOCKET_ERR, result ''invalid socket''), ss)
      else if halfclose_read s then (Some (SOCKET_ERR, result ''socket closed''), ss)
      else case enable_read K i True ss of (err, ss) \<Rightarrow>
        if err then (Some (SOCKET_ERR, result ''enable read failed''), ss)
        else
          let s = slot_at i ss; type = so_type s in
          if type = SOCKET_TYPE_PACCEPT \<or> type = SOCKET_TYPE_PLISTEN
          then (Some (SOCKET_OPEN, result ''start''),
                set_slot i (s\<lparr>so_type := (if type = SOCKET_TYPE_PACCEPT then SOCKET_TYPE_CONNECTED else SOCKET_TYPE_LISTEN),
                              so_opaque := opaque\<rparr>) ss)
          else if type = SOCKET_TYPE_CONNECTED
          then (Some (SOCKET_OPEN, result ''transfer''), set_slot i (s\<lparr>so_opaque := opaque\<rparr>) ss)
          else (None, ss))"

definition pause_socket :: "'e kernel \<Rightarrow> int \<Rightarrow> 'e socket_server \<Rightarrow> report \<times> 'e socket_server" where
  "pause_socket K i ss =
     (if socket_invalid (slot_at i ss) i then (None, ss)
      else case enable_read K i False ss of (err, ss) \<Rightarrow>
        (if err then report_error i (msgtext ''enable read failed'') ss else None, ss))"

definition setopt_socket :: "'e kernel \<Rightarrow> int \<Rightarrow> int \<Rightarrow> int \<Rightarrow> 'e socket_server \<Rightarrow> 'e socket_server" where
  "setopt_socket K i what v ss =
     (let s = slot_at i ss in
      if socket_invalid s i then ss else do_sys (k_setsockopt K (so_fd s) what v) ss)"

definition add_udp_socket ::
  "'e kernel \<Rightarrow> int \<Rightarrow> int \<Rightarrow> bool \<Rightarrow> u64 \<Rightarrow> 'e socket_server \<Rightarrow> 'e socket_server option" where
  "add_udp_socket K i fd v6 opaque ss = do {
     (ok, ss) \<leftarrow> new_fd K i fd (if v6 then PROTOCOL_UDPv6 else PROTOCOL_UDP) opaque True ss;
     if ok then Some (set_slot i ((slot_at i ss)\<lparr>so_type := SOCKET_TYPE_CONNECTED,
                        so_udp_address := replicate UDP_ADDRESS_SIZE 0\<rparr>) ss)
     else Some (set_type i SOCKET_TYPE_INVALID (do_sys (k_close K fd) ss)) }"

definition set_udp_address ::
  "int \<Rightarrow> byte list \<Rightarrow> 'e socket_server \<Rightarrow> (report \<times> 'e socket_server) option" where
  "set_udp_address i address ss =
     (let s = slot_at i ss in
      if socket_invalid s i then Some (None, ss)
      else if address = [] then None
      else if hd address \<noteq> so_protocol s then Some (report_error i (msgtext ''protocol mismatch'') ss, ss)
      else
        let n = (if hd address = PROTOCOL_UDP then 1 + 2 + 4 else 1 + 2 + 16) in
        if length address < n then None
        else Some (None, set_slot i (s\<lparr>so_udp_address := take n address @ drop n (so_udp_address s),
                                       so_udpconnecting := so_udpconnecting s - 1\<rparr>) ss))"

definition exit_message :: socket_message where
  "exit_message = \<lparr>msg_id = 0, msg_opaque = 0, msg_ud = 0, msg_data = None\<rparr>"

text \<open>\<open>ctrl_cmd\<close>: the first request of the pipe; an empty pipe would block.\<close>

fun ctrl_request ::
  "'e kernel \<Rightarrow> errno \<Rightarrow> request \<Rightarrow> 'e socket_server \<Rightarrow> (report \<times> 'e socket_server) option" where
  "ctrl_request K err0 (Req_R i opaque) ss = Some (resume_socket K i opaque ss)"
| "ctrl_request K err0 (Req_S i opaque) ss = Some (pause_socket K i ss)"
| "ctrl_request K err0 (Req_B i fd opaque) ss = bind_socket K i fd opaque ss"
| "ctrl_request K err0 (Req_L i fd opaque) ss = listen_socket K i fd opaque ss"
| "ctrl_request K err0 (Req_K i shutdown opaque) ss = close_socket K i shutdown ss"
| "ctrl_request K err0 (Req_O i port opaque host) ss = open_socket K err0 i port opaque host ss"
| "ctrl_request K err0 Req_X ss = Some (Some (SOCKET_EXIT, exit_message), ss)"
| "ctrl_request K err0 (Req_W i) ss = Some (trigger_write K i ss)"
| "ctrl_request K err0 (Req_D r) ss = do {
     (ret, ss) \<leftarrow> send_socket K r True None ss;
     ss \<leftarrow> dec_sending_ref (rs_id r) ss;
     Some (ret, ss) }"
| "ctrl_request K err0 (Req_P r) ss = do {
     (ret, ss) \<leftarrow> send_socket K r False None ss;
     ss \<leftarrow> dec_sending_ref (rs_id r) ss;
     Some (ret, ss) }"
| "ctrl_request K err0 (Req_A r address) ss = send_socket K r True (Some address) ss"
| "ctrl_request K err0 (Req_C i address) ss = set_udp_address i address ss"
| "ctrl_request K err0 (Req_T i what v) ss = Some (None, setopt_socket K i what v ss)"
| "ctrl_request K err0 (Req_U i fd v6 opaque) ss =
     map_option (\<lambda>ss. (None, ss)) (add_udp_socket K i fd v6 opaque ss)"

definition ctrl_cmd :: "'e kernel \<Rightarrow> errno \<Rightarrow> 'e socket_server \<Rightarrow> (report \<times> 'e socket_server) option" where
  "ctrl_cmd K err0 ss =
     (case ss_ctrl ss of
        [] \<Rightarrow> None
      | r # rs \<Rightarrow> ctrl_request K err0 r (ss\<lparr>ss_ctrl := rs\<rparr>))"

section \<open>Making a request\<close>

text \<open>\<open>sizeof (struct request_open)\<close> on a 64-bit machine.\<close>

definition sizeof_request_open :: nat where "sizeof_request_open = 24"

definition socket_server_connect ::
  "u64 \<Rightarrow> byte list \<Rightarrow> int \<Rightarrow> 'e socket_server \<Rightarrow> int \<times> 'e socket_server" where
  "socket_server_connect opaque address port ss =
     (if length address + sizeof_request_open \<ge> 256 then (-1, ss)
      else case reserve_id ss of (i, ss) \<Rightarrow>
        if i < 0 then (-1, ss) else (i, send_request (Req_O i port opaque address) ss))"

definition socket_server_exit :: "'e socket_server \<Rightarrow> 'e socket_server" where
  "socket_server_exit ss = send_request Req_X ss"

definition socket_server_close :: "u64 \<Rightarrow> int \<Rightarrow> 'e socket_server \<Rightarrow> 'e socket_server" where
  "socket_server_close opaque i ss = send_request (Req_K i False opaque) ss"

definition socket_server_shutdown :: "u64 \<Rightarrow> int \<Rightarrow> 'e socket_server \<Rightarrow> 'e socket_server" where
  "socket_server_shutdown opaque i ss = send_request (Req_K i True opaque) ss"

text \<open>
  \<open>do_bind\<close> gives a socket bound to the first address of the host, and whether it is an IPv6 one. A call of
  \<open>getaddrinfo\<close> that succeeds gives an address.
\<close>

fun is_v6 :: "sockaddr \<Rightarrow> bool" where
  "is_v6 (Sa6 p a) = True"
| "is_v6 (Sa4 p a) = False"

definition do_bind ::
  "'e kernel \<Rightarrow> byte list option \<Rightarrow> int \<Rightarrow> bool \<Rightarrow> 'e socket_server \<Rightarrow> (int \<times> bool) option \<times> 'e socket_server" where
  "do_bind K host port tcp ss =
     (let host = (case host of Some h \<Rightarrow> if h = [] then msgtext ''0.0.0.0'' else h | None \<Rightarrow> msgtext ''0.0.0.0'') in
      case sys (k_getaddrinfo K tcp host port) ss of
        (Inl (a # _), ss) \<Rightarrow>
          (case sys (k_socket K tcp a) ss of
             (Inr _, ss) \<Rightarrow> (None, ss)
           | (Inl fd, ss) \<Rightarrow>
               (case sys (k_reuseaddr K fd) ss of (failed, ss) \<Rightarrow>
                  if failed then (None, do_sys (k_close K fd) ss)
                  else case sys (k_bind K fd a) ss of (failed, ss) \<Rightarrow>
                    if failed then (None, do_sys (k_close K fd) ss) else (Some (fd, is_v6 a), ss)))
      | (_, ss) \<Rightarrow> (None, ss))"

definition do_listen ::
  "'e kernel \<Rightarrow> byte list \<Rightarrow> int \<Rightarrow> int \<Rightarrow> 'e socket_server \<Rightarrow> int \<times> 'e socket_server" where
  "do_listen K host port backlog ss =
     (case do_bind K (Some host) port True ss of
        (None, ss) \<Rightarrow> (-1, ss)
      | (Some (fd, _), ss) \<Rightarrow>
          (case sys (k_listen K fd backlog) ss of (failed, ss) \<Rightarrow>
             if failed then (-1, do_sys (k_close K fd) ss) else (fd, ss)))"

definition socket_server_listen ::
  "'e kernel \<Rightarrow> u64 \<Rightarrow> byte list \<Rightarrow> int \<Rightarrow> int \<Rightarrow> 'e socket_server \<Rightarrow> int \<times> 'e socket_server" where
  "socket_server_listen K opaque address port backlog ss =
     (case do_listen K address port backlog ss of (fd, ss) \<Rightarrow>
        if fd < 0 then (-1, ss)
        else case reserve_id ss of (i, ss) \<Rightarrow>
          if i < 0 then (i, do_sys (k_close K fd) ss)
          else (i, send_request (Req_L i fd opaque) ss))"

definition socket_server_bind :: "u64 \<Rightarrow> int \<Rightarrow> 'e socket_server \<Rightarrow> int \<times> 'e socket_server" where
  "socket_server_bind opaque fd ss =
     (case reserve_id ss of (i, ss) \<Rightarrow>
        if i < 0 then (-1, ss) else (i, send_request (Req_B i fd opaque) ss))"

definition socket_server_start :: "u64 \<Rightarrow> int \<Rightarrow> 'e socket_server \<Rightarrow> 'e socket_server" where
  "socket_server_start opaque i ss = send_request (Req_R i opaque) ss"

definition socket_server_pause :: "u64 \<Rightarrow> int \<Rightarrow> 'e socket_server \<Rightarrow> 'e socket_server" where
  "socket_server_pause opaque i ss = send_request (Req_S i opaque) ss"

definition socket_server_option :: "int \<Rightarrow> int \<Rightarrow> int \<Rightarrow> 'e socket_server \<Rightarrow> 'e socket_server" where
  "socket_server_option i what v ss = send_request (Req_T i what v) ss"

definition socket_server_userobject :: "(object \<Rightarrow> object) \<Rightarrow> 'e socket_server \<Rightarrow> 'e socket_server" where
  "socket_server_userobject soi ss = ss\<lparr>ss_soi := Some soi\<rparr>"

definition socket_server_udp ::
  "'e kernel \<Rightarrow> u64 \<Rightarrow> byte list option \<Rightarrow> int \<Rightarrow> 'e socket_server \<Rightarrow> int \<times> 'e socket_server" where
  "socket_server_udp K opaque address port ss =
     (case (if port \<noteq> 0 \<or> address \<noteq> None then do_bind K address port False ss
            else case sys (k_socket K False (Sa4 [] [])) ss of
              (Inl fd, ss) \<Rightarrow> (Some (fd, False), ss)
            | (Inr _, ss) \<Rightarrow> (None, ss)) of
        (None, ss) \<Rightarrow> (-1, ss)
      | (Some (fd, v6), ss) \<Rightarrow>
            (case reserve_id (do_sys (k_nonblocking K fd) ss) of (i, ss) \<Rightarrow>
               if i < 0 then (-1, do_sys (k_close K fd) ss)
               else (i, send_request (Req_U i fd v6 opaque) ss)))"

definition gen_udp_address :: "byte \<Rightarrow> sockaddr \<Rightarrow> byte list" where
  "gen_udp_address protocol sa =
     protocol # (case sa of Sa4 port a \<Rightarrow> port @ a | Sa6 port a \<Rightarrow> port @ a)"

definition socket_server_udp_connect ::
  "'e kernel \<Rightarrow> int \<Rightarrow> byte list \<Rightarrow> int \<Rightarrow> 'e socket_server \<Rightarrow> int \<times> 'e socket_server" where
  "socket_server_udp_connect K i address port ss =
     (let s = slot_at i ss in
      if socket_invalid s i then (-1, ss)
      else
        (case sys (k_getaddrinfo K False address port)
                (set_slot i (s\<lparr>so_udpconnecting := so_udpconnecting s + 1\<rparr>) ss) of
           (Inl (sa # _), ss) \<Rightarrow>
             (0, send_request (Req_C i
                   (gen_udp_address (case sa of Sa4 _ _ \<Rightarrow> PROTOCOL_UDP | Sa6 _ _ \<Rightarrow> PROTOCOL_UDPv6) sa)) ss)
         | (_, ss) \<Rightarrow> (-1, ss)))"

text \<open>The address behind the data of a UDP message.\<close>

definition socket_server_udp_address :: "socket_message \<Rightarrow> (byte list \<times> nat) option option" where
  "socket_server_udp_address msg = do {
     data \<leftarrow> msg_data msg;
     if length data \<le> nat (msg_ud msg) then None
     else Some (case udp_address_size (data ! nat (msg_ud msg)) of
         Some n \<Rightarrow> Some (drop (nat (msg_ud msg)) data, n)
       | None \<Rightarrow> None) }"

end
