(* ===== verification/Remote.thy ===== *)
theory Remote
  imports Server
begin

text \<open>
  Messages between nodes (the last part of \<open>skynet_harbor.c\<close>): the sending node copies the
  header of \<open>struct skynet_remote_message\<close> and the data into one buffer, the receiving node
  reads the header back and sends the message on to a local service. The layout is that of
  a 64-bit little-endian machine: 32 bytes of name, four 4-byte words, an 8-byte size; the
  pointer behind them is not copied.
\<close>

definition skynet_remote_message_header :: nat where
  "skynet_remote_message_header = sizeof_remote_message - 8"

definition header_bytes :: "skynet_remote_message \<Rightarrow> byte list" where
  "header_bytes r = rm_name r @ le_bytes 4 (unat (rm_handle r)) @ le_bytes 4 (unat (rm_source r))
     @ le_bytes 4 (unat (rm_session r)) @ int_bytes (rm_type r) @ le_bytes 8 (rm_size r)"

text \<open>
  The buffer after \<open>skynet_remote_message_push\<close> and the result. Copying from and freeing a
  \<open>data\<close> pointer that was never set is \<open>None\<close>.
\<close>

definition skynet_remote_message_push ::
  "skynet_remote_message \<Rightarrow> nat \<Rightarrow> (nat \<times> byte list) option" where
  "skynet_remote_message_push rmsg sz =
     (if sz \<ge> skynet_remote_message_header + rm_size rmsg then do {
        data \<leftarrow> rm_data rmsg;
        Some (skynet_remote_message_header + rm_size rmsg,
              header_bytes rmsg @ take (rm_size rmsg) data) }
      else Some (0, []))"

definition word_at :: "nat \<Rightarrow> byte list \<Rightarrow> u32" where
  "word_at i msg = word_of_nat (le_nat (take 4 (drop i msg)))"

text \<open>Reading the fields back, as through the cast of \<open>msg\<close>.\<close>

definition read_header :: "byte list \<Rightarrow> skynet_remote_message" where
  "read_header msg =
     \<lparr>rm_name = take 32 msg, rm_handle = word_at 32 msg, rm_source = word_at 36 msg,
      rm_session = word_at 40 msg, rm_type = bytes_int (drop 44 msg),
      rm_size = le_nat (take 8 (drop 48 msg)), rm_data = None\<rparr>"

definition string_at :: "byte list \<Rightarrow> cstring" where
  "string_at bs = cs (map (\<lambda>b. char_of (unat b)) bs)"

text \<open>\<open>rmsg->name\<close> is read as a string from the start of the header, past 32 bytes if there
  is no NUL among them.\<close>

definition skynet_local_message_forward ::
  "byte list \<Rightarrow> byte list \<Rightarrow> nat \<Rightarrow> 'a world_scheme \<Rightarrow> 'a world_scheme option" where
  "skynet_local_message_forward junk msg sz w =
     (let rmsg = read_header msg; data = drop skynet_remote_message_header msg in
      if skynet_remote_message_header + rm_size rmsg \<noteq> sz then None
      else if rm_handle rmsg > 0 then
        skynet_sendhandle junk (rm_handle rmsg) (rm_source rmsg) (rm_session rmsg) (rm_type rmsg)
          (Some (Bytes data)) (rm_size rmsg) w
      else
        skynet_sendname (string_at msg) (rm_source rmsg) (rm_session rmsg) (rm_type rmsg)
          (Some (Bytes data)) (rm_size rmsg) w)"

section \<open>Reading back what was written\<close>

definition remote_ok :: "skynet_remote_message \<Rightarrow> bool" where
  "remote_ok r \<longleftrightarrow> length (rm_name r) = 32 \<and> - (2 ^ 31) \<le> rm_type r \<and> rm_type r < 2 ^ 31
     \<and> rm_size r < 2 ^ 64"

lemma word_le_bytes: "word_of_nat (le_nat (le_bytes 4 (unat (x :: u32)))) = x"
proof -
  have "unat x < 256 ^ 4" using unsigned_less [of x, where ?'a = nat] by simp
  then show ?thesis by (simp add: byte_simps)
qed

lemma length_header [simp]:
  "length (rm_name r) = 32 \<Longrightarrow> length (header_bytes r) = skynet_remote_message_header"
  by (simp add: header_bytes_def skynet_remote_message_header_def sizeof_remote_message_def)

lemma read_header_bytes:
  assumes "remote_ok r"
  shows "read_header (header_bytes r @ data) = r\<lparr>rm_data := None\<rparr>"
proof -
  from assms have n: "length (rm_name r) = 32" and t: "- (2 ^ 31) \<le> rm_type r" "rm_type r < 2 ^ 31"
    and s: "rm_size r < 256 ^ 8" by (auto simp: remote_ok_def)
  have w: "word_at 32 (header_bytes r @ data) = rm_handle r" "word_at 36 (header_bytes r @ data) = rm_source r"
    "word_at 40 (header_bytes r @ data) = rm_session r"
    unfolding word_at_def header_bytes_def using n by (simp_all add: word_le_bytes)
  have t': "bytes_int (drop 44 (header_bytes r @ data)) = rm_type r"
    using n bytes_int_int_bytes [OF t] by (simp add: header_bytes_def)
  have s': "le_nat (take 8 (drop 48 (header_bytes r @ data))) = rm_size r"
    using n s by (simp add: header_bytes_def byte_simps)
  have "take 32 (header_bytes r @ data) = rm_name r" using n by (simp add: header_bytes_def)
  then show ?thesis unfolding read_header_def w t' s' by simp
qed

lemma map_byte_char: "map (\<lambda>b. char_of (unat b)) (map (\<lambda>c. word_of_nat (of_char c) :: byte) s) = s"
  by (induction s) (simp_all add: unsigned_of_nat char_of_take_bit_eq)

lemma string_at_name:
  "string_at (strncpy32 n @ le_bytes 4 0 @ rest) = cs (take 32 (chars_of n))"
proof -
  have len: "length (take 32 (chars_of n)) \<le> 32" by simp
  have 0: "le_bytes 4 0 = 0 # replicate 3 0" by (simp add: le_bytes_0 flip: replicate_Suc)
  have nul: "char_of (0 :: nat) = CHR 0x00" by (simp add: char_of_def)
  have "map (\<lambda>b. char_of (unat b)) (strncpy32 n @ le_bytes 4 0 @ rest)
    = take 32 (chars_of n) @ replicate (32 - length (chars_of n)) (CHR 0x00)
      @ CHR 0x00 # map (\<lambda>b. char_of (unat b)) (replicate 3 0 @ rest)"
    by (simp add: strncpy32_def 0 nul take_map map_byte_char del: map_map)
  note eq = this
  have "takeWhile (\<lambda>c. c \<noteq> CHR 0x00) (take 32 (chars_of n) @ replicate k (CHR 0x00) @ CHR 0x00 # xs)
    = takeWhile (\<lambda>c. c \<noteq> CHR 0x00) (take 32 (chars_of n))" for k xs
  proof -
    have "\<forall>c \<in> set (take 32 (chars_of n)). c \<noteq> CHR 0x00"
      using chars_of_no_nul [of n] by (metis in_set_takeD)
    then show ?thesis by (cases k) (simp_all add: takeWhile_append2 takeWhile_eq_all_conv [THEN iffD2])
  qed
  then show ?thesis unfolding string_at_def eq cs_eq_iff by simp
qed


lemma remote_arrives:
  assumes "- (2 ^ 31) \<le> type" "type < 2 ^ 31" "sz < 2 ^ 64" "length bs = sz" "length junk = 32"
    and "r = remote_message (if target > 0 then junk else strncpy32 name) target source session type (Some (Bytes bs)) sz"
  shows "length (header_bytes r @ bs) = skynet_remote_message_header + sz"
    "skynet_local_message_forward junk' (header_bytes r @ bs) (skynet_remote_message_header + sz) w =
        (if target > 0 then skynet_sendhandle junk' target source session type (Some (Bytes bs)) sz w
         else skynet_sendname (cs (take 32 (chars_of name))) source session type (Some (Bytes bs)) sz w)"
    "skynet_remote_message_header + sz \<le> room \<Longrightarrow>
       skynet_remote_message_push r room = Some (skynet_remote_message_header + sz, header_bytes r @ bs)"
proof -
  have n32: "length (strncpy32 name) = 32" by (simp add: strncpy32_def)
  have ok: "remote_ok r" and r: "rm_size r = sz" "rm_data r = Some bs" "rm_handle r = target"
    "rm_source r = source" "rm_session r = session" "rm_type r = type"
    "rm_name r = (if target > 0 then junk else strncpy32 name)"
    using assms n32 by (auto simp: remote_ok_def remote_message_def)
  let ?msg = "header_bytes r @ bs"
  show "skynet_remote_message_push r room = Some (skynet_remote_message_header + sz, ?msg)"
    if "skynet_remote_message_header + sz \<le> room"
    using assms(4) r that by (simp add: skynet_remote_message_push_def)
  have len: "length (header_bytes r) = skynet_remote_message_header"
    using ok by (simp add: remote_ok_def)
  note rd = read_header_bytes [OF ok, of bs]
  have name: "string_at ?msg = cs (take 32 (chars_of name))" if "\<not> target > 0"
  proof -
    have "target = 0" using that by (simp add: word_gt_0)
    then have "?msg = strncpy32 name @ le_bytes 4 0 @ drop 36 ?msg"
      using r n32 by (simp add: header_bytes_def)
    then show ?thesis by (metis string_at_name)
  qed
  show "length (header_bytes r @ bs) = skynet_remote_message_header + sz" using len assms(4) by simp
  show "skynet_local_message_forward junk' ?msg (skynet_remote_message_header + sz) w =
        (if target > 0 then skynet_sendhandle junk' target source session type (Some (Bytes bs)) sz w
         else skynet_sendname (cs (take 32 (chars_of name))) source session type (Some (Bytes bs)) sz w)"
    unfolding skynet_local_message_forward_def Let_def rd using r len name by auto
qed

section \<open>Properties\<close>

text \<open>C8: a message that leaves for another node arrives as it was: what the receiving node
  does with the bytes that \<open>skynet_remote_message_push\<close> wrote is to send the same type,
  source, session and data on, to the handle if there is one and otherwise to the name,
  cut after 32 characters.\<close>

theorem remote_message_roundtrip:
  assumes "- (2 ^ 31) \<le> type" "type < 2 ^ 31" "sz < 2 ^ 64" "length bs = sz" "length junk = 32"
    "skynet_remote_message_header + sz \<le> room"
    and "r = remote_message (if target > 0 then junk else strncpy32 name) target source session type (Some (Bytes bs)) sz"
  shows "\<exists>n msg. skynet_remote_message_push r room = Some (n, msg) \<and> n = length msg
    \<and> skynet_local_message_forward junk' msg n w =
        (if target > 0 then skynet_sendhandle junk' target source session type (Some (Bytes bs)) sz w
         else skynet_sendname (cs (take 32 (chars_of name))) source session type (Some (Bytes bs)) sz w)"
proof -
  note r = remote_arrives [OF assms(1-5,7)]
  from r(1,2) r(3) [OF assms(6)] show ?thesis by auto
qed

lemma remote_message_roundtrip_witness:
  "\<exists>n msg. skynet_remote_message_push
       (remote_message (strncpy32 (cs ''db'')) 0 0x105 9 SERVICE_TEXT (Some (Bytes [7])) 1) 100 = Some (n, msg)
     \<and> skynet_local_message_forward [] msg n one_service
       = skynet_sendname (cs ''db'') 0x105 9 SERVICE_TEXT (Some (Bytes [7])) 1 one_service"
  using remote_message_roundtrip [of SERVICE_TEXT 1 "[7]" "replicate 32 0" 100
      "remote_message (strncpy32 (cs ''db'')) 0 0x105 9 SERVICE_TEXT (Some (Bytes [7])) 1" 0 "cs ''db''" "0x105" 9 "[]" one_service]
  by (fastforce simp: SERVICE_TEXT_def skynet_remote_message_header_def sizeof_remote_message_def)

text \<open>A message without data that goes to another node: \<open>skynet_harbor_sendname\<close> leaves
  the \<open>data\<close> pointer unset, so serializing it frees a pointer that was never set.\<close>

theorem remote_null_data_faults:
  "skynet_remote_message_header \<le> room \<Longrightarrow>
   skynet_remote_message_push (remote_message name handle source session type None 0) room = None"
  by (simp add: skynet_remote_message_push_def remote_message_def)

lemma remote_null_data_faults_witness:
  "skynet_remote_message_push (remote_message [] 0x201 0 0 SERVICE_TEXT None 0) 56 = None"
  by (rule remote_null_data_faults)
    (simp add: skynet_remote_message_header_def sizeof_remote_message_def)

end
