(* ===== verification/Service_Api.thy ===== *)
theory Service_Api
  imports Server Remote
begin

text \<open>
  What the services share: the C string functions they use on message bytes, and the calls they
  make into the framework, as values (\<open>call\<close>). A handler of a service returns the calls it makes,
  in order; \<open>perform\<close> runs those that send or log on the state of the server and hands the
  socket and timer requests on. The \<open>free\<close> of memory that is not used again is not a call.
\<close>

section \<open>Strings of the C library\<close>

definition bytes_of :: "string \<Rightarrow> byte list" where
  "bytes_of s = map of_char s"

text \<open>The string found at a byte array.\<close>

definition cstr :: "byte list \<Rightarrow> byte list" where
  "cstr bs = takeWhile (\<lambda>b. b \<noteq> 0) bs"

definition name_of :: "byte list \<Rightarrow> cstring" where
  "name_of bs = cs (map (\<lambda>b. char_of (unat b)) bs)"

text \<open>\<open>%d\<close>: the decimal digits of an \<open>int\<close>.\<close>

fun dec_digits :: "nat \<Rightarrow> byte list" where
  "dec_digits n = (if n < 10 then [word_of_nat (48 + n)] else dec_digits (n div 10) @ [word_of_nat (48 + n mod 10)])"

declare dec_digits.simps [simp del]

definition fmt_d :: "int \<Rightarrow> byte list" where
  "fmt_d i = (if i < 0 then 45 # dec_digits (nat (- i)) else dec_digits (nat i))"

definition isdigit :: "byte \<Rightarrow> bool" where
  "isdigit b \<longleftrightarrow> 48 \<le> b \<and> b \<le> 57"

definition isspace :: "byte \<Rightarrow> bool" where
  "isspace b \<longleftrightarrow> b = 32 \<or> 9 \<le> b \<and> b \<le> 13"

fun dec_value :: "nat \<Rightarrow> byte list \<Rightarrow> nat" where
  "dec_value v [] = v"
| "dec_value v (b # bs) = (if isdigit b then dec_value (v * 10 + (unat b - 48)) bs else v)"

text \<open>
  \<open>strtol (s, NULL, 10)\<close>, which saturates, and \<open>atoi\<close>, its low 32 bits. The string must not end
  without a byte that stops the conversion.
\<close>

definition strtol :: "byte list \<Rightarrow> int option" where
  "strtol bs =
     (case dropWhile isspace bs of
        [] \<Rightarrow> None
      | b # r \<Rightarrow>
          let ds = (if b = 43 \<or> b = 45 then r else b # r) in
          if list_all isdigit ds then None
          else Some (if b = 45 then max (- (2 ^ 63)) (- int (dec_value 0 ds))
                     else min (2 ^ 63 - 1) (int (dec_value 0 ds))))"

definition atoi :: "byte list \<Rightarrow> int option" where
  "atoi bs = map_option (\<lambda>i. sint (word_of_int i :: u32)) (strtol bs)"

text \<open>\<open>%d\<close> of \<open>sscanf\<close>: the number and what is left, or \<open>None\<close> without a digit.\<close>

definition scan_int :: "byte list \<Rightarrow> (int \<times> byte list) option" where
  "scan_int bs =
     (let s = dropWhile isspace bs;
          neg = (s \<noteq> [] \<and> hd s = 45);
          ds = (if s \<noteq> [] \<and> (hd s = 43 \<or> hd s = 45) then tl s else s) in
      if ds = [] \<or> \<not> isdigit (hd ds) then None
      else Some (sint (word_of_int (if neg then max (- (2 ^ 63)) (- int (dec_value 0 ds))
                                    else min (2 ^ 63 - 1) (int (dec_value 0 ds))) :: u32),
                 dropWhile isdigit ds))"

text \<open>A literal comma of a \<open>sscanf\<close> format.\<close>

fun scan_comma :: "byte list \<Rightarrow> byte list option" where
  "scan_comma (b # bs) = (if b = 44 then Some bs else None)"
| "scan_comma [] = None"

text \<open>\<open>%[^',']\<close> into an array of \<open>n\<close> bytes: up to a comma or a quote.\<close>

definition scan_field :: "nat \<Rightarrow> byte list \<Rightarrow> (byte list \<times> byte list) option" where
  "scan_field n bs =
     (let f = takeWhile (\<lambda>b. b \<noteq> 44 \<and> b \<noteq> 39) bs in
      if f = [] \<or> n \<le> length f then None else Some (f, drop (length f) bs))"

text \<open>\<open>memcmp (p, lit, n) == 0\<close> for a literal; reading behind the end of either is \<open>None\<close>.\<close>

fun memcmp_eq :: "byte list \<Rightarrow> byte list \<Rightarrow> nat \<Rightarrow> bool option" where
  "memcmp_eq p l 0 = Some True"
| "memcmp_eq (a # p) (b # l) (Suc n) = (if a = b then memcmp_eq p l n else Some False)"
| "memcmp_eq p l (Suc n) = None"

definition lit :: "string \<Rightarrow> byte list" where
  "lit s = bytes_of s @ [0]"

text \<open>\<open>strchr (p, c)\<close>, with the offset for the pointer; the string must end in the array.\<close>

fun strchr :: "byte list \<Rightarrow> byte \<Rightarrow> nat option option" where
  "strchr [] c = None"
| "strchr (b # bs) c =
     (if b = c then Some (Some 0)
      else if b = 0 then Some None
      else map_option (map_option Suc) (strchr bs c))"

text \<open>The string at an array that may lack its NUL.\<close>

definition strlen_at :: "byte list \<Rightarrow> nat option" where
  "strlen_at bs = (if 0 \<in> set bs then Some (length (cstr bs)) else None)"

text \<open>\<open>sprintf\<close> into an array of \<open>n\<close> bytes.\<close>

definition sprintf :: "nat \<Rightarrow> byte list \<Rightarrow> byte list option" where
  "sprintf n txt = (if length txt < n then Some txt else None)"

lemma bytes_of_simps [simp]: "bytes_of [] = []" "length (bytes_of s) = length s"
  by (simp_all add: bytes_of_def)

text \<open>A number below \<open>10^k\<close> has at most \<open>k\<close> digits.\<close>

lemma length_dec_digits: "0 < k \<Longrightarrow> n < 10 ^ k \<Longrightarrow> length (dec_digits n) \<le> k"
proof (induction n arbitrary: k rule: dec_digits.induct)
  case (1 n)
  show ?case
  proof (cases "n < 10")
    case False
    then obtain j where j: "k = Suc j" "0 < j" using 1 by (cases k; cases "k - 1") auto
    with 1 False have "length (dec_digits (n div 10)) \<le> j" by (simp add: less_mult_imp_div_less mult.commute)
    with False j show ?thesis by (subst dec_digits.simps) simp
  qed (use 1 in \<open>subst dec_digits.simps, simp\<close>)
qed

lemma length_fmt_d: "0 < k \<Longrightarrow> 0 \<le> i \<Longrightarrow> i < 10 ^ k \<Longrightarrow> length (fmt_d i) \<le> k"
  unfolding fmt_d_def using length_dec_digits [of k "nat i"] by (simp add: nat_less_iff)

section \<open>Calls into the framework\<close>

datatype call =
  Sendname cstring u32 u32 int "byte list"
| Sendhandle u32 u32 u32 int "byte list"
| Logger u32 int "byte list"
| Socket_start int
| Socket_close int
| Socket_send int "byte list"
| Socket_connect "byte list" int
| Socket_listen "byte list" int int
| Timer_register u32 u32 "byte list" int
| Local_forward "byte list"
| Harbor_start
| Harbor_exit

abbreviation log_debug :: "u32 \<Rightarrow> byte list \<Rightarrow> call" where
  "log_debug h t \<equiv> Logger h LOGGER_DEBUG t"
abbreviation log_warn :: "u32 \<Rightarrow> byte list \<Rightarrow> call" where
  "log_warn h t \<equiv> Logger h LOGGER_WARN t"
abbreviation log_notice :: "u32 \<Rightarrow> byte list \<Rightarrow> call" where
  "log_notice h t \<equiv> Logger h LOGGER_NOTICE t"
abbreviation log_error :: "u32 \<Rightarrow> byte list \<Rightarrow> call" where
  "log_error h t \<equiv> Logger h LOGGER_ERROR t"

text \<open>
  One call on the state of the server: \<open>line\<close> is the text of a log line with its time and thread,
  \<open>junk\<close> the uninitialised name of a message sent by handle. A call that belongs to the socket
  server or the timer stays.
\<close>

fun perform1 :: "(u32 \<Rightarrow> int \<Rightarrow> byte list \<Rightarrow> byte list) \<Rightarrow> byte list \<Rightarrow> call \<Rightarrow> 'a world_scheme
    \<Rightarrow> ('a world_scheme \<times> call list) option" where
  "perform1 line junk (Sendname n src ses t d) w =
     map_option (\<lambda>w. (w, [])) (skynet_sendname n src ses t (Some (Bytes d)) (length d) w)"
| "perform1 line junk (Sendhandle tgt src ses t d) w =
     map_option (\<lambda>w. (w, [])) (skynet_sendhandle junk tgt src ses t (Some (Bytes d)) (length d) w)"
| "perform1 line junk (Logger src lev t) w =
     map_option (\<lambda>w. (w, [])) (skynet_logger_print src lev (line src lev t) w)"
| "perform1 line junk (Local_forward d) w =
     map_option (\<lambda>w. (w, [])) (skynet_local_message_forward junk d (length d) w)"
| "perform1 line junk c w = Some (w, [c])"

fun perform :: "(u32 \<Rightarrow> int \<Rightarrow> byte list \<Rightarrow> byte list) \<Rightarrow> byte list \<Rightarrow> call list \<Rightarrow> 'a world_scheme
    \<Rightarrow> ('a world_scheme \<times> call list) option" where
  "perform line junk [] w = Some (w, [])"
| "perform line junk (c # ds) w = do {
     (w, r1) \<leftarrow> perform1 line junk c w;
     (w, r2) \<leftarrow> perform line junk ds w;
     Some (w, r1 @ r2) }"

end
