(* ===== verification/Socket_Poll.thy ===== *)
theory Socket_Poll
  imports Socket_Ctrl Service_Api
begin

text \<open>
  The socket server, last part: reading, accepting, the events of the poll and the loop
  \<open>socket_server_poll\<close>, and what \<open>skynet_socket.c\<close> makes of its results: messages to the service that
  owns the socket.
\<close>

section \<open>Reading\<close>

definition forward_message_tcp ::
  "'e kernel \<Rightarrow> int \<Rightarrow> 'e socket_server \<Rightarrow> (report \<times> 'e socket_server) option" where
  "forward_message_tcp K i ss =
     (let sz = so_size (slot_at i ss) in
      case sys (k_read K (so_fd (slot_at i ss)) (nat sz)) ss of
        (Inr err, ss) \<Rightarrow>
          Some (if err = EINTR \<or> err = EAGAIN then None else report_error i (k_strerror K err) ss, ss)
      | (Inl buffer, ss) \<Rightarrow>
          let n = int (length buffer); s = slot_at i ss in
          if n = 0 then
            if so_closing s then
              if nomore_sending_data s
              then map_option (\<lambda>(_, ss). (None, ss)) (force_close K i ss)
              else Some (None, ss)
            else if so_type s = SOCKET_TYPE_HALFCLOSE_READ then Some (None, ss)
            else if so_type s = SOCKET_TYPE_HALFCLOSE_WRITE
              then map_option (\<lambda>(result, ss). (Some (SOCKET_CLOSE, result), ss)) (force_close K i ss)
            else (case close_read K i ss of (result, ss) \<Rightarrow> Some (Some (SOCKET_CLOSE, result), ss))
          else if halfclose_read s then Some (None, ss)
          else
            let ss = stat_read i n ss; s = slot_at i ss;
                result = (close_message s)\<lparr>msg_ud := n, msg_data := Some buffer\<rparr> in
            if n = sz then Some (Some (SOCKET_MORE, result), set_slot i (s\<lparr>so_size := so_size s * 2\<rparr>) ss)
            else if sz > MIN_READ_BUFFER \<and> n * 2 < sz
            then Some (Some (SOCKET_DATA, result), set_slot i (s\<lparr>so_size := so_size s div 2\<rparr>) ss)
            else Some (Some (SOCKET_DATA, result), ss))"

definition forward_message_udp ::
  "'e kernel \<Rightarrow> int \<Rightarrow> 'e socket_server \<Rightarrow> (report \<times> 'e socket_server) option" where
  "forward_message_udp K i ss =
     (case sys (k_recvfrom K (so_fd (slot_at i ss))) ss of
        (Inr err, ss) \<Rightarrow>
          if err = EINTR \<or> err = EAGAIN then Some (None, ss)
          else map_option (\<lambda>(result, ss). (Some (SOCKET_ERR, result\<lparr>msg_data := Some (k_strerror K err)\<rparr>), ss))
                 (force_close K i ss)
      | (Inl (data, sa), ss) \<Rightarrow>
          let ss = stat_read i (int (length data)) ss; s = slot_at i ss;
              protocol = (if is_v6 sa then PROTOCOL_UDPv6 else PROTOCOL_UDP) in
          if so_protocol s \<noteq> protocol then Some (None, ss)
          else Some (Some (SOCKET_UDP, (close_message s)\<lparr>msg_ud := int (length data),
                       msg_data := Some (data @ gen_udp_address protocol sa)\<rparr>), ss))"

section \<open>Connecting and accepting\<close>

definition report_connect ::
  "'e kernel \<Rightarrow> int \<Rightarrow> 'e socket_server \<Rightarrow> (report \<times> 'e socket_server) option" where
  "report_connect K i ss =
     (case sys (k_so_error K (so_fd (slot_at i ss))) ss of
        (Some err, ss) \<Rightarrow>
          map_option (\<lambda>(result, ss). (Some (SOCKET_ERR, result\<lparr>msg_data := Some (k_strerror K err)\<rparr>), ss))
            (force_close K i ss)
      | (None, ss) \<Rightarrow>
          let ss = set_type i SOCKET_TYPE_CONNECTED ss; result = close_message (slot_at i ss) in
          (case (if nomore_sending_data (slot_at i ss) then enable_write K i False ss else (False, ss)) of (err, ss) \<Rightarrow>
             if err then
               map_option (\<lambda>(result, ss). (Some (SOCKET_ERR, result\<lparr>msg_data := Some (msgtext ''disable write failed'')\<rparr>), ss))
                 (force_close K i ss)
             else
               (case sys (k_peername K (so_fd (slot_at i ss))) ss of (peer, ss) \<Rightarrow>
                  Some (Some (SOCKET_OPEN, result\<lparr>msg_data := Option.bind peer (k_inet_ntop K)\<rparr>), ss))))"

definition ntohs :: "byte list \<Rightarrow> int" where
  "ntohs port = (case port of [a, b] \<Rightarrow> 256 * uint a + uint b | _ \<Rightarrow> 0)"

text \<open>\<open>snprintf (buffer, 128, "%s:%d", tmp, sin_port)\<close>; without a name the buffer is empty.\<close>

definition getname :: "'e kernel \<Rightarrow> sockaddr \<Rightarrow> byte list option" where
  "getname K sa =
     map_option (\<lambda>name. take 127 (name @ msgtext '':'' @ fmt_d (ntohs (case sa of Sa4 p _ \<Rightarrow> p | Sa6 p _ \<Rightarrow> p))))
       (k_inet_ntop K sa)"

text \<open>\<open>report_accept\<close>: its result is \<open>Some\<close> of a report, or \<open>None\<close> for 0, to try again.\<close>

definition report_accept ::
  "'e kernel \<Rightarrow> int \<Rightarrow> 'e socket_server \<Rightarrow> (report \<times> 'e socket_server) option" where
  "report_accept K i ss =
     (case sys (k_accept K (so_fd (slot_at i ss))) ss of
        (Inr err, ss) \<Rightarrow>
          Some (if err = EMFILE \<or> err = ENFILE
                then Some (SOCKET_ERR, (close_message (slot_at i ss))\<lparr>msg_data := Some (k_strerror K err)\<rparr>)
                else None, ss)
      | (Inl (client_fd, sa), ss) \<Rightarrow>
          let opaque = so_opaque (slot_at i ss) in
          (case reserve_id ss of (j, ss) \<Rightarrow>
             if j < 0 then Some (None, do_sys (k_close K client_fd) ss)
             else do {
               let ss = do_sys (k_nonblocking K client_fd) (do_sys (k_tune K client_fd) ss);
               (ok, ss) \<leftarrow> new_fd K j client_fd PROTOCOL_TCP opaque False ss;
               if \<not> ok then Some (None, do_sys (k_close K client_fd) ss)
               else
                 let ss = set_type j SOCKET_TYPE_PACCEPT (stat_read i 1 ss) in
                 Some (Some (SOCKET_ACCEPT, (close_message (slot_at i ss))\<lparr>msg_ud := j, msg_data := getname K sa\<rparr>), ss) }))"

section \<open>The loop\<close>

text \<open>
  \<open>clear_closed_event\<close>: the first pending event of the socket that has just been closed is dropped. The
  pointer of an event is the index of its slot.
\<close>

fun clear_event :: "(int \<Rightarrow> socket) \<Rightarrow> int \<Rightarrow> event list \<Rightarrow> event list" where
  "clear_event slots i [] = []"
| "clear_event slots i (e # es) =
     (case ev_s e of
        Some k \<Rightarrow>
          if socket_invalid (slots k) i \<and> so_id (slots k) = i then e\<lparr>ev_s := None\<rparr> # es
          else e # clear_event slots i es
      | None \<Rightarrow> e # clear_event slots i es)"

definition clear_closed_event :: "report \<Rightarrow> 'e socket_server \<Rightarrow> 'e socket_server" where
  "clear_closed_event r ss =
     (case r of
        Some (t, result) \<Rightarrow>
          if t = SOCKET_CLOSE \<or> t = SOCKET_ERR
          then ss\<lparr>ss_ev := take (ss_event_index ss) (ss_ev ss)
                   @ clear_event (ss_slot ss) (msg_id result) (drop (ss_event_index ss) (ss_ev ss))\<rparr>
          else ss
      | None \<Rightarrow> ss)"

text \<open>An event comes again: its index is taken back, with the read flag cleared or not.\<close>

definition event_again :: "bool \<Rightarrow> 'e socket_server \<Rightarrow> 'e socket_server" where
  "event_again clear_read ss =
     (let k = ss_event_index ss - 1 in
      ss\<lparr>ss_event_index := k,
         ss_ev := (if clear_read then (ss_ev ss)[k := (ss_ev ss ! k)\<lparr>ev_read := False\<rparr>] else ss_ev ss)\<rparr>)"

definition poll_read ::
  "'e kernel \<Rightarrow> event \<Rightarrow> int \<Rightarrow> 'e socket_server \<Rightarrow> (report \<times> 'e socket_server) option" where
  "poll_read K e k ss = do {
     let tcp = (so_protocol (slot_at k ss) = PROTOCOL_TCP);
     (type, ss) \<leftarrow> (if tcp then forward_message_tcp K k ss else forward_message_udp K k ss);
     case type of
       Some (t, result) \<Rightarrow>
         if tcp \<and> t = SOCKET_MORE then Some (Some (SOCKET_DATA, result), event_again False ss)
         else if \<not> tcp \<and> t = SOCKET_UDP then Some (Some (SOCKET_UDP, result), event_again False ss)
         else if ev_write e \<and> t \<noteq> SOCKET_CLOSE \<and> t \<noteq> SOCKET_ERR then Some (type, event_again True ss)
         else Some (type, ss)
     | None \<Rightarrow> Some (None, if ev_write e then event_again True ss else ss) }"

definition poll_error :: "'e kernel \<Rightarrow> int \<Rightarrow> 'e socket_server \<Rightarrow> report \<times> 'e socket_server" where
  "poll_error K k ss =
     (case sys (k_so_error K (so_fd (slot_at k ss))) ss of (err, ss) \<Rightarrow>
        (report_error k (case err of Some err \<Rightarrow> k_strerror K err | None \<Rightarrow> msgtext ''Unknown error'') ss, ss))"

definition poll_eof ::
  "'e kernel \<Rightarrow> int \<Rightarrow> 'e socket_server \<Rightarrow> (report \<times> 'e socket_server) option" where
  "poll_eof K k ss = do {
     let halfclose = halfclose_read (slot_at k ss);
     (result, ss) \<leftarrow> force_close K k ss;
     Some (if halfclose then None else Some (SOCKET_CLOSE, result), ss) }"

text \<open>The \<open>switch\<close> of the loop for the event \<open>e\<close> of the slot \<open>k\<close>.\<close>

definition poll_event ::
  "'e kernel \<Rightarrow> event \<Rightarrow> int \<Rightarrow> 'e socket_server \<Rightarrow> (report \<times> 'e socket_server) option" where
  "poll_event K e k ss =
     (let type = so_type (slot_at k ss) in
      if type = SOCKET_TYPE_CONNECTING then report_connect K k ss
      else if type = SOCKET_TYPE_LISTEN then report_accept K k ss
      else if type = SOCKET_TYPE_INVALID then Some (None, ss)
      else if ev_read e then poll_read K e k ss
      else if ev_write e then send_buffer K k ss
      else if ev_error e then Some (poll_error K k ss)
      else if ev_eof e then poll_eof K k ss
      else Some (None, ss))"

text \<open>
  One round of \<open>socket_server_poll\<close>: a request if there is one, else an event, else a wait for events.
  \<open>None\<close> goes round again; the flag is \<open>*more\<close>.
\<close>

definition poll_round ::
  "'e kernel \<Rightarrow> errno \<Rightarrow> bool \<times> 'e socket_server \<Rightarrow> (report \<times> bool \<times> 'e socket_server) option" where
  "poll_round K err0 = (\<lambda>(mr, ss).
     if ss_checkctrl ss \<and> ss_ctrl ss \<noteq> [] then do {
       (r, ss) \<leftarrow> ctrl_cmd K err0 ss;
       Some (r, mr, clear_closed_event r ss) }
     else
       let ss = ss\<lparr>ss_checkctrl := False\<rparr> in
       case (if ss_event_index ss = length (ss_ev ss)
             then case sys (k_sp_wait K) ss of
               (Inl evs, ss) \<Rightarrow> (False, ss\<lparr>ss_ev := evs, ss_checkctrl := True, ss_event_index := 0\<rparr>)
             | (Inr _, ss) \<Rightarrow> (False, ss\<lparr>ss_ev := [], ss_checkctrl := True, ss_event_index := 0\<rparr>)
             else (mr, ss)) of (mr, ss) \<Rightarrow>
         if ss_event_index ss < length (ss_ev ss) then do {
           let e = ss_ev ss ! ss_event_index ss;
           let ss = ss\<lparr>ss_event_index := ss_event_index ss + 1\<rparr>;
           case ev_s e of
             None \<Rightarrow> Some (None, mr, ss)
           | Some k \<Rightarrow> do {
               (r, ss) \<leftarrow> poll_event K e k ss;
               Some (r, mr, ss) } }
         else Some (None, mr, ss))"

partial_function (option) socket_server_poll ::
  "'e kernel \<Rightarrow> errno \<Rightarrow> bool \<Rightarrow> 'e socket_server \<Rightarrow> ((socket_ret \<times> socket_message) \<times> bool \<times> 'e socket_server) option" where
  "socket_server_poll K err0 mr ss = do {
     (r, mr, ss) \<leftarrow> poll_round K err0 (mr, ss);
     case r of
       Some res \<Rightarrow> Some (res, mr, ss)
     | None \<Rightarrow> socket_server_poll K err0 mr ss }"

section \<open>Messages to the services\<close>

definition sizeof_socket_message :: nat where "sizeof_socket_message = 24"

text \<open>
  \<open>forward_message\<close>: with \<open>padding\<close> the text of the result follows the message, at most 128 bytes and
  without its NUL; else the message takes over the data.
\<close>

definition forward_message ::
  "int \<Rightarrow> bool \<Rightarrow> socket_message \<Rightarrow> 'w world_scheme \<Rightarrow> 'w world_scheme option" where
  "forward_message type padding result w = do {
     let tail = (if padding then (case msg_data result of Some d \<Rightarrow> take 128 (cstr d) | None \<Rightarrow> []) else []);
     let sm = \<lparr>sm_type = type, sm_id = msg_id result, sm_ud = msg_ud result,
               sm_buffer = (if padding then None else msg_data result), sm_tail = tail\<rparr>;
     (r, w) \<leftarrow> skynet_service_pushmsg (ucast (msg_opaque result))
       \<lparr>m_type = SERVICE_SOCKET, m_data = Some (Socket sm), m_size = sizeof_socket_message + length tail,
        m_source = 0, m_session = 0\<rparr> w;
     Some w }"

text \<open>\<open>skynet_socket_poll\<close> after a result of the socket server: its value and the message it sends.\<close>

definition skynet_socket_forward ::
  "socket_ret \<Rightarrow> socket_message \<Rightarrow> bool \<Rightarrow> 'w world_scheme \<Rightarrow> (int \<times> 'w world_scheme) option" where
  "skynet_socket_forward type result mr w =
     (let ret = (if mr then -1 else 1) in
      case type of
        SOCKET_EXIT \<Rightarrow> Some (0, w)
      | SOCKET_DATA \<Rightarrow> map_option (\<lambda>w. (ret, w)) (forward_message SKYNET_SOCKET_TYPE_DATA False result w)
      | SOCKET_CLOSE \<Rightarrow> map_option (\<lambda>w. (ret, w)) (forward_message SKYNET_SOCKET_TYPE_CLOSE False result w)
      | SOCKET_OPEN \<Rightarrow> map_option (\<lambda>w. (ret, w)) (forward_message SKYNET_SOCKET_TYPE_CONNECT True result w)
      | SOCKET_ERR \<Rightarrow> map_option (\<lambda>w. (ret, w)) (forward_message SKYNET_SOCKET_TYPE_ERROR True result w)
      | SOCKET_ACCEPT \<Rightarrow> map_option (\<lambda>w. (ret, w)) (forward_message SKYNET_SOCKET_TYPE_ACCEPT True result w)
      | SOCKET_UDP \<Rightarrow> map_option (\<lambda>w. (ret, w)) (forward_message SKYNET_SOCKET_TYPE_UDP False result w)
      | SOCKET_WARNING \<Rightarrow> map_option (\<lambda>w. (ret, w)) (forward_message SKYNET_SOCKET_TYPE_WARNING False result w)
      | _ \<Rightarrow> Some (-1, w))"

definition sendbuffer_init_' :: "int \<Rightarrow> object \<Rightarrow> int \<Rightarrow> socket_sendbuffer" where
  "sendbuffer_init_' i buffer sz =
     \<lparr>sb_id = i, sb_type = (if sz < 0 then SOCKET_BUFFER_OBJECT else SOCKET_BUFFER_MEMORY),
      sb_buffer = buffer, sb_sz = nat (sz mod 2 ^ 64)\<rparr>"

definition skynet_socket_send ::
  "'e kernel \<Rightarrow> int \<Rightarrow> object \<Rightarrow> int \<Rightarrow> 'e socket_server \<Rightarrow> (int \<times> 'e socket_server) option" where
  "skynet_socket_send K i buffer sz ss = socket_server_send K (sendbuffer_init_' i buffer sz) ss"

definition skynet_socket_send_lowpriority ::
  "int \<Rightarrow> object \<Rightarrow> int \<Rightarrow> 'e socket_server \<Rightarrow> (int \<times> 'e socket_server) option" where
  "skynet_socket_send_lowpriority i buffer sz ss =
     socket_server_send_lowpriority (sendbuffer_init_' i buffer sz) ss"

text \<open>
  The socket calls of a service on the server: \<open>handle\<close> is the handle of the service; the address of the
  data to send is fresh memory.
\<close>

fun socket_call :: "'e kernel \<Rightarrow> u32 \<Rightarrow> call \<Rightarrow> 'e socket_server \<Rightarrow> 'e socket_server option" where
  "socket_call K handle (Socket_start i) ss = Some (socket_server_start (ucast handle) i ss)"
| "socket_call K handle (Socket_close i) ss = Some (socket_server_close (ucast handle) i ss)"
| "socket_call K handle (Socket_send i d) ss =
     map_option snd (skynet_socket_send K i (Obj (ss_brk ss) d) (int (length d)) (ss\<lparr>ss_brk := ss_brk ss + 1\<rparr>))"
| "socket_call K handle (Socket_connect host port) ss =
     Some (snd (socket_server_connect (ucast handle) host port ss))"
| "socket_call K handle (Socket_listen host port backlog) ss =
     Some (snd (socket_server_listen K (ucast handle) host port backlog ss))"
| "socket_call K handle c ss = Some ss"

end
