(* ===== verification/Socket_Order.thy ===== *)
theory Socket_Order
  imports Socket_Poll
begin

text \<open>
  The order of the bytes of a TCP connection: services send from their threads, the socket thread
  carries out requests and writes when the socket can be written. A package may go three ways (a direct
  write, the rest of a direct write, a request in the pipe and a write buffer); the bytes still come out
  in the order of the calls.
\<close>

section \<open>What the kernel does\<close>

text \<open>
  \<open>out\<close> is what the kernel has taken for a file descriptor and \<open>intr\<close> bounds the interrupts to come:
  \<open>write\<close> takes a part of the bytes, or nothing when it would block or is interrupted.
\<close>

definition kernel_ok :: "'e kernel \<Rightarrow> ('e \<Rightarrow> int \<Rightarrow> byte list) \<Rightarrow> ('e \<Rightarrow> nat) \<Rightarrow> bool" where
  "kernel_ok K out intr \<longleftrightarrow>
     (\<forall>fd bs e. case k_write K fd bs e of
        (Inl n, e') \<Rightarrow> n \<le> length bs \<and> out e' = (out e)(fd := out e fd @ take n bs) \<and> intr e' \<le> intr e
      | (Inr err, e') \<Rightarrow> out e' = out e
          \<and> (if err = EINTR then intr e' < intr e else err = EAGAIN \<and> intr e' \<le> intr e))
     \<and> (\<forall>fd r w e. case k_sp_enable K fd r w e of (failed, e') \<Rightarrow> \<not> failed \<and> out e' = out e \<and> intr e' \<le> intr e)"

lemma kernel_write:
  assumes "kernel_ok K out intr" "k_write K fd bs e = (Inl n, e')"
  shows "n \<le> length bs" "out e' = (out e)(fd := out e fd @ take n bs)" "intr e' \<le> intr e"
  using assms unfolding kernel_ok_def by (auto dest!: spec [of _ fd] spec [of _ bs] spec [of _ e])

lemma kernel_write_error:
  assumes "kernel_ok K out intr" "k_write K fd bs e = (Inr err, e')"
  shows "out e' = out e" "err = EINTR \<and> intr e' < intr e \<or> err = EAGAIN \<and> intr e' \<le> intr e"
  using assms unfolding kernel_ok_def
  by (auto dest!: spec [of _ fd] spec [of _ bs] spec [of _ e] split: if_splits)

lemma kernel_enable:
  assumes "kernel_ok K out intr" "k_sp_enable K fd r w e = (failed, e')"
  shows "\<not> failed" "out e' = out e" "intr e' \<le> intr e"
proof -
  have "\<forall>fd r w e. case k_sp_enable K fd r w e of (failed, e') \<Rightarrow> \<not> failed \<and> out e' = out e \<and> intr e' \<le> intr e"
    using assms(1) unfolding kernel_ok_def by (rule conjunct2)
  then have "case k_sp_enable K fd r w e of (failed, e') \<Rightarrow> \<not> failed \<and> out e' = out e \<and> intr e' \<le> intr e"
    by (elim allE)
  then show "\<not> failed" "out e' = out e" "intr e' \<le> intr e" using assms(2) by simp_all
qed

lemma slot_at_simps [simp]:
  "slot_at i (set_slot i s ss) = s"
  "slot_at i (ss\<lparr>ss_os := e\<rparr>) = slot_at i ss" "slot_at i (ss\<lparr>ss_ctrl := c\<rparr>) = slot_at i ss"
  "slot_at i (ss\<lparr>ss_freed := f\<rparr>) = slot_at i ss" "slot_at i (ss\<lparr>ss_brk := b\<rparr>) = slot_at i ss"
  "ss_os (set_slot i s ss) = ss_os ss" "ss_ctrl (set_slot i s ss) = ss_ctrl ss" "ss_soi (set_slot i s ss) = ss_soi ss"
  "set_slot i s (set_slot i s' ss) = set_slot i s ss"
  by (simp_all add: slot_at_def set_slot_def)

section \<open>Writing the high list\<close>

definition wb_ok :: "write_buffer \<Rightarrow> bool" where
  "wb_ok wb \<longleftrightarrow> wb_ptr wb + wb_sz wb = length (wb_data wb) \<and> \<not> wb_userobject wb"

definition wb_bytes :: "write_buffer list \<Rightarrow> byte list" where
  "wb_bytes wbs = concat (map wb_rest wbs)"

definition wb_total :: "write_buffer list \<Rightarrow> int" where
  "wb_total wbs = sum_list (map (int \<circ> wb_sz) wbs)"

lemma wb_simps [simp]:
  "wb_bytes [] = []" "wb_bytes (wb # wbs) = wb_rest wb @ wb_bytes wbs" "wb_bytes (us @ vs) = wb_bytes us @ wb_bytes vs"
  "wb_total [] = 0" "wb_total (wb # wbs) = int (wb_sz wb) + wb_total wbs" "wb_total (us @ vs) = wb_total us + wb_total vs"
  by (simp_all add: wb_bytes_def wb_total_def)

lemma length_wb_rest [simp]: "wb_ok wb \<Longrightarrow> length (wb_rest wb) = wb_sz wb"
  by (auto simp: wb_ok_def wb_rest_def min_def)

lemma wb_advance:
  assumes "wb_ok wb" "n \<le> wb_sz wb"
  defines "wb' \<equiv> wb\<lparr>wb_ptr := wb_ptr wb + n, wb_sz := wb_sz wb - n\<rparr>"
  shows "wb_ok wb'" "take n (wb_rest wb) @ wb_rest wb' = wb_rest wb"
proof -
  show "wb_ok wb'" using assms by (simp add: wb_ok_def)
  have "wb_rest wb' = drop n (wb_rest wb)"
    using assms by (simp add: wb_rest_def wb_ok_def add.commute take_drop)
  then show "take n (wb_rest wb) @ wb_rest wb' = wb_rest wb" by simp
qed

text \<open>What writing leaves unchanged of a slot: all but the high list, its size and the statistics.\<close>

definition kept :: "socket \<Rightarrow> socket" where
  "kept s = s\<lparr>so_high := [], so_wb_size := 0, so_stat := so_stat socket_null\<rparr>"

lemma kept_update [simp]:
  "kept (s\<lparr>so_high := h\<rparr>) = kept s" "kept (s\<lparr>so_wb_size := n\<rparr>) = kept s" "kept (s\<lparr>so_stat := st\<rparr>) = kept s"
  by (simp_all add: kept_def)

lemma keptD:
  assumes "kept s' = kept s"
  shows "so_id s' = so_id s" "so_fd s' = so_fd s" "so_type s' = so_type s" "so_protocol s' = so_protocol s"
    "so_low s' = so_low s" "so_sending s' = so_sending s" "so_writing s' = so_writing s" "so_closing s' = so_closing s"
    "so_udpconnecting s' = so_udpconnecting s" "so_dw_buffer s' = so_dw_buffer s" "so_dw_size s' = so_dw_size s"
    "so_dw_offset s' = so_dw_offset s" "so_reading s' = so_reading s" "so_warn_size s' = so_warn_size s"
  using assms unfolding kept_def by (cases s, cases s', simp)+

definition written :: "('e \<Rightarrow> int \<Rightarrow> byte list) \<Rightarrow> ('e \<Rightarrow> nat) \<Rightarrow> int \<Rightarrow> 'e socket_server \<Rightarrow> 'e socket_server \<Rightarrow> bool" where
  "written out intr i ss ss' \<longleftrightarrow>
     (let s = slot_at i ss; s' = slot_at i ss' in
      kept s' = kept s \<and> list_all wb_ok (so_high s')
      \<and> so_wb_size s' - wb_total (so_high s') = so_wb_size s - wb_total (so_high s)
      \<and> out (ss_os ss') (so_fd s) @ wb_bytes (so_high s') = out (ss_os ss) (so_fd s) @ wb_bytes (so_high s)
      \<and> ss_ctrl ss' = ss_ctrl ss \<and> intr (ss_os ss') \<le> intr (ss_os ss))"

lemma written_trans: "written out intr i a b \<Longrightarrow> written out intr i b c \<Longrightarrow> written out intr i a c"
  unfolding written_def Let_def using keptD(2) [of "slot_at i b" "slot_at i a"] by auto

lemma stat_write_simps [simp]:
  "slot_at i (stat_write i n ss) = (slot_at i ss)\<lparr>so_stat := (so_stat (slot_at i ss))
     \<lparr>st_write := st_write (so_stat (slot_at i ss)) + word_of_int n, st_wtime := ss_time ss\<rparr>\<rparr>"
  "ss_os (stat_write i n ss) = ss_os ss" "ss_ctrl (stat_write i n ss) = ss_ctrl ss"
  by (simp_all add: stat_write_def Let_def)

text \<open>One call of \<open>write\<close>: the three ways it goes on.\<close>

lemma send_list_tcp_ok:
  assumes K: "kernel_ok K out intr"
  shows "list_all wb_ok (so_high (slot_at i ss)) \<Longrightarrow>
    \<exists>ss'. send_list_tcp K i True ss = Some (None, ss') \<and> written out intr i ss ss'"
proof (induction "length (so_high (slot_at i ss)) + intr (ss_os ss)" arbitrary: ss rule: less_induct)
  case less
  let ?s = "slot_at i ss"
  show ?case
  proof (cases "so_high ?s")
    case Nil
    then show ?thesis by (subst send_list_tcp.simps) (simp add: wlist_def written_def Let_def)
  next
    case (Cons tmp rest)
    have wb: "wb_ok tmp" "list_all wb_ok rest" using less.prems Cons by simp_all
    obtain r e where w: "k_write K (so_fd ?s) (wb_rest tmp) (ss_os ss) = (r, e)" by fastforce
    show ?thesis
    proof (cases r)
      case (Inr err)
      note E = kernel_write_error [OF K w [unfolded Inr]]
      let ?ss = "ss\<lparr>ss_os := e\<rparr>"
      have wr: "written out intr i ss ?ss" using E less.prems by (auto simp: written_def Let_def)
      show ?thesis
      proof (cases "err = EINTR")
        case True
        with E less.hyps [of ?ss] less.prems Cons obtain ss' where
          "send_list_tcp K i True ?ss = Some (None, ss')" "written out intr i ?ss ss'" by auto
        with True w Inr Cons written_trans [OF wr] show ?thesis
          by (subst send_list_tcp.simps) (simp add: wlist_def sys_def)
      next
        case False
        with E w Inr Cons wr show ?thesis
          by (subst send_list_tcp.simps) (simp add: wlist_def sys_def)
      qed
    next
      case (Inl n)
      note W = kernel_write [OF K w [unfolded Inl]]
      have n: "n \<le> wb_sz tmp" using W(1) wb(1) by simp
      let ?t = "stat_write i (int n) (ss\<lparr>ss_os := e\<rparr>)"
      let ?s' = "(slot_at i ?t)\<lparr>so_wb_size := so_wb_size ?s - int n\<rparr>"
      show ?thesis
      proof (cases "n = wb_sz tmp")
        case False
        let ?tmp = "tmp\<lparr>wb_ptr := wb_ptr tmp + n, wb_sz := wb_sz tmp - n\<rparr>"
        let ?ss = "set_slot i (set_wlist True (?tmp # rest) ?s') ?t"
        note A = wb_advance [OF wb(1) n]
        have "written out intr i ss ?ss"
          using W n wb A Cons by (auto simp: written_def Let_def set_wlist_def)
        with False w Inl Cons show ?thesis
          by (subst send_list_tcp.simps) (simp add: wlist_def sys_def Let_def)
      next
        case True
        let ?ss = "free_obj (wb_buffer tmp) (set_slot i (set_wlist True rest ?s') ?t)"
        have free: "write_buffer_free tmp (set_slot i (set_wlist True rest ?s') ?t) = Some ?ss"
          using wb(1) by (simp add: write_buffer_free_def wb_ok_def)
        have take: "take n (wb_rest tmp) = wb_rest tmp" using True wb(1) by simp
        have wr: "written out intr i ss ?ss"
          using W wb Cons True take by (auto simp: written_def Let_def set_wlist_def free_obj_def)
        have "length (so_high (slot_at i ?ss)) + intr (ss_os ?ss) < length (so_high ?s) + intr (ss_os ss)"
          using W(3) Cons by (simp add: free_obj_def set_wlist_def)
        from less.hyps [OF this] wb(2) obtain ss' where
          "send_list_tcp K i True ?ss = Some (None, ss')" "written out intr i ?ss ss'"
          by (auto simp: free_obj_def set_wlist_def)
        with True w Inl Cons written_trans [OF wr] free show ?thesis
          by (subst send_list_tcp.simps) (simp add: wlist_def sys_def Let_def)
      qed
    qed
  qed
qed

section \<open>The pending bytes of a connection\<close>

text \<open>The requests of one connection's stream, their bytes, and the unfinished direct write.\<close>

fun request_ok :: "int \<Rightarrow> request \<Rightarrow> bool" where
  "request_ok i (Req_D r) = (rs_id r = i \<and> (case rs_sz r of Size n \<Rightarrow> n \<le> length (obj_bytes (rs_buffer r)) | _ \<Rightarrow> False))"
| "request_ok i (Req_W j) = (j = i)"
| "request_ok i _ = False"

fun is_data :: "request \<Rightarrow> bool" where
  "is_data (Req_D r) = True"
| "is_data _ = False"

fun request_bytes :: "request \<Rightarrow> byte list" where
  "request_bytes (Req_D r) = (case rs_sz r of Size n \<Rightarrow> take n (obj_bytes (rs_buffer r)) | USEROBJECT \<Rightarrow> [])"
| "request_bytes _ = []"

lemma no_data_bytes: "\<not> is_data r \<Longrightarrow> request_bytes r = []"
  by (cases r) simp_all

definition dw_bytes :: "socket \<Rightarrow> byte list" where
  "dw_bytes s =
     (case (so_dw_buffer s, so_dw_size s) of
        (Some ob, Size n) \<Rightarrow> drop (so_dw_offset s) (take n (obj_bytes ob))
      | _ \<Rightarrow> [])"

definition dw_ok :: "socket \<Rightarrow> bool" where
  "dw_ok s \<longleftrightarrow>
     (case so_dw_buffer s of
        None \<Rightarrow> True
      | Some ob \<Rightarrow> (case so_dw_size s of
          Size n \<Rightarrow> so_dw_offset s \<le> n \<and> n \<le> length (obj_bytes ob) | USEROBJECT \<Rightarrow> False))"

lemma dw_simps [simp]:
  "dw_ok (s\<lparr>so_writing := b\<rparr>) = dw_ok s" "dw_ok (s\<lparr>so_high := h\<rparr>) = dw_ok s" "dw_ok (s\<lparr>so_wb_size := z\<rparr>) = dw_ok s"
  "dw_ok (s\<lparr>so_warn_size := z\<rparr>) = dw_ok s" "dw_ok (s\<lparr>so_sending := k\<rparr>) = dw_ok s" "dw_ok (s\<lparr>so_stat := st\<rparr>) = dw_ok s"
  "dw_bytes (s\<lparr>so_writing := b\<rparr>) = dw_bytes s" "dw_bytes (s\<lparr>so_high := h\<rparr>) = dw_bytes s" "dw_bytes (s\<lparr>so_wb_size := z\<rparr>) = dw_bytes s"
  "dw_bytes (s\<lparr>so_warn_size := z\<rparr>) = dw_bytes s" "dw_bytes (s\<lparr>so_sending := k\<rparr>) = dw_bytes s" "dw_bytes (s\<lparr>so_stat := st\<rparr>) = dw_bytes s"
  "so_dw_buffer s = None \<Longrightarrow> dw_ok s" "so_dw_buffer s = None \<Longrightarrow> dw_bytes s = []"
  by (simp_all add: dw_ok_def dw_bytes_def split: option.splits send_size.splits)

definition data_count :: "'e socket_server \<Rightarrow> nat" where
  "data_count ss = length (filter is_data (ss_ctrl ss))"

definition pending :: "int \<Rightarrow> 'e socket_server \<Rightarrow> byte list" where
  "pending i ss =
     dw_bytes (slot_at i ss) @ wb_bytes (so_high (slot_at i ss)) @ concat (map request_bytes (ss_ctrl ss))"

text \<open>
  A connection that is only sent to: its reference count is the number of its requests in the pipe, and
  where there are bytes to write, the write event is on or a request to switch it on is in the pipe.
\<close>

definition sending_ok :: "int \<Rightarrow> nat \<Rightarrow> socket \<Rightarrow> bool" where
  "sending_ok i n s \<longleftrightarrow> so_id s = i \<and> so_type s = SOCKET_TYPE_CONNECTED \<and> so_protocol s = PROTOCOL_TCP
     \<and> \<not> so_closing s \<and> so_udpconnecting s = 0 \<and> so_low s = [] \<and> list_all wb_ok (so_high s)
     \<and> so_wb_size s = wb_total (so_high s) \<and> dw_ok s \<and> so_sending s = ID_TAG16 i * 2 ^ 16 + n
     \<and> (so_high s \<noteq> [] \<longrightarrow> so_writing s)"

definition stream_ok :: "int \<Rightarrow> 'e socket_server \<Rightarrow> bool" where
  "stream_ok i ss \<longleftrightarrow> sending_ok i (data_count ss) (slot_at i ss) \<and> list_all (request_ok i) (ss_ctrl ss)
     \<and> (so_dw_buffer (slot_at i ss) \<noteq> None \<longrightarrow> so_writing (slot_at i ss) \<or> Req_W i \<in> set (ss_ctrl ss))"

lemma sending_okD:
  assumes "sending_ok i n s"
  shows "so_id s = i" "so_type s = SOCKET_TYPE_CONNECTED" "so_protocol s = PROTOCOL_TCP" "\<not> so_closing s"
    "so_udpconnecting s = 0" "so_low s = []" "list_all wb_ok (so_high s)" "so_wb_size s = wb_total (so_high s)"
    "dw_ok s" "so_sending s = ID_TAG16 i * 2 ^ 16 + n" "so_high s \<noteq> [] \<Longrightarrow> so_writing s"
  using assms unfolding sending_ok_def by blast+

definition taken :: "('e \<Rightarrow> int \<Rightarrow> byte list) \<Rightarrow> int \<Rightarrow> 'e socket_server \<Rightarrow> byte list" where
  "taken out i ss = out (ss_os ss) (so_fd (slot_at i ss))"

text \<open>A step that keeps the stream: no byte is lost, doubled or overtaken, and \<open>new\<close> comes last.\<close>

definition stream_step_ok ::
  "('e \<Rightarrow> int \<Rightarrow> byte list) \<Rightarrow> int \<Rightarrow> byte list \<Rightarrow> nat \<Rightarrow> 'e socket_server \<Rightarrow> 'e socket_server \<Rightarrow> bool" where
  "stream_step_ok out i new k ss ss' \<longleftrightarrow> stream_ok i ss' \<and> data_count ss' \<le> data_count ss + k
     \<and> taken out i ss' @ pending i ss' = taken out i ss @ pending i ss @ new"

section \<open>The socket thread\<close>

lemma enable_write_ok:
  assumes "kernel_ok K out intr"
  obtains ss' where "enable_write K i b ss = (False, ss')" "slot_at i ss' = (slot_at i ss)\<lparr>so_writing := b\<rparr>"
    "ss_ctrl ss' = ss_ctrl ss" "out (ss_os ss') = out (ss_os ss)"
proof (cases "so_writing (slot_at i ss) = b")
  case True
  then have "(slot_at i ss)\<lparr>so_writing := b\<rparr> = slot_at i ss" by (cases "slot_at i ss") simp
  with True that [of ss] show ?thesis by (simp add: enable_write_def)
next
  case False
  obtain f e where f: "k_sp_enable K (so_fd (slot_at i ss)) (so_reading (slot_at i ss)) b (ss_os ss) = (f, e)" by fastforce
  with False kernel_enable [OF assms f]
    that [of "(set_slot i ((slot_at i ss)\<lparr>so_writing := b\<rparr>) ss)\<lparr>ss_os := e\<rparr>"]
  show ?thesis by (simp add: enable_write_def sys_def Let_def)
qed

lemma take_dw_ok:
  assumes "dw_ok (slot_at i ss)" "list_all wb_ok (so_high (slot_at i ss))"
    "so_wb_size (slot_at i ss) = wb_total (so_high (slot_at i ss))"
  obtains s' where "take_dw i ss = Some (set_slot i s' ss)" "list_all wb_ok (so_high s')" "so_dw_buffer s' = None"
    "so_wb_size s' = wb_total (so_high s')" "wb_bytes (so_high s') = dw_bytes (slot_at i ss) @ wb_bytes (so_high (slot_at i ss))"
    "kept (s'\<lparr>so_dw_buffer := None\<rparr>) = kept ((slot_at i ss)\<lparr>so_dw_buffer := None\<rparr>)"
proof (cases "so_dw_buffer (slot_at i ss)")
  case None
  moreover have "set_slot i (slot_at i ss) ss = ss" by (cases ss) (simp add: set_slot_def slot_at_def)
  ultimately show ?thesis using that [of "slot_at i ss"] assms by (simp add: take_dw_def dw_bytes_def)
next
  case (Some ob)
  let ?s = "slot_at i ss"
  from Some assms(1) obtain n where n: "so_dw_size ?s = Size n" "so_dw_offset ?s \<le> n" "n \<le> length (obj_bytes ob)"
    by (auto simp: dw_ok_def split: send_size.splits)
  let ?b = "\<lparr>wb_buffer = ob, wb_base = obj_addr ob, wb_ptr = so_dw_offset ?s, wb_data = take n (obj_bytes ob),
    wb_sz = n - so_dw_offset ?s, wb_userobject = False, wb_udp_address = []\<rparr>"
  let ?s' = "?s\<lparr>so_wb_size := so_wb_size ?s + int (n - so_dw_offset ?s), so_high := ?b # so_high ?s, so_dw_buffer := None\<rparr>"
  have "take_dw i ss = Some (set_slot i ?s' ss)"
    using Some n by (simp add: take_dw_def send_object_init_def Let_def min_def)
  moreover have "wb_ok ?b" "wb_rest ?b = dw_bytes ?s" using Some n by (simp_all add: wb_ok_def wb_rest_def dw_bytes_def)
  ultimately show ?thesis using that [of ?s'] assms by (simp add: kept_def)
qed

lemma send_done_ok:
  assumes K: "kernel_ok K out intr" and "so_high (slot_at i ss) = []" "so_low (slot_at i ss) = []"
    "so_wb_size (slot_at i ss) = 0" "\<not> so_closing (slot_at i ss)"
  obtains r ss' w where "send_done K i ss = Some (r, ss')"
    "slot_at i ss' = (slot_at i ss)\<lparr>so_writing := False, so_warn_size := w\<rparr>" "ss_ctrl ss' = ss_ctrl ss" "out (ss_os ss') = out (ss_os ss)"
proof -
  obtain ss1 where e: "enable_write K i False ss = (False, ss1)" "slot_at i ss1 = (slot_at i ss)\<lparr>so_writing := False\<rparr>"
    "ss_ctrl ss1 = ss_ctrl ss" "out (ss_os ss1) = out (ss_os ss)" by (rule enable_write_ok [OF K])
  show ?thesis
  proof (cases "so_warn_size (slot_at i ss) > 0")
    case True
    with e assms(2-) that [of _ "set_slot i ((slot_at i ss1)\<lparr>so_warn_size := 0\<rparr>) ss1" 0] show ?thesis
      by (simp add: send_done_def send_buffer_empty_def Let_def)
  next
    case False
    show ?thesis
    proof (rule that)
      show "send_done K i ss = Some (None, ss1)"
        using False e assms(2-) by (simp add: send_done_def send_buffer_empty_def Let_def)
      show "slot_at i ss1 = (slot_at i ss)\<lparr>so_writing := False, so_warn_size := so_warn_size (slot_at i ss)\<rparr>"
        unfolding e(2) by (cases "slot_at i ss") simp
    qed (rule e)+
  qed
qed

text \<open>A write event.\<close>

lemma send_buffer_ok:
  assumes K: "kernel_ok K out intr" and ok: "stream_ok i ss" and w: "so_writing (slot_at i ss)"
  shows "\<exists>r ss'. send_buffer K i ss = Some (r, ss') \<and> stream_step_ok out i [] 0 ss ss'"
proof -
  note S = sending_okD [OF ok [unfolded stream_ok_def, THEN conjunct1]]
  obtain s1 where t: "take_dw i ss = Some (set_slot i s1 ss)" "list_all wb_ok (so_high s1)" "so_dw_buffer s1 = None"
    "so_wb_size s1 = wb_total (so_high s1)" "wb_bytes (so_high s1) = dw_bytes (slot_at i ss) @ wb_bytes (so_high (slot_at i ss))"
    and k1: "kept (s1\<lparr>so_dw_buffer := None\<rparr>) = kept ((slot_at i ss)\<lparr>so_dw_buffer := None\<rparr>)"
    by (rule take_dw_ok [OF S(9,7,8)])
  let ?ss1 = "set_slot i s1 ss"
  note k1 = keptD [OF k1, simplified]
  from send_list_tcp_ok [OF K, of i ?ss1] t(2) obtain ss2 where
    sl: "send_list_tcp K i True ?ss1 = Some (None, ss2)" "written out intr i ?ss1 ss2" by auto
  define s2 where "s2 = slot_at i ss2"
  have w2: "kept s2 = kept s1" "list_all wb_ok (so_high s2)" "so_wb_size s2 = wb_total (so_high s2)"
    "out (ss_os ss2) (so_fd s1) @ wb_bytes (so_high s2) = out (ss_os ss) (so_fd s1) @ wb_bytes (so_high s1)"
    "ss_ctrl ss2 = ss_ctrl ss"
    using sl(2) t(4) by (simp_all add: written_def Let_def s2_def)
  note k2 = keptD [OF w2(1)]
  have low: "so_low s1 = []" "so_low s2 = []" "\<not> so_closing s2" "so_protocol s1 = PROTOCOL_TCP"
    using S(3,4,6) k1 k2 by simp_all
  have inv: "stream_step_ok out i [] 0 ss ss'"
    if "slot_at i ss' = s2\<lparr>so_writing := b, so_warn_size := n\<rparr>" "b \<or> so_high s2 = []" "ss_ctrl ss' = ss_ctrl ss2"
      "out (ss_os ss') = out (ss_os ss2)" for ss' b n
  proof -
    have "sending_ok i (data_count ss') (slot_at i ss')"
      using that S k1 k2 w2 t(3) unfolding sending_ok_def dw_ok_def data_count_def by auto
    moreover have "taken out i ss' @ pending i ss' = taken out i ss @ pending i ss"
      using that w2(4,5) k1(2) k2(2) k2(10) t(3,5) by (simp add: taken_def pending_def dw_bytes_def)
    ultimately show ?thesis using that ok w2(5) k2(10) t(3)
      by (simp add: stream_step_ok_def stream_ok_def data_count_def)
  qed
  show ?thesis
  proof (cases "so_high s2 = []")
    case False
    then have "send_buffer_' K i ?ss1 = Some (None, ss2)"
      using sl(1) low by (simp add: send_buffer_'_def send_list_def s2_def)
    moreover have "stream_step_ok out i [] 0 ss ss2"
      by (rule inv [where ss' = ss2 and b = True and n = "so_warn_size s2"]) (use w k1(7) k2(7) in \<open>cases s2, simp add: s2_def [symmetric]\<close>)+
    ultimately show ?thesis using t(1) by (simp add: send_buffer_def)
  next
    case True
    then obtain r ss3 n where d: "send_done K i ss2 = Some (r, ss3)" "slot_at i ss3 = s2\<lparr>so_writing := False, so_warn_size := n\<rparr>"
      "ss_ctrl ss3 = ss_ctrl ss2" "out (ss_os ss3) = out (ss_os ss2)"
      using send_done_ok [OF K, of i ss2] w2(3) low s2_def by (metis wb_simps(4))
    then have "send_buffer_' K i ?ss1 = Some (r, ss3)"
      using sl(1) low True by (simp add: send_buffer_'_def send_list_def s2_def)
    with inv [OF d(2) _ d(3,4)] True t(1) show ?thesis by (simp add: send_buffer_def)
  qed
qed

text \<open>A request to write.\<close>

lemma trigger_write_ok:
  assumes K: "kernel_ok K out intr" and ok: "stream_ok i ss" and c: "ss_ctrl ss = Req_W i # rs"
  shows "\<exists>r ss'. ctrl_cmd K err0 ss = Some (r, ss') \<and> stream_step_ok out i [] 0 ss ss'"
proof -
  let ?ss = "ss\<lparr>ss_ctrl := rs\<rparr>"
  note S = sending_okD [OF ok [unfolded stream_ok_def, THEN conjunct1]]
  obtain ss' where e: "enable_write K i True ?ss = (False, ss')" "slot_at i ss' = (slot_at i ss)\<lparr>so_writing := True\<rparr>"
    "ss_ctrl ss' = rs" "out (ss_os ss') = out (ss_os ss)" using enable_write_ok [OF K, of i True ?ss] by auto
  have "ctrl_cmd K err0 ss = Some (None, ss')"
    using c e(1) S(1,2) by (simp add: ctrl_cmd_def trigger_write_def socket_invalid_def)
  moreover have "sending_ok i (data_count ss') (slot_at i ss')"
    using S c e unfolding sending_ok_def data_count_def by simp
  then have "stream_step_ok out i [] 0 ss ss'"
    using ok c e by (simp add: stream_step_ok_def stream_ok_def data_count_def taken_def pending_def)
  ultimately show ?thesis by blast
qed

lemma append_sendbuffer_ok:
  assumes "rs_sz r = Size n" "n \<le> length (obj_bytes (rs_buffer r))"
  obtains wb where "append_sendbuffer i r ss = Some (set_slot i ((slot_at i ss)\<lparr>so_wb_size := so_wb_size (slot_at i ss) + int n,
      so_high := so_high (slot_at i ss) @ [wb]\<rparr>) ss)" "wb_ok wb" "wb_rest wb = take n (obj_bytes (rs_buffer r))" "wb_sz wb = n"
proof (rule that [of "\<lparr>wb_buffer = rs_buffer r, wb_base = obj_addr (rs_buffer r), wb_ptr = 0, wb_data = take n (obj_bytes (rs_buffer r)),
    wb_sz = n, wb_userobject = False, wb_udp_address = []\<rparr>"])
qed (use assms in \<open>simp_all add: append_sendbuffer_def append_sendbuffer_'_def send_object_init_def wb_ok_def wb_rest_def
      set_wlist_def wlist_def min_def Let_def\<close>)

lemma wb_warning_ok:
  obtains r n where "wb_warning i ss = (r, set_slot i ((slot_at i ss)\<lparr>so_warn_size := n\<rparr>) ss)"
proof (cases "so_wb_size (slot_at i ss) \<ge> WARNING_SIZE \<and> so_wb_size (slot_at i ss) \<ge> so_warn_size (slot_at i ss)")
  case True
  then show ?thesis using that by (simp add: wb_warning_def Let_def)
next
  case False
  have "set_slot i ((slot_at i ss)\<lparr>so_warn_size := so_warn_size (slot_at i ss)\<rparr>) ss = ss"
    by (cases ss) (simp add: set_slot_def slot_at_def)
  with False have "wb_warning i ss = (None, set_slot i ((slot_at i ss)\<lparr>so_warn_size := so_warn_size (slot_at i ss)\<rparr>) ss)"
    by (auto simp: wb_warning_def Let_def)
  then show ?thesis by (rule that)
qed

text \<open>A request with data. What is appended and enabled keeps the invariant when the count goes down by one.\<close>

lemma data_request_ok:
  assumes K: "kernel_ok K out intr" and ok: "stream_ok i ss" and c: "ss_ctrl ss = Req_D r # rs"
    and few: "data_count ss < 2 ^ 16"
  shows "\<exists>rep ss'. ctrl_cmd K err0 ss = Some (rep, ss') \<and> stream_step_ok out i [] 0 ss ss'"
proof -
  let ?ss = "ss\<lparr>ss_ctrl := rs\<rparr>"
  let ?s = "slot_at i ss"
  note S = sending_okD [OF ok [unfolded stream_ok_def, THEN conjunct1]]
  from ok c obtain n where r: "rs_id r = i" "rs_sz r = Size n" "n \<le> length (obj_bytes (rs_buffer r))"
    by (auto simp: stream_ok_def split: send_size.splits)
  obtain wb where a: "append_sendbuffer i r ?ss = Some (set_slot i (?s\<lparr>so_wb_size := so_wb_size ?s + int n,
      so_high := so_high ?s @ [wb]\<rparr>) ?ss)" "wb_ok wb" "wb_rest wb = take n (obj_bytes (rs_buffer r))" "wb_sz wb = n"
    using append_sendbuffer_ok [OF r(2,3), of i ?ss] by auto
  let ?s1 = "?s\<lparr>so_wb_size := so_wb_size ?s + int n, so_high := so_high ?s @ [wb]\<rparr>"
  let ?ss1 = "set_slot i ?s1 ?ss"
  obtain ss2 where ss2: "slot_at i ss2 = ?s1\<lparr>so_writing := True\<rparr>" "ss_ctrl ss2 = rs" "out (ss_os ss2) = out (ss_os ss)"
    and send: "send_socket K r True None ?ss = Some (wb_warning i ss2)"
  proof (cases "so_high ?s = []")
    case True
    obtain ss2 where e: "enable_write K i True ?ss1 = (False, ss2)" "slot_at i ss2 = ?s1\<lparr>so_writing := True\<rparr>"
      "ss_ctrl ss2 = rs" "out (ss_os ss2) = out (ss_os ss)" using enable_write_ok [OF K, of i True ?ss1] by auto
    show ?thesis
      by (rule that [OF e(2-4)])
        (use True e(1) a(1) r S in \<open>simp add: send_socket_def send_first_def send_buffer_empty_def send_object_init_def Let_def\<close>)
  next
    case False
    have "?s1\<lparr>so_writing := True\<rparr> = ?s1" using S(11) [OF False] by (cases ?s) simp
    with False a(1) r S that [of ?ss1] show ?thesis
      by (simp add: send_socket_def send_buffer_empty_def send_object_init_def Let_def)
  qed
  obtain rep w where w: "wb_warning i ss2 = (rep, set_slot i ((slot_at i ss2)\<lparr>so_warn_size := w\<rparr>) ss2)"
    by (rule wb_warning_ok)
  let ?s3 = "?s1\<lparr>so_writing := True, so_warn_size := w\<rparr>"
  let ?s4 = "?s3\<lparr>so_sending := so_sending ?s - 1\<rparr>"
  let ?ss4 = "set_slot i ?s4 ss2"
  have cnt: "data_count ss = Suc (length (filter is_data rs))" using c by (simp add: data_count_def)
  have "so_sending ?s mod 2 ^ 16 = data_count ss" using S(10) few by simp
  then have dec: "dec_sending_ref i (set_slot i ?s3 ss2) = Some ?ss4"
    using cnt S(1,3) by (simp add: dec_sending_ref_def Let_def)
  have "ctrl_cmd K err0 ss = Some (rep, ?ss4)"
    using c send w r(1) dec ss2(1) by (simp add: ctrl_cmd_def)
  moreover have "sending_ok i (data_count ?ss4) ?s4"
    using S a(2,4) ss2(2) cnt unfolding sending_ok_def data_count_def by simp
  then have "stream_step_ok out i [] 0 ss ?ss4"
    using ok c ss2(2,3) a(3) r(2) by (simp add: stream_step_ok_def stream_ok_def data_count_def taken_def pending_def)
  ultimately show ?thesis by blast
qed

section \<open>The calls of the services\<close>

definition buf_ok :: "int \<Rightarrow> socket_sendbuffer \<Rightarrow> bool" where
  "buf_ok i buf \<longleftrightarrow> sb_id buf = i \<and> (sb_type buf = SOCKET_BUFFER_MEMORY \<or> sb_type buf = SOCKET_BUFFER_RAWPOINTER)
     \<and> sb_sz buf \<le> length (obj_bytes (sb_buffer buf))"

definition buf_bytes :: "socket_sendbuffer \<Rightarrow> byte list" where
  "buf_bytes buf = take (sb_sz buf) (obj_bytes (sb_buffer buf))"

lemma buf_ok_simps:
  assumes "buf_ok i buf"
  shows "\<exists>so. send_object_init_from_sendbuffer ss buf = Some so \<and> snd_bytes so = buf_bytes buf"
    "\<exists>ss'. free_buffer buf ss = Some ss' \<and> slot_at j ss' = slot_at j ss \<and> ss_ctrl ss' = ss_ctrl ss \<and> ss_os ss' = ss_os ss"
    "\<exists>ob ss'. clone_buffer buf ss = Some ((ob, Size (sb_sz buf)), ss') \<and> take (sb_sz buf) (obj_bytes ob) = buf_bytes buf
       \<and> sb_sz buf \<le> length (obj_bytes ob) \<and> slot_at j ss' = slot_at j ss \<and> ss_ctrl ss' = ss_ctrl ss \<and> ss_os ss' = ss_os ss"
  using assms
  by (auto simp: buf_ok_def buf_bytes_def send_object_init_from_sendbuffer_def send_object_init_def free_buffer_def
      clone_buffer_def free_obj_def SOCKET_BUFFER_MEMORY_def SOCKET_BUFFER_OBJECT_def SOCKET_BUFFER_RAWPOINTER_def)

lemma socket_server_send_ok:
  assumes K: "kernel_ok K out intr" and ok: "stream_ok i ss" and b: "buf_ok i buf" and few: "data_count ss < 2 ^ 16 - 1"
  shows "\<exists>ss'. socket_server_send K buf ss = Some (0, ss') \<and> stream_step_ok out i (buf_bytes buf) 1 ss ss'"
proof -
  let ?s = "slot_at i ss"
  note S = sending_okD [OF ok [unfolded stream_ok_def, THEN conjunct1]]
  have id: "sb_id buf = i" and valid: "\<not> socket_invalid ?s i" "\<not> so_closing ?s"
    using b S by (simp_all add: buf_ok_def socket_invalid_def)
  have mod: "so_sending ?s mod 2 ^ 16 = data_count ss" using S(10) few by simp
  show ?thesis
  proof (cases "can_direct_write ?s i")
    case True
    then have e: "so_high ?s = []" "so_dw_buffer ?s = None" "data_count ss = 0"
      using S(2) mod by (auto simp: can_direct_write_def nomore_sending_data_def send_buffer_empty_def)
    have ctrl: "concat (map request_bytes (ss_ctrl ss)) = []"
      using e(3) no_data_bytes by (auto simp: data_count_def filter_empty_conv)
    from buf_ok_simps(1) [OF b, of ss] obtain so where so: "send_object_init_from_sendbuffer ss buf = Some so"
      "snd_bytes so = buf_bytes buf" by blast
    obtain r os where wr: "k_write K (so_fd ?s) (buf_bytes buf) (ss_os ss) = (r, os)" by fastforce
    define n where "n = (case r of Inl n \<Rightarrow> n | Inr _ \<Rightarrow> 0)"
    have out: "n \<le> length (buf_bytes buf) \<and> out os (so_fd ?s) = out (ss_os ss) (so_fd ?s) @ take n (buf_bytes buf)"
    proof (cases r)
      case (Inl m)
      with kernel_write [OF K wr [unfolded Inl]] show ?thesis by (simp add: n_def)
    next
      case (Inr err)
      with kernel_write_error [OF K wr [unfolded Inr]] show ?thesis by (simp add: n_def)
    qed
    note out = out [THEN conjunct1] out [THEN conjunct2]
    let ?ss1 = "stat_write i (int n) (ss\<lparr>ss_os := os\<rparr>)"
    have dw: "direct_write K i (buf_bytes buf) ss = (Some n, ss\<lparr>ss_os := os\<rparr>)"
      using S(3) wr by (simp add: direct_write_def sys_def n_def)
    show ?thesis
    proof (cases "n = length (buf_bytes buf)")
      case n: True
      from buf_ok_simps(2) [OF b, of ?ss1 i] obtain ss' where f: "free_buffer buf ?ss1 = Some ss'"
        "slot_at i ss' = slot_at i ?ss1" "ss_ctrl ss' = ss_ctrl ss" "ss_os ss' = os" by auto
      have "socket_server_send K buf ss = Some (0, ss')"
        using id valid True so dw n f(1) by (simp add: socket_server_send_def Let_def)
      moreover have "sending_ok i (data_count ss') (slot_at i ss')"
        using S f e unfolding sending_ok_def data_count_def by simp
      then have "stream_step_ok out i (buf_bytes buf) 1 ss ss'"
        using ok f e n out by (simp add: ctrl stream_step_ok_def stream_ok_def data_count_def taken_def pending_def)
      ultimately show ?thesis by blast
    next
      case n: False
      from buf_ok_simps(3) [OF b, of ?ss1 i] obtain ob ss' where f: "clone_buffer buf ?ss1 = Some ((ob, Size (sb_sz buf)), ss')"
        "take (sb_sz buf) (obj_bytes ob) = buf_bytes buf" "sb_sz buf \<le> length (obj_bytes ob)"
        "slot_at i ss' = slot_at i ?ss1" "ss_ctrl ss' = ss_ctrl ss" "ss_os ss' = os" by auto
      let ?s2 = "(slot_at i ?ss1)\<lparr>so_dw_buffer := Some ob, so_dw_size := Size (sb_sz buf), so_dw_offset := n\<rparr>"
      let ?ss2 = "send_request (Req_W i) (set_slot i ?s2 ss')"
      have "socket_server_send K buf ss = Some (0, ?ss2)"
        using id valid True so dw n f(1,4) by (simp add: socket_server_send_def Let_def)
      moreover have sl: "slot_at i ?ss2 = ?s2" "ss_ctrl ?ss2 = ss_ctrl ss @ [Req_W i]" "ss_os ?ss2 = os"
        using f(5,6) by (simp_all add: send_request_def)
      have "n \<le> sb_sz buf" using out(1) b by (simp add: buf_bytes_def buf_ok_def)
      then have dw2: "dw_ok ?s2" "dw_bytes ?s2 = drop n (buf_bytes buf)" using f(2,3) by (simp_all add: dw_ok_def dw_bytes_def)
      have "sending_ok i (data_count ?ss2) (slot_at i ?ss2)"
        unfolding sl using S dw2(1) e sl(2) unfolding sending_ok_def data_count_def by simp
      then have "stream_step_ok out i (buf_bytes buf) 1 ss ?ss2"
        using ok f(2) e out(2) sl dw2(2) by (simp add: ctrl stream_step_ok_def stream_ok_def data_count_def taken_def pending_def)
      ultimately show ?thesis by blast
    qed
  next
    case False
    let ?s1 = "?s\<lparr>so_sending := so_sending ?s + 1\<rparr>"
    let ?ss1 = "set_slot i ?s1 ss"
    have "so_sending ?s div 2 ^ 16 = ID_TAG16 i" "so_sending ?s mod 2 ^ 16 \<noteq> 0xffff" using S(10) few by simp_all
    then have inc: "inc_sending_ref i ss = Some ?ss1" using S(3) by (simp add: inc_sending_ref_def Let_def)
    from buf_ok_simps(3) [OF b, of ?ss1 i] obtain ob ss' where f: "clone_buffer buf ?ss1 = Some ((ob, Size (sb_sz buf)), ss')"
      "take (sb_sz buf) (obj_bytes ob) = buf_bytes buf" "sb_sz buf \<le> length (obj_bytes ob)"
      "slot_at i ss' = ?s1" "ss_ctrl ss' = ss_ctrl ss" "ss_os ss' = ss_os ss" by auto
    let ?ss2 = "send_request (Req_D \<lparr>rs_id = i, rs_sz = Size (sb_sz buf), rs_buffer = ob\<rparr>) ss'"
    have "socket_server_send K buf ss = Some (0, ?ss2)"
      using id valid False inc f(1) by (simp add: socket_server_send_def Let_def)
    moreover have sl: "slot_at i ?ss2 = ?s1" "ss_os ?ss2 = ss_os ss"
        "ss_ctrl ?ss2 = ss_ctrl ss @ [Req_D \<lparr>rs_id = i, rs_sz = Size (sb_sz buf), rs_buffer = ob\<rparr>]"
      using f(4-6) by (simp_all add: send_request_def slot_at_def)
    have "sending_ok i (data_count ?ss2) (slot_at i ?ss2)"
      unfolding sl using S sl(3) unfolding sending_ok_def data_count_def by simp
    then have "stream_step_ok out i (buf_bytes buf) 1 ss ?ss2"
      using ok f(2,3) sl by (auto simp add: stream_step_ok_def stream_ok_def data_count_def taken_def pending_def)
    ultimately show ?thesis by blast
  qed
qed

section \<open>Runs\<close>

text \<open>What may happen on one connection: a service sends, the socket thread carries out the first request of
  the pipe, or an event tells that the socket can be written.\<close>

datatype stream_step = Send_step socket_sendbuffer | Ctrl_step | Write_step

definition stream_step ::
  "'e kernel \<Rightarrow> errno \<Rightarrow> int \<Rightarrow> stream_step \<Rightarrow> 'e socket_server \<Rightarrow> 'e socket_server option" where
  "stream_step K err0 i st ss =
     (case st of
        Send_step buf \<Rightarrow> map_option snd (socket_server_send K buf ss)
      | Ctrl_step \<Rightarrow> if ss_ctrl ss = [] then Some ss else map_option snd (ctrl_cmd K err0 ss)
      | Write_step \<Rightarrow> if so_writing (slot_at i ss) then map_option snd (send_buffer K i ss) else Some ss)"

fun stream_run ::
  "'e kernel \<Rightarrow> errno \<Rightarrow> int \<Rightarrow> stream_step list \<Rightarrow> 'e socket_server \<Rightarrow> 'e socket_server option" where
  "stream_run K err0 i [] ss = Some ss"
| "stream_run K err0 i (st # sts) ss = do {
     ss \<leftarrow> stream_step K err0 i st ss;
     stream_run K err0 i sts ss }"

fun step_bytes :: "stream_step \<Rightarrow> byte list" where
  "step_bytes (Send_step buf) = buf_bytes buf"
| "step_bytes _ = []"

fun step_buf_ok :: "int \<Rightarrow> stream_step \<Rightarrow> bool" where
  "step_buf_ok i (Send_step buf) = buf_ok i buf"
| "step_buf_ok i _ = True"

lemma stream_step_one:
  assumes K: "kernel_ok K out intr" and ok: "stream_ok i ss" and b: "step_buf_ok i st" and few: "data_count ss < 2 ^ 16 - 1"
  shows "\<exists>ss'. stream_step K err0 i st ss = Some ss' \<and> stream_step_ok out i (step_bytes st) 1 ss ss'"
proof -
  have stay: "stream_step_ok out i [] 1 ss ss" using ok by (simp add: stream_step_ok_def)
  have weak: "stream_step_ok out i [] 1 ss ss'" if "stream_step_ok out i [] 0 ss ss'" for ss'
    using that by (simp add: stream_step_ok_def)
  show ?thesis
  proof (cases st)
    case (Send_step buf)
    with socket_server_send_ok [OF K ok _ few] b show ?thesis by (force simp: stream_step_def)
  next
    case Ctrl_step
    show ?thesis
    proof (cases "ss_ctrl ss")
      case Nil
      with Ctrl_step stay show ?thesis by (simp add: stream_step_def)
    next
      case (Cons r rs)
      with ok have "request_ok i r" by (simp add: stream_ok_def)
      then consider d where "r = Req_D d" | "r = Req_W i" by (cases r) auto
      then have "\<exists>rep ss'. ctrl_cmd K err0 ss = Some (rep, ss') \<and> stream_step_ok out i [] 0 ss ss'"
        using data_request_ok [OF K ok] trigger_write_ok [OF K ok] Cons few by cases auto
      with Ctrl_step Cons weak show ?thesis by (auto simp: stream_step_def)
    qed
  next
    case Write_step
    with send_buffer_ok [OF K ok] stay weak show ?thesis by (cases "so_writing (slot_at i ss)") (auto simp: stream_step_def)
  qed
qed

lemma stream_run_ok:
  "kernel_ok K out intr \<Longrightarrow> stream_ok i ss \<Longrightarrow> list_all (step_buf_ok i) sts \<Longrightarrow> data_count ss + length sts < 2 ^ 16 \<Longrightarrow>
   \<exists>ss'. stream_run K err0 i sts ss = Some ss' \<and> stream_ok i ss'
     \<and> taken out i ss' @ pending i ss' = taken out i ss @ pending i ss @ concat (map step_bytes sts)"
proof (induction sts arbitrary: ss)
  case (Cons st sts)
  from stream_step_one [OF Cons.prems(1,2), of st err0] Cons.prems(3,4) obtain ss1 where
    s: "stream_step K err0 i st ss = Some ss1" "stream_step_ok out i (step_bytes st) 1 ss ss1" by auto
  with Cons.prems obtain ss' where "stream_run K err0 i sts ss1 = Some ss'" "stream_ok i ss'"
    "taken out i ss' @ pending i ss' = taken out i ss1 @ pending i ss1 @ concat (map step_bytes sts)"
    using Cons.IH [of ss1] by (auto simp: stream_step_ok_def)
  with s show ?case by (simp add: stream_step_ok_def)
qed simp

section \<open>Properties\<close>

text \<open>A connection starts with nothing to send.\<close>

lemma new_fd_stream_ok:
  assumes K: "kernel_ok K out intr" and "so_udpconnecting (slot_at i ss) = 0" "ss_ctrl ss = []"
    and n: "new_fd K i fd PROTOCOL_TCP opaque reading ss = Some (True, ss')"
  shows "stream_ok i (set_type i SOCKET_TYPE_CONNECTED ss')" "pending i (set_type i SOCKET_TYPE_CONNECTED ss') = []"
proof -
  let ?s = "slot_at i ss"
  obtain b e where add: "k_sp_add K fd (ss_os ss) = (b, e)" by fastforce
  from n add have h: "so_high ?s = []" "so_low ?s = []" "\<not> b"
    by (auto simp: new_fd_def sys_def Let_def split: if_splits prod.splits)
  obtain s2 where s2: "slot_at i ss' = s2" "so_id s2 = i" "so_protocol s2 = PROTOCOL_TCP" "\<not> so_closing s2"
    "so_udpconnecting s2 = 0" "so_low s2 = []" "so_high s2 = []" "so_wb_size s2 = 0" "so_dw_buffer s2 = None"
    "so_sending s2 = ID_TAG16 i * 2 ^ 16" "ss_ctrl ss' = []"
    using n add h assms(2,3) by (auto simp: new_fd_def sys_def enable_read_def Let_def split: if_splits prod.splits)
  then show "stream_ok i (set_type i SOCKET_TYPE_CONNECTED ss')" "pending i (set_type i SOCKET_TYPE_CONNECTED ss') = []"
    by (simp_all add: set_type_def stream_ok_def sending_ok_def data_count_def pending_def dw_ok_def dw_bytes_def)
qed

text \<open>A kernel whose \<open>write\<close> takes what a list of quotas allows.\<close>

type_synonym quota_state = "nat list \<times> (int \<Rightarrow> byte list)"

definition quota_kernel :: "quota_state kernel" where
  "quota_kernel = \<lparr>k_sp_add = (\<lambda>fd e. (False, e)), k_sp_enable = (\<lambda>fd r w e. (False, e)), k_sp_del = (\<lambda>fd e. e),
     k_sp_wait = (\<lambda>e. (Inl [], e)), k_close = (\<lambda>fd e. e), k_shutdown_rd = (\<lambda>fd e. e), k_shutdown_wr = (\<lambda>fd e. e),
     k_setsockopt = (\<lambda>fd w v e. e), k_tune = (\<lambda>fd e. e), k_nonblocking = (\<lambda>fd e. e),
     k_write = (\<lambda>fd bs (qs, f). case qs of [] \<Rightarrow> (Inr EAGAIN, (qs, f))
        | q # qs \<Rightarrow> (Inl (min q (length bs)), (qs, f(fd := f fd @ take (min q (length bs)) bs)))),
     k_sendto = (\<lambda>fd bs sa e. (Inr EAGAIN, e)), k_read = (\<lambda>fd n e. (Inr EAGAIN, e)), k_recvfrom = (\<lambda>fd e. (Inr EAGAIN, e)),
     k_accept = (\<lambda>fd e. (Inr EAGAIN, e)), k_so_error = (\<lambda>fd e. (None, e)), k_peername = (\<lambda>fd e. (None, e)),
     k_sockname = (\<lambda>fd e. (None, e)), k_getaddrinfo = (\<lambda>t h p e. (Inl [], e)), k_socket = (\<lambda>t a e. (Inl 9, e)),
     k_connect = (\<lambda>fd a e. (None, e)), k_reuseaddr = (\<lambda>fd e. (False, e)), k_bind = (\<lambda>fd a e. (False, e)),
     k_listen = (\<lambda>fd b e. (False, e)), k_strerror = (\<lambda>err. []), k_inet_ntop = (\<lambda>a. None)\<rparr>"

lemma quota_kernel_ok: "kernel_ok quota_kernel snd (\<lambda>e. 0)"
  unfolding kernel_ok_def by (auto simp: quota_kernel_def split: list.splits)

definition new_server :: "quota_state \<Rightarrow> quota_state socket_server" where
  "new_server e = snd (reserve_loop 1 (socket_server_create 0 (\<lambda>i. socket_null) e))"

lemma reserve_first:
  "reserve_loop 1 (socket_server_create 0 (\<lambda>i. socket_null) e) =
     (1, set_slot 1 (socket_null\<lparr>so_type := SOCKET_TYPE_RESERVE, so_id := 1, so_protocol := PROTOCOL_UNKNOWN,
            so_udpconnecting := 0, so_fd := -1\<rparr>) ((socket_server_create 0 (\<lambda>i. socket_null) e)\<lparr>ss_alloc_id := 1\<rparr>))"
  by (simp add: socket_server_create_def next_id_def slot_at_def HASH_ID_def MAX_SOCKET_def socket_null_def Let_def)

lemma new_server_fd:
  "so_udpconnecting (slot_at 1 (new_server e)) = 0" "ss_ctrl (new_server e) = []"
  "\<exists>ss. new_fd quota_kernel 1 fd PROTOCOL_TCP opaque True (new_server e) = Some (True, ss) \<and> ss_os ss = e
     \<and> so_fd (slot_at 1 ss) = fd \<and> ss_ctrl ss = []"
  unfolding new_server_def reserve_first
  by (simp_all add: new_fd_def sys_def quota_kernel_def enable_read_def Let_def socket_null_def)
    (simp_all add: socket_server_create_def)


definition raw_buffer :: "byte list \<Rightarrow> socket_sendbuffer" where
  "raw_buffer bs = \<lparr>sb_id = 1, sb_type = SOCKET_BUFFER_RAWPOINTER, sb_buffer = Obj 7 bs, sb_sz = length bs\<rparr>"


end
