(* ===== verification/Socket_Life.thy ===== *)
theory Socket_Life
  imports Socket_Order
begin

text \<open>
  The life of a socket: how ids are given to slots, which changes of a slot's type a round of the poll can
  make, and when the close of a socket is reported.
\<close>

section \<open>Reserving an id\<close>

lemma MAX_SOCKET_eq: "MAX_SOCKET = 65536" by (simp add: MAX_SOCKET_def)

lemma next_id_hash:
  assumes "next_id a = (i, a')"
  shows "0 \<le> i" "HASH_ID i = (uint a + 1) mod MAX_SOCKET" "uint a' mod MAX_SOCKET = (uint a + 1) mod MAX_SOCKET"
proof -
  have u: "uint (a + 1) mod MAX_SOCKET = (uint a + 1) mod MAX_SOCKET"
    by (simp add: MAX_SOCKET_def uint_word_ariths mod_mod_cancel)
  have m: "(b AND 0x7fffffff) = take_bit 31 b" for b :: u32
    by (simp add: take_bit_eq_mask mask_eq_decr_exp)
  have lt: "uint (take_bit 31 b) < 2 ^ 31" for b :: u32
    by (subst unsigned_take_bit_eq) (rule take_bit_int_less_exp)
  have s: "sint b = uint b" if "uint b < 2 ^ 31" for b :: u32
  proof -
    have "0 \<le> uint b" by simp
    then have "- (2 ^ 31) \<le> uint b" by (rule order.trans [rotated]) simp
    then show ?thesis using that signed_take_bit_int_eq_self [of 31 "uint b"] by (simp add: sint_uint)
  qed
  have pos: "0 \<le> sint (take_bit 31 b)" for b :: u32
    unfolding s [OF lt] by simp
  have si: "sint b mod MAX_SOCKET = uint b mod MAX_SOCKET" for b :: u32
    by (simp add: uint_sint [of b] take_bit_eq_mod MAX_SOCKET_def mod_mod_cancel)
  have low: "uint (take_bit 31 b) mod MAX_SOCKET = uint b mod MAX_SOCKET" for b :: u32
    by (subst unsigned_take_bit_eq) (simp add: take_bit_eq_mod MAX_SOCKET_def mod_mod_cancel)
  show "0 \<le> i" "HASH_ID i = (uint a + 1) mod MAX_SOCKET" "uint a' mod MAX_SOCKET = (uint a + 1) mod MAX_SOCKET"
    using assms
    by (auto simp: u m lt pos si low next_id_def Let_def HASH_ID_def split: if_splits)
qed

lemma reserve_loop_free:
  "j < n \<Longrightarrow> so_type (ss_slot ss ((uint (ss_alloc_id ss) + 1 + int j) mod MAX_SOCKET)) = SOCKET_TYPE_INVALID \<Longrightarrow>
   \<exists>i ss'. reserve_loop n ss = (i, ss') \<and> 0 \<le> i \<and> so_type (slot_at i ss) = SOCKET_TYPE_INVALID
     \<and> so_type (slot_at i ss') = SOCKET_TYPE_RESERVE \<and> so_id (slot_at i ss') = i
     \<and> (\<forall>k. k \<noteq> HASH_ID i \<longrightarrow> ss_slot ss' k = ss_slot ss k)"
proof (induction n arbitrary: ss j)
  case (Suc n)
  obtain i a where a: "next_id (ss_alloc_id ss) = (i, a)" by fastforce
  note H = next_id_hash [OF a]
  let ?ss = "ss\<lparr>ss_alloc_id := a\<rparr>"
  have at: "slot_at x ?ss = slot_at x ss" for x by (simp add: slot_at_def)
  show ?case
  proof (cases "so_type (slot_at i ss) = SOCKET_TYPE_INVALID")
    case True
    then show ?thesis using a H(1) by (simp add: at Let_def) (simp add: slot_at_def set_slot_def)
  next
    case False
    have step: "reserve_loop (Suc n) ss = reserve_loop n ?ss" using a False by (simp add: at)
    have "j \<noteq> 0" using Suc.prems(2) False H(2) by (cases j) (auto simp: slot_at_def)
    then obtain j' where j': "j = Suc j'" by (cases j) auto
    have "(uint a + (1 + int j')) mod MAX_SOCKET = (uint (ss_alloc_id ss) + 1 + (1 + int j')) mod MAX_SOCKET"
      by (rule mod_add_cong [OF H(3) refl])
    then have "so_type (ss_slot ?ss ((uint (ss_alloc_id ?ss) + 1 + int j') mod MAX_SOCKET)) = SOCKET_TYPE_INVALID"
      using Suc.prems(2) j' by (simp add: ac_simps)
    from Suc.IH [OF _ this] j' Suc.prems(1) obtain i' ss' where
      "reserve_loop n ?ss = (i', ss')" "0 \<le> i'" "so_type (slot_at i' ?ss) = SOCKET_TYPE_INVALID"
      "so_type (slot_at i' ss') = SOCKET_TYPE_RESERVE" "so_id (slot_at i' ss') = i'"
      "\<forall>k. k \<noteq> HASH_ID i' \<longrightarrow> ss_slot ss' k = ss_slot ?ss k" by auto
    then show ?thesis unfolding step by (simp add: at)
  qed
qed simp

lemma reserve_loop_full:
  "\<forall>k. 0 \<le> k \<longrightarrow> k < MAX_SOCKET \<longrightarrow> so_type (ss_slot ss k) \<noteq> SOCKET_TYPE_INVALID \<Longrightarrow>
   fst (reserve_loop n ss) = -1 \<and> ss_slot (snd (reserve_loop n ss)) = ss_slot ss"
proof (induction n arbitrary: ss)
  case (Suc n)
  have "so_type (ss_slot ss (HASH_ID x)) \<noteq> SOCKET_TYPE_INVALID" for x
    using Suc.prems by (simp add: HASH_ID_def MAX_SOCKET_def)
  then show ?case using Suc.IH [of "ss\<lparr>ss_alloc_id := a\<rparr>" for a] Suc.prems
    by (simp add: slot_at_def split: prod.splits)
qed simp

section \<open>The types of the slots\<close>

text \<open>The type and the id of every slot.\<close>

definition tid :: "'e socket_server \<Rightarrow> int \<Rightarrow> socket_type \<times> int" where
  "tid ss k = (so_type (ss_slot ss k), so_id (ss_slot ss k))"

lemma tid_set_slot: "tid (set_slot i s ss) = (tid ss)(HASH_ID i := (so_type s, so_id s))"
  by (auto simp: tid_def set_slot_def)

lemma tid_same: "so_type s = so_type (slot_at i ss) \<Longrightarrow> so_id s = so_id (slot_at i ss) \<Longrightarrow> tid (set_slot i s ss) = tid ss"
  by (auto simp: tid_def set_slot_def slot_at_def)

lemma tid_simps [simp]:
  "tid (ss\<lparr>ss_os := e\<rparr>) = tid ss" "tid (ss\<lparr>ss_ctrl := c\<rparr>) = tid ss" "tid (ss\<lparr>ss_freed := f\<rparr>) = tid ss"
  "tid (ss\<lparr>ss_ev := ev\<rparr>) = tid ss" "tid (ss\<lparr>ss_event_index := n\<rparr>) = tid ss" "tid (ss\<lparr>ss_checkctrl := b\<rparr>) = tid ss"
  "tid (ss\<lparr>ss_brk := br\<rparr>) = tid ss" "tid (ss\<lparr>ss_alloc_id := a\<rparr>) = tid ss"
  "tid (do_sys h ss) = tid ss" "tid (free_obj ob ss) = tid ss" "tid (stat_read i z ss) = tid ss" "tid (stat_write i z ss) = tid ss"
  "tid (event_again b ss) = tid ss" "tid (clear_closed_event r ss) = tid ss"
  by (simp_all add: fun_eq_iff tid_def do_sys_def free_obj_def stat_read_def stat_write_def set_slot_def slot_at_def Let_def
      event_again_def clear_closed_event_def split: option.splits prod.splits)

lemma slot_tid: "so_type (slot_at i ss) = fst (tid ss (HASH_ID i))" "so_id (slot_at i ss) = snd (tid ss (HASH_ID i))"
  by (simp_all add: tid_def slot_at_def)

lemma sys_tid: "sys f ss = (r, ss') \<Longrightarrow> tid ss' = tid ss"
  by (auto simp: sys_def split: prod.splits)

lemma enable_tid:
  "enable_write K i b ss = (r, ss') \<Longrightarrow> tid ss' = tid ss" "enable_read K i b ss = (r, ss') \<Longrightarrow> tid ss' = tid ss"
  by (auto simp: enable_write_def enable_read_def Let_def tid_same dest!: sys_tid split: if_splits)

lemma write_buffer_free_tid: "write_buffer_free wb ss = Some ss' \<Longrightarrow> tid ss' = tid ss"
  by (auto simp: write_buffer_free_def split: if_splits)

lemma free_wb_list_tid: "free_wb_list wbs ss = Some ss' \<Longrightarrow> tid ss' = tid ss"
  by (induction wbs arbitrary: ss) (auto simp: bind_eq_Some_conv dest!: write_buffer_free_tid)

lemma free_dw_tid: "free_dw i ss = Some ss' \<Longrightarrow> tid ss' = tid ss"
  by (auto simp: free_dw_def free_buffer_def Let_def bind_eq_Some_conv tid_same slot_tid split: option.splits if_splits)

lemma free_size_tid: "free_size ob sz ss = Some ss' \<Longrightarrow> tid ss' = tid ss"
  by (auto simp: free_size_def split: if_splits)

lemma set_type_tid: "tid (set_type i t ss) = (tid ss)(HASH_ID i := (t, snd (tid ss (HASH_ID i))))"
  by (simp add: set_type_def tid_set_slot slot_tid)

lemma force_close_tid:
  assumes f: "force_close K i ss = Some (m, ss')"
  shows "tid ss' = (tid ss)(HASH_ID i := (SOCKET_TYPE_INVALID, snd (tid ss (HASH_ID i))))"
    "fst (tid ss (HASH_ID i)) \<noteq> SOCKET_TYPE_RESERVE" "msg_id m = snd (tid ss (HASH_ID i))"
proof -
  let ?s = "slot_at i ss"
  have "tid ss' = (tid ss)(HASH_ID i := (SOCKET_TYPE_INVALID, snd (tid ss (HASH_ID i)))) \<and> so_type ?s \<noteq> SOCKET_TYPE_RESERVE"
  proof (cases "so_type ?s = SOCKET_TYPE_INVALID")
    case True
    with f have "ss' = ss" by (simp add: force_close_def Let_def)
    then show ?thesis using True by (auto simp: slot_tid fun_eq_iff prod_eq_iff)
  next
    case False
    from f False obtain ss1 ss2 where s: "so_type ?s \<noteq> SOCKET_TYPE_RESERVE"
      "free_wb_list (so_high ?s) ss = Some ss1" "free_wb_list (so_low ?s) ss1 = Some ss2"
      "free_dw i (set_type i SOCKET_TYPE_INVALID
        (if so_type ?s \<noteq> SOCKET_TYPE_BIND then do_sys (k_close K (so_fd ?s))
           (do_sys (k_sp_del K (so_fd ?s)) (set_slot i (?s\<lparr>so_high := [], so_low := []\<rparr>) ss2))
         else do_sys (k_sp_del K (so_fd ?s)) (set_slot i (?s\<lparr>so_high := [], so_low := []\<rparr>) ss2))) = Some ss'"
      by (auto simp: force_close_def Let_def bind_eq_Some_conv split: if_splits)
    have "tid ss2 = tid ss" using free_wb_list_tid [OF s(3)] free_wb_list_tid [OF s(2)] by simp
    with free_dw_tid [OF s(4)] s(1) show ?thesis by (simp add: set_type_tid tid_set_slot slot_tid)
  qed
  then show "tid ss' = (tid ss)(HASH_ID i := (SOCKET_TYPE_INVALID, snd (tid ss (HASH_ID i))))"
    "fst (tid ss (HASH_ID i)) \<noteq> SOCKET_TYPE_RESERVE" by (simp_all add: slot_tid)
  show "msg_id m = snd (tid ss (HASH_ID i))"
    using f by (auto simp: force_close_def close_message_def slot_tid Let_def bind_eq_Some_conv split: if_splits)
qed

section \<open>The changes of a type\<close>

text \<open>
  What may follow a type in the life of a socket, apart from the type itself. An invalid slot begins a new
  life only when its id is reserved.
\<close>

fun after :: "socket_type \<Rightarrow> socket_type set" where
  "after SOCKET_TYPE_INVALID = {}"
| "after SOCKET_TYPE_RESERVE = - {SOCKET_TYPE_RESERVE}"
| "after SOCKET_TYPE_PLISTEN =
     {SOCKET_TYPE_LISTEN, SOCKET_TYPE_HALFCLOSE_READ, SOCKET_TYPE_HALFCLOSE_WRITE, SOCKET_TYPE_INVALID}"
| "after SOCKET_TYPE_CONNECTING =
     {SOCKET_TYPE_CONNECTED, SOCKET_TYPE_HALFCLOSE_READ, SOCKET_TYPE_HALFCLOSE_WRITE, SOCKET_TYPE_INVALID}"
| "after SOCKET_TYPE_PACCEPT =
     {SOCKET_TYPE_CONNECTED, SOCKET_TYPE_HALFCLOSE_READ, SOCKET_TYPE_HALFCLOSE_WRITE, SOCKET_TYPE_INVALID}"
| "after SOCKET_TYPE_HALFCLOSE_READ = {SOCKET_TYPE_INVALID}"
| "after SOCKET_TYPE_HALFCLOSE_WRITE = {SOCKET_TYPE_INVALID}"
| "after _ = {SOCKET_TYPE_HALFCLOSE_READ, SOCKET_TYPE_HALFCLOSE_WRITE, SOCKET_TYPE_INVALID}"

definition down :: "socket_type \<Rightarrow> socket_type \<Rightarrow> bool" where
  "down t t' \<longleftrightarrow> t' = t \<or> t' \<in> after t"

lemma down_refl [simp]: "down t t" by (simp add: down_def)

lemma down_trans: "down a b \<Longrightarrow> down b c \<Longrightarrow> down a c"
  by (cases a; cases b; simp add: down_def; blast)

lemma down_invalid [simp]: "down t SOCKET_TYPE_INVALID"
  by (cases t) (simp_all add: down_def)

text \<open>
  A step of the server on its slots: the types follow the life of a socket, and the id of a live one stays, but
  for a reserved slot that is opened under an id of \<open>A\<close>.
\<close>

definition moves :: "int set \<Rightarrow> 'e socket_server \<Rightarrow> 'e socket_server \<Rightarrow> bool" where
  "moves A ss ss' \<longleftrightarrow> (\<forall>k. down (fst (tid ss k)) (fst (tid ss' k)) \<and>
     (snd (tid ss' k) = snd (tid ss k) \<or> fst (tid ss' k) = SOCKET_TYPE_INVALID \<or>
      fst (tid ss k) = SOCKET_TYPE_RESERVE \<and> HASH_ID (snd (tid ss' k)) = k \<and> snd (tid ss' k) \<in> A))"

abbreviation downs :: "'e socket_server \<Rightarrow> 'e socket_server \<Rightarrow> bool" where
  "downs \<equiv> moves {}"

lemma down_reserve: "down t SOCKET_TYPE_RESERVE \<Longrightarrow> t = SOCKET_TYPE_RESERVE"
  by (cases t) (simp_all add: down_def)

lemma down_invalidD: "down SOCKET_TYPE_INVALID t \<Longrightarrow> t = SOCKET_TYPE_INVALID"
  by (simp add: down_def)

lemma moves_eq: "tid ss' = tid ss \<Longrightarrow> moves A ss ss'" by (simp add: moves_def)

lemma moves_trans:
  assumes "moves A a b" "moves A b c"
  shows "moves A a c"
  unfolding moves_def
proof
  fix k
  have d: "down (fst (tid a k)) (fst (tid b k))" "down (fst (tid b k)) (fst (tid c k))"
    using assms by (auto simp: moves_def)
  with down_reserve down_invalidD down_trans [OF d] assms
  show "down (fst (tid a k)) (fst (tid c k)) \<and> (snd (tid c k) = snd (tid a k) \<or> fst (tid c k) = SOCKET_TYPE_INVALID \<or>
      fst (tid a k) = SOCKET_TYPE_RESERVE \<and> HASH_ID (snd (tid c k)) = k \<and> snd (tid c k) \<in> A)"
    unfolding moves_def by metis
qed

lemma moves_mono: "downs ss ss' \<Longrightarrow> moves A ss ss'" by (auto simp: moves_def)

lemma downs_upd: "tid ss' = (tid ss)(k := (t, snd (tid ss k))) \<Longrightarrow> down (fst (tid ss k)) t \<Longrightarrow> moves A ss ss'"
  by (simp add: moves_def)

lemma moves_cong: "tid ss1 = tid ss \<Longrightarrow> moves A ss1 ss' \<Longrightarrow> moves A ss ss'"
  by (simp add: moves_def)

lemma moves_cong2: "tid ss1 = tid ss' \<Longrightarrow> moves A ss ss' \<Longrightarrow> moves A ss ss1"
  by (simp add: moves_def)

text \<open>The report of a close: its socket was open to reads and is not any more.\<close>

definition closes :: "report \<Rightarrow> 'e socket_server \<Rightarrow> 'e socket_server \<Rightarrow> bool" where
  "closes r ss ss' \<longleftrightarrow> (\<forall>m. r = Some (SOCKET_CLOSE, m) \<longrightarrow>
     (\<exists>k. snd (tid ss k) = msg_id m \<and> fst (tid ss k) \<notin> {SOCKET_TYPE_INVALID, SOCKET_TYPE_HALFCLOSE_READ}
        \<and> fst (tid ss' k) \<in> {SOCKET_TYPE_HALFCLOSE_READ, SOCKET_TYPE_INVALID}))"

definition no_close :: "report \<Rightarrow> bool" where
  "no_close r \<longleftrightarrow> (\<forall>m. r \<noteq> Some (SOCKET_CLOSE, m))"

lemma no_close_closes: "no_close r \<Longrightarrow> closes r ss ss'" by (simp add: closes_def no_close_def)

lemma no_close_simps [simp]:
  "no_close None" "no_close (Some (t, m)) \<longleftrightarrow> t \<noteq> SOCKET_CLOSE" "no_close (report_error i err ss)" "no_close (pass_error r)"
  by (auto simp: no_close_def report_error_def pass_error_def split: option.splits socket_ret.splits prod.splits)

lemma force_close_downs: "force_close K i ss = Some (m, ss') \<Longrightarrow> downs ss ss'"
  by (rule downs_upd [OF force_close_tid(1)]) simp_all

section \<open>Sending\<close>

lemma hcw_down: "t \<noteq> SOCKET_TYPE_INVALID \<Longrightarrow> t \<noteq> SOCKET_TYPE_HALFCLOSE_READ \<Longrightarrow> down t SOCKET_TYPE_HALFCLOSE_WRITE"
  by (cases t) (simp_all add: down_def)

lemma hcr_down: "t \<noteq> SOCKET_TYPE_INVALID \<Longrightarrow> t \<noteq> SOCKET_TYPE_HALFCLOSE_WRITE \<Longrightarrow> down t SOCKET_TYPE_HALFCLOSE_READ"
  by (cases t) (simp_all add: down_def)

lemma close_write_step:
  assumes c: "close_write K i err ss = Some (r, ss')" and live: "so_type (slot_at i ss) \<noteq> SOCKET_TYPE_INVALID"
  shows "downs ss ss' \<and> no_close r \<and> r \<noteq> None"
proof -
  let ?s = "slot_at i ss"
  consider "so_closing ?s \<or> so_type ?s = SOCKET_TYPE_HALFCLOSE_READ" | "ss' = ss" "r = Some (SOCKET_RST, close_message ?s)"
    | "\<not> so_closing ?s" "so_type ?s \<noteq> SOCKET_TYPE_HALFCLOSE_READ" "so_type ?s \<noteq> SOCKET_TYPE_HALFCLOSE_WRITE"
    using c by (auto simp: close_write_def Let_def split: if_splits)
  then show ?thesis
  proof cases
    case 1
    with c obtain m where "force_close K i ss = Some (m, ss')" "r = Some (SOCKET_RST, m)"
      by (auto simp: close_write_def Let_def bind_eq_Some_conv split: if_splits)
    then show ?thesis using force_close_downs by simp
  next
    case 2
    then show ?thesis by (simp add: moves_eq)
  next
    case 3
    with c obtain b where "enable_write K i False (do_sys (k_shutdown_wr K (so_fd ?s)) (set_type i SOCKET_TYPE_HALFCLOSE_WRITE ss)) = (b, ss')"
      "r = report_error i (k_strerror K err) ss'"
      by (auto simp: close_write_def Let_def split: if_splits prod.splits)
    then have "tid ss' = (tid ss)(HASH_ID i := (SOCKET_TYPE_HALFCLOSE_WRITE, snd (tid ss (HASH_ID i))))"
      by (auto dest: enable_tid simp: set_type_tid)
    then have "downs ss ss'" by (rule downs_upd) (use hcw_down live 3 in \<open>simp add: slot_tid\<close>)
    with \<open>r = _\<close> show ?thesis by (simp add: report_error_def)
  qed
qed

text \<open>What sending a list may do: nothing to the types unless it has a report, which is not a close.\<close>

definition send_step :: "'e socket_server \<Rightarrow> report \<times> 'e socket_server \<Rightarrow> bool" where
  "send_step ss res \<longleftrightarrow> downs ss (snd res) \<and> no_close (fst res) \<and> (fst res = None \<longrightarrow> tid (snd res) = tid ss)"

lemma send_step_same [simp]: "tid ss' = tid ss \<Longrightarrow> no_close r \<Longrightarrow> send_step ss (r, ss')"
  by (simp add: send_step_def moves_eq)

lemma send_step_cong: "tid ss1 = tid ss \<Longrightarrow> send_step ss1 res \<Longrightarrow> send_step ss res"
  by (auto simp: send_step_def intro: moves_cong)

lemma set_wlist_simps [simp]: "so_type (set_wlist h l s) = so_type s" "so_id (set_wlist h l s) = so_id s"
  by (simp_all add: set_wlist_def)

lemma slot_type_cong: "tid ss1 = tid ss \<Longrightarrow> so_type (slot_at i ss1) = so_type (slot_at i ss) \<and> so_id (slot_at i ss1) = so_id (slot_at i ss)"
  by (simp add: slot_tid)

lemma send_list_tcp_step:
  "send_list_tcp K i high ss = Some res \<Longrightarrow> so_type (slot_at i ss) \<noteq> SOCKET_TYPE_INVALID \<longrightarrow> send_step ss res"
proof (rule send_list_tcp.raw_induct [where P = "\<lambda>K i high ss res. so_type (slot_at i ss) \<noteq> SOCKET_TYPE_INVALID \<longrightarrow> send_step ss res"])
  fix slt :: "'e kernel \<Rightarrow> int \<Rightarrow> bool \<Rightarrow> 'e socket_server \<Rightarrow> (report \<times> 'e socket_server) option"
    and K :: "'e kernel" and i high and ss :: "'e socket_server" and res
  assume IH: "\<And>K i high ss res. slt K i high ss = Some res \<Longrightarrow> so_type (slot_at i ss) \<noteq> SOCKET_TYPE_INVALID \<longrightarrow> send_step ss res"
    and e0: "(case wlist high (slot_at i ss) of
        [] \<Rightarrow> Some (None, ss)
      | tmp # rest \<Rightarrow>
          (case sys (k_write K (so_fd (slot_at i ss)) (wb_rest tmp)) ss of
             (Inr err, ss) \<Rightarrow>
               if err = EINTR then slt K i high ss
               else if err = EAGAIN then Some (None, ss)
               else close_write K i err ss
           | (Inl sz, ss) \<Rightarrow>
               let ss = stat_write i (int sz) ss; s = slot_at i ss;
                   s = s\<lparr>so_wb_size := so_wb_size s - int sz\<rparr> in
               if sz \<noteq> wb_sz tmp
               then Some (None, set_slot i (set_wlist high
                      (tmp\<lparr>wb_ptr := wb_ptr tmp + sz, wb_sz := wb_sz tmp - sz\<rparr> # rest) s) ss)
               else do {
                 ss \<leftarrow> write_buffer_free tmp (set_slot i (set_wlist high rest s) ss);
                 slt K i high ss })) = Some res"
  show "so_type (slot_at i ss) \<noteq> SOCKET_TYPE_INVALID \<longrightarrow> send_step ss res"
  proof (rule impI, cases "wlist high (slot_at i ss)")
    case Nil
    with e0 show "send_step ss res" by auto
  next
    case (Cons tmp rest)
    assume live: "so_type (slot_at i ss) \<noteq> SOCKET_TYPE_INVALID"
    obtain w ss1 where w: "sys (k_write K (so_fd (slot_at i ss)) (wb_rest tmp)) ss = (w, ss1)" by fastforce
    note t1 = sys_tid [OF w]
    note live1 = live [folded slot_type_cong [OF t1, THEN conjunct1]]
    show "send_step ss res"
    proof (cases w)
      case (Inr err)
      note e = e0 [unfolded Cons list.case w Inr prod.case sum.case]
      show ?thesis
      proof (cases "err = EINTR \<or> err = EAGAIN")
        case True
        show ?thesis
        proof (cases "err = EINTR")
          case True
          with e IH [of K i high ss1 res] live1 send_step_cong [OF t1] show ?thesis by simp
        next
          case False
          with e True t1 show ?thesis by auto
        qed
      next
        case False
        with e close_write_step [of K i err ss1 "fst res" "snd res"] live1
        have "send_step ss1 res" by (auto simp: send_step_def)
        then show ?thesis by (rule send_step_cong [OF t1])
      qed
    next
      case (Inl n)
      let ?ss = "stat_write i (int n) ss1"
      let ?s = "(slot_at i ?ss)\<lparr>so_wb_size := so_wb_size (slot_at i ?ss) - int n\<rparr>"
      have t: "tid (set_slot i (set_wlist high l ?s) ?ss) = tid ss" for l
        using t1 by (simp add: tid_set_slot slot_tid)
      note e = e0 [unfolded Cons list.case w Inl prod.case sum.case Let_def]
      show ?thesis
      proof (cases "n = wb_sz tmp")
        case False
        with e t show ?thesis by auto
      next
        case True
        with e obtain ss2 where ss2: "write_buffer_free tmp (set_slot i (set_wlist high rest ?s) ?ss) = Some ss2"
          "slt K i high ss2 = Some res" by (auto simp: bind_eq_Some_conv)
        have t2: "tid ss2 = tid ss" using write_buffer_free_tid [OF ss2(1)] t by simp
        from IH [OF ss2(2)] live slot_type_cong [OF t2] have "send_step ss2 res" by simp
        then show ?thesis by (rule send_step_cong [OF t2])
      qed
    qed
  qed
qed

lemma drop_udp_tid: "drop_udp i high ss = Some ss' \<Longrightarrow> tid ss' = tid ss"
  by (auto simp: drop_udp_def Let_def tid_same dest!: write_buffer_free_tid split: list.splits)

lemma send_list_udp_step: "send_list_udp K i high ss = Some res \<Longrightarrow> fst res = None \<and> tid (snd res) = tid ss"
proof (rule send_list_udp.raw_induct [where P = "\<lambda>K i high ss res. fst res = None \<and> tid (snd res) = tid ss"])
  fix slu :: "'e kernel \<Rightarrow> int \<Rightarrow> bool \<Rightarrow> 'e socket_server \<Rightarrow> (report \<times> 'e socket_server) option"
    and K :: "'e kernel" and i high and ss :: "'e socket_server" and res
  assume IH: "\<And>K i high ss res. slu K i high ss = Some res \<Longrightarrow> fst res = None \<and> tid (snd res) = tid ss"
    and e0: "(let s = slot_at i ss in
      case wlist high s of
        [] \<Rightarrow> Some (None, ss)
      | tmp # rest \<Rightarrow>
          (case udp_socket_address s (wb_udp_address tmp) of
             None \<Rightarrow> map_option (\<lambda>ss. (None, ss)) (drop_udp i high ss)
           | Some sa \<Rightarrow>
               (case sys (k_sendto K (so_fd s) (wb_rest tmp) sa) ss of
                  (Inr err, ss) \<Rightarrow>
                    if err = EINTR \<or> err = EAGAIN then Some (None, ss)
                    else map_option (\<lambda>ss. (None, ss)) (drop_udp i high ss)
                | (Inl n, ss) \<Rightarrow> do {
                    ss \<leftarrow> drop_udp i high (stat_write i (int (wb_sz tmp)) ss);
                    slu K i high ss }))) = Some res"
  show "fst res = None \<and> tid (snd res) = tid ss"
    using e0 by (auto simp: Let_def bind_eq_Some_conv dest!: IH drop_udp_tid sys_tid
        split: list.splits option.splits prod.splits sum.splits if_splits)
qed

lemma send_list_step:
  "send_list K i high ss = Some res \<Longrightarrow> so_type (slot_at i ss) \<noteq> SOCKET_TYPE_INVALID \<Longrightarrow> send_step ss res"
  using send_list_tcp_step [of K i high ss res] send_list_udp_step [of K i high ss res]
  by (cases res) (auto simp: send_list_def split: if_splits)

text \<open>A step that reports no close.\<close>

definition quiet :: "'e socket_server \<Rightarrow> report \<times> 'e socket_server \<Rightarrow> bool" where
  "quiet ss res \<longleftrightarrow> downs ss (snd res) \<and> no_close (fst res)"

lemma quiet_same: "tid ss' = tid ss \<Longrightarrow> no_close r \<Longrightarrow> quiet ss (r, ss')"
  by (simp add: quiet_def moves_eq)

lemma quiet_cong: "tid ss1 = tid ss \<Longrightarrow> quiet ss1 res \<Longrightarrow> quiet ss res"
  by (auto simp: quiet_def intro: moves_cong)

lemma send_done_step:
  assumes d: "send_done K i ss = Some res"
  shows "quiet ss res"
proof (cases "so_closing (slot_at i ss)")
  case True
  with d obtain m ss1 where "force_close K i ss = Some (m, ss1)" "res = (None, ss1)"
    by (auto simp: send_done_def Let_def bind_eq_Some_conv split: if_splits)
  then show ?thesis using force_close_downs by (simp add: quiet_def)
next
  case False
  with d show ?thesis
    by (auto simp: send_done_def Let_def quiet_def tid_same dest!: enable_tid intro!: moves_eq split: if_splits prod.splits)
qed

lemma raise_uncomplete_tid: "raise_uncomplete (slot_at i ss) = Some s \<Longrightarrow> tid (set_slot i s ss) = tid ss"
  by (rule tid_same) (auto simp: raise_uncomplete_def split: list.splits if_splits)

lemma send_buffer_'_step:
  assumes s: "send_buffer_' K i ss = Some res" and live: "so_type (slot_at i ss) \<noteq> SOCKET_TYPE_INVALID"
  shows "quiet ss res"
proof -
  from s obtain r1 ss1 where h: "send_list K i True ss = Some (r1, ss1)"
    and s1: "(if r1 \<noteq> None then Some (pass_error r1, ss1)
        else if so_high (slot_at i ss1) \<noteq> [] then Some (None, ss1)
        else if so_low (slot_at i ss1) \<noteq> [] then do {
          (ret, ss) \<leftarrow> send_list K i False ss1;
          if ret \<noteq> None then Some (pass_error ret, ss)
          else if list_uncomplete (so_low (slot_at i ss)) then do {
            s \<leftarrow> raise_uncomplete (slot_at i ss);
            Some (None, set_slot i s ss) }
          else if so_low (slot_at i ss) \<noteq> [] then Some (None, ss)
          else send_done K i ss }
        else send_done K i ss1) = Some res"
    unfolding send_buffer_'_def by (auto simp only: bind_eq_Some_conv split: if_split_asm)
  note q1 = send_list_step [OF h live]
  show ?thesis
  proof (cases "r1 = None")
    case False
    with s1 q1 show ?thesis by (auto simp: send_step_def quiet_def)
  next
    case r1: True
    with q1 have t1: "tid ss1 = tid ss" by (simp add: send_step_def)
    have live1: "so_type (slot_at i ss1) \<noteq> SOCKET_TYPE_INVALID" using live slot_type_cong [OF t1] by simp
    note fin = send_done_step [of K i ss1 res, THEN quiet_cong [OF t1]]
    show ?thesis
    proof (cases "so_high (slot_at i ss1) = [] \<and> so_low (slot_at i ss1) \<noteq> []")
      case False
      with s1 r1 fin quiet_same [OF t1] show ?thesis by (auto split: if_splits)
    next
      case True
      with s1 r1 obtain r2 ss2 where l: "send_list K i False ss1 = Some (r2, ss2)"
        and s2: "(if r2 \<noteq> None then Some (pass_error r2, ss2)
          else if list_uncomplete (so_low (slot_at i ss2)) then do {
            s \<leftarrow> raise_uncomplete (slot_at i ss2);
            Some (None, set_slot i s ss2) }
          else if so_low (slot_at i ss2) \<noteq> [] then Some (None, ss2)
          else send_done K i ss2) = Some res"
        by (auto simp only: bind_eq_Some_conv prod.case if_True if_False simp_thms split: if_split_asm)
      note q2 = send_list_step [OF l live1]
      show ?thesis
      proof (cases "r2 = None")
        case False
        with s2 q2 have "quiet ss1 res" by (auto simp: send_step_def quiet_def)
        then show ?thesis by (rule quiet_cong [OF t1])
      next
        case r2: True
        with q2 t1 have t2: "tid ss2 = tid ss" by (simp add: send_step_def)
        note fin = send_done_step [of K i ss2 res, THEN quiet_cong [OF t2]]
        have up: "quiet ss (None, set_slot i s' ss2)" if "raise_uncomplete (slot_at i ss2) = Some s'" for s'
          using raise_uncomplete_tid [OF that] t2 by (simp add: quiet_same)
        from s2 r2 fin quiet_same [OF t2] up show ?thesis
          by (auto simp: bind_eq_Some_conv split: if_split_asm)
      qed
    qed
  qed
qed

lemma take_dw_tid: "take_dw i ss = Some ss' \<Longrightarrow> tid ss' = tid ss"
  by (auto simp: take_dw_def Let_def bind_eq_Some_conv tid_same split: option.splits)

lemma send_buffer_step:
  assumes s: "send_buffer K i ss = Some res" and live: "so_type (slot_at i ss) \<noteq> SOCKET_TYPE_INVALID"
  shows "quiet ss res"
proof -
  from s obtain ss1 where s1: "take_dw i ss = Some ss1" "send_buffer_' K i ss1 = Some res"
    by (auto simp: send_buffer_def bind_eq_Some_conv)
  note t = take_dw_tid [OF s1(1)]
  from send_buffer_'_step [OF s1(2)] live slot_type_cong [OF t] have "quiet ss1 res" by simp
  then show ?thesis by (rule quiet_cong [OF t])
qed

section \<open>Requests\<close>

text \<open>What the step of a request or an event may do.\<close>

definition sound :: "int set \<Rightarrow> 'e socket_server \<Rightarrow> report \<times> 'e socket_server \<Rightarrow> bool" where
  "sound A ss res \<longleftrightarrow> moves A ss (snd res) \<and> closes (fst res) ss (snd res)"

lemma quiet_sound: "quiet ss res \<Longrightarrow> sound A ss res"
  by (simp add: quiet_def sound_def moves_mono no_close_closes)

lemma sound_same: "tid ss' = tid ss \<Longrightarrow> no_close r \<Longrightarrow> sound A ss (r, ss')"
  by (simp add: quiet_sound quiet_same)

lemma sound_cong: "tid ss1 = tid ss \<Longrightarrow> sound A ss1 res \<Longrightarrow> sound A ss res"
  by (auto simp: sound_def closes_def intro: moves_cong)

lemma sound_cong2: "tid ss1 = tid ss' \<Longrightarrow> sound A ss (r, ss') \<Longrightarrow> sound A ss (r, ss1)"
  by (auto simp: sound_def closes_def intro: moves_cong2)

lemma append_tid: "append_sendbuffer_' i high r a ss = Some ss' \<Longrightarrow> tid ss' = tid ss"
  by (auto simp: append_sendbuffer_'_def Let_def bind_eq_Some_conv tid_same)

lemma send_first_tid:
  assumes s: "send_first K r high a ss = Some (b, ss')"
  shows "tid ss' = tid ss"
proof -
  let ?a = "case a of Some a \<Rightarrow> a | None \<Rightarrow> so_udp_address (slot_at (rs_id r) ss)"
  consider ss1 where "append_sendbuffer_' (rs_id r) True r [] ss = Some ss1" "ss' = ss1"
    | ss1 where "free_size (rs_buffer r) (rs_sz r) ss = Some ss1" "ss' = ss1"
    | u so sa where "send_object_init ss (rs_buffer r) (rs_sz r) = Some (u, so)"
        "udp_socket_address (slot_at (rs_id r) ss) ?a = Some sa" "so_protocol (slot_at (rs_id r) ss) \<noteq> PROTOCOL_TCP"
    using s by (auto simp: send_first_def Let_def bind_eq_Some_conv append_sendbuffer_def split: option.split_asm if_split_asm)
  then show ?thesis
  proof cases
    case 3
    obtain n ss1 where n: "sys (k_sendto K (so_fd (slot_at (rs_id r) ss)) (snd_bytes so) sa) ss = (n, ss1)" by fastforce
    note t1 = sys_tid [OF n]
    from s 3 n have "free_size (rs_buffer r) (rs_sz r) (stat_write (rs_id r) (int (length (snd_bytes so))) ss1) = Some ss'
      \<or> append_sendbuffer_' (rs_id r) high r ?a ss1 = Some ss'"
      by (auto simp: send_first_def Let_def append_sendbuffer_udp_def split: if_split_asm)
    then show ?thesis using t1 by (auto dest!: append_tid free_size_tid)
  qed (auto dest: append_tid free_size_tid)
qed

lemma wb_warning_step: "wb_warning i ss = (r, ss') \<Longrightarrow> tid ss' = tid ss \<and> no_close r"
  by (auto simp: wb_warning_def Let_def tid_same split: if_splits)

lemma send_socket_step:
  assumes s: "send_socket K r high a ss = Some res"
  shows "tid (snd res) = tid ss \<and> no_close (fst res)"
proof (cases res)
  case (Pair ret ss')
  show ?thesis
  proof (cases "send_buffer_empty (slot_at (rs_id r) ss)")
    case True
    with s Pair show ?thesis
      by (auto simp: send_socket_def Let_def bind_eq_Some_conv
          dest!: free_size_tid send_first_tid enable_tid wb_warning_step split: if_splits prod.splits)
  next
    case False
    with s Pair show ?thesis
      by (auto simp: send_socket_def Let_def bind_eq_Some_conv append_sendbuffer_def append_sendbuffer_low_def
          append_sendbuffer_udp_def dest!: free_size_tid append_tid wb_warning_step split: if_splits prod.splits)
  qed
qed

lemma dec_sending_ref_tid: "dec_sending_ref i ss = Some ss' \<Longrightarrow> tid ss' = tid ss"
  by (auto simp: dec_sending_ref_def Let_def tid_same split: if_splits)

lemma connect_loop_tid: "connect_loop K as err ss = (r, ss') \<Longrightarrow> tid ss' = tid ss"
  by (induction as arbitrary: err ss) (auto dest!: sys_tid simp: Let_def split: prod.splits sum.splits option.splits if_splits)

lemma new_fd_tid:
  assumes n: "new_fd K i fd protocol opaque reading ss = Some (ok, ss')"
  shows "fst (tid ss (HASH_ID i)) = SOCKET_TYPE_RESERVE"
    "\<exists>x. tid ss' = (tid ss)(HASH_ID i := (if ok then SOCKET_TYPE_RESERVE else SOCKET_TYPE_INVALID, x))
       \<and> (x = i \<or> x = snd (tid ss (HASH_ID i)))"
proof -
  obtain b ss1 where add: "sys (k_sp_add K fd) ss = (b, ss1)" by fastforce
  note t1 = sys_tid [OF add]
  show "fst (tid ss (HASH_ID i)) = SOCKET_TYPE_RESERVE"
    using n by (auto simp: new_fd_def Let_def slot_tid split: if_splits)
  show "\<exists>x. tid ss' = (tid ss)(HASH_ID i := (if ok then SOCKET_TYPE_RESERVE else SOCKET_TYPE_INVALID, x))
       \<and> (x = i \<or> x = snd (tid ss (HASH_ID i)))"
    using n add t1 by (auto simp: new_fd_def Let_def slot_tid tid_set_slot dest!: enable_tid split: if_splits prod.splits)
qed

text \<open>After \<open>new_fd\<close> the slot gets its type.\<close>

lemma opened_moves:
  assumes n: "new_fd K i fd protocol opaque reading ss = Some (ok, ss')"
    and t: "tid ss2 = (tid ss')(HASH_ID i := (t, snd (tid ss' (HASH_ID i))))"
  shows "moves {i} ss ss2"
proof -
  from new_fd_tid(2) [OF n] obtain x
    where x: "tid ss' = (tid ss)(HASH_ID i := (if ok then SOCKET_TYPE_RESERVE else SOCKET_TYPE_INVALID, x))"
      "x = i \<or> x = snd (tid ss (HASH_ID i))" by blast
  have "down SOCKET_TYPE_RESERVE t" by (simp add: down_def)
  with x t new_fd_tid(1) [OF n] show ?thesis by (auto simp: moves_def)
qed

lemma open_failed_moves:
  "tid ss1 = tid ss \<Longrightarrow> open_failed i opaque err ss1 = res \<Longrightarrow> sound A ss res"
  by (auto simp: open_failed_def sound_def closes_def set_type_tid intro!: downs_upd)

lemma open_failed_opened:
  assumes n: "new_fd K i fd protocol opaque reading ss = Some (ok, ss')" and "tid ss2 = tid ss'"
  shows "sound {i} ss (open_failed i opaque' err ss2)"
  by (auto simp: open_failed_def sound_def closes_def set_type_tid assms(2) intro!: opened_moves [OF n])

lemma open_socket_step:
  assumes s: "open_socket K err0 i port opaque host ss = Some res"
  shows "sound {i} ss res"
proof -
  obtain g ss1 where g: "sys (k_getaddrinfo K True host port) ss = (g, ss1)" by fastforce
  note t1 = sys_tid [OF g]
  show ?thesis
  proof (cases g)
    case (Inr err)
    with s g show ?thesis by (auto simp: open_socket_def intro: open_failed_moves [OF t1])
  next
    case (Inl as)
    obtain c ss2 where c: "connect_loop K as err0 ss1 = (c, ss2)" by fastforce
    have t2: "tid ss2 = tid ss" using connect_loop_tid [OF c] t1 by simp
    show ?thesis
    proof (cases c)
      case (Inr err)
      with s g Inl c show ?thesis by (auto simp: open_socket_def intro: open_failed_moves [OF t2])
    next
      case (Inl sca)
      obtain sock con a where sca: "sca = (sock, con, a)" by (cases sca) auto
      from s g \<open>g = _\<close> c Inl sca obtain ok ss3 where n: "new_fd K i sock PROTOCOL_TCP opaque True ss2 = Some (ok, ss3)"
        by (auto simp: open_socket_def bind_eq_Some_conv)
      have "sound {i} ss2 res"
      proof (cases "ok \<and> con")
        case True
        with s g \<open>g = _\<close> c Inl sca n show ?thesis
          by (auto simp: open_socket_def sound_def closes_def set_type_tid intro!: opened_moves [OF n])
      next
        case False
        obtain b ss4 where e: "enable_write K i True ss3 = (b, ss4)" by fastforce
        note t4 = enable_tid(1) [OF e]
        show ?thesis
        proof (cases "ok \<and> \<not> b")
          case True
          with s g \<open>g = _\<close> c Inl sca n False e show ?thesis
            by (auto simp: open_socket_def sound_def closes_def set_type_tid t4 intro!: opened_moves [OF n])
        next
          case not: False
          with s g \<open>g = _\<close> c Inl sca n False e show ?thesis
            by (auto simp: open_socket_def t4 intro!: open_failed_opened [OF n] split: if_splits)
        qed
      qed
      then show ?thesis by (rule sound_cong [OF t2])
    qed
  qed
qed

lemma listen_socket_step:
  assumes s: "listen_socket K i fd opaque ss = Some res"
  shows "sound {i} ss res"
proof -
  from s obtain ok ss1 where n: "new_fd K i fd PROTOCOL_TCP opaque False ss = Some (ok, ss1)"
    by (auto simp: listen_socket_def bind_eq_Some_conv)
  show ?thesis
  proof (cases ok)
    case True
    with s n show ?thesis
      by (auto simp: listen_socket_def sound_def closes_def set_type_tid intro!: opened_moves [OF n])
  next
    case False
    with s n show ?thesis by (auto simp: listen_socket_def intro!: open_failed_opened [OF n])
  qed
qed

lemma bind_socket_step:
  assumes s: "bind_socket K i fd opaque ss = Some res"
  shows "sound {i} ss res"
proof -
  from s obtain ok ss1 where n: "new_fd K i fd PROTOCOL_TCP opaque True ss = Some (ok, ss1)"
    by (auto simp: bind_socket_def Let_def bind_eq_Some_conv)
  have "moves {i} ss ss1" by (rule opened_moves [OF n, where t = "fst (tid ss1 (HASH_ID i))"]) simp
  with s n show ?thesis
    by (cases ok) (auto simp: bind_socket_def Let_def sound_def closes_def set_type_tid intro: opened_moves [OF n])
qed

lemma add_udp_socket_step:
  assumes s: "add_udp_socket K i fd v6 opaque ss = Some ss'"
  shows "sound {i} ss (None, ss')"
proof -
  let ?p = "if v6 then PROTOCOL_UDPv6 else PROTOCOL_UDP"
  from s obtain ok ss1 where n: "new_fd K i fd ?p opaque True ss = Some (ok, ss1)"
    by (auto simp: add_udp_socket_def bind_eq_Some_conv)
  with s show ?thesis
    by (cases ok) (auto simp: add_udp_socket_def sound_def closes_def set_type_tid tid_set_slot slot_tid
        intro!: opened_moves [OF n])
qed

text \<open>A close: the socket was open to reads before.\<close>

lemma closes_slot:
  assumes "tid ss' = (tid ss)(k := (t, snd (tid ss k)))" "t = SOCKET_TYPE_INVALID \<or> t = SOCKET_TYPE_HALFCLOSE_READ"
    "fst (tid ss k) \<noteq> SOCKET_TYPE_INVALID" "fst (tid ss k) \<noteq> SOCKET_TYPE_HALFCLOSE_READ" "msg_id m = snd (tid ss k)"
  shows "closes (Some (r, m)) ss ss'"
  using assms unfolding closes_def by (auto intro!: exI [of _ k])

lemma force_close_closes:
  assumes f: "force_close K i ss = Some (m, ss')"
    and "so_type (slot_at i ss) \<noteq> SOCKET_TYPE_INVALID" "so_type (slot_at i ss) \<noteq> SOCKET_TYPE_HALFCLOSE_READ"
  shows "sound A ss (Some (r, m), ss')"
  using closes_slot [OF force_close_tid(1) [OF f], of m r] force_close_tid(3) [OF f] assms force_close_downs [OF f]
  by (simp add: sound_def slot_tid moves_mono)

lemma close_read_step:
  assumes c: "close_read K i ss = (m, ss')"
    and t: "so_type (slot_at i ss) \<noteq> SOCKET_TYPE_INVALID" "so_type (slot_at i ss) \<noteq> SOCKET_TYPE_HALFCLOSE_READ"
      "so_type (slot_at i ss) \<noteq> SOCKET_TYPE_HALFCLOSE_WRITE"
  shows "sound A ss (Some (r, m), ss')"
proof -
  obtain b ss1 where e: "enable_read K i False (set_type i SOCKET_TYPE_HALFCLOSE_READ ss) = (b, ss1)" by fastforce
  have u: "tid ss1 = (tid ss)(HASH_ID i := (SOCKET_TYPE_HALFCLOSE_READ, snd (tid ss (HASH_ID i))))"
    using enable_tid(2) [OF e] by (simp add: set_type_tid)
  from c e have ss': "tid ss' = tid ss1" "msg_id m = so_id (slot_at i ss1)"
    by (auto simp: close_read_def close_message_def Let_def slot_at_def do_sys_def)
  have "moves A ss ss'" by (rule downs_upd [OF trans [OF ss'(1) u]]) (use t hcr_down in \<open>simp add: slot_tid\<close>)
  moreover have "closes (Some (r, m)) ss ss'"
    by (rule closes_slot [OF trans [OF ss'(1) u]]) (use t ss' u in \<open>simp_all add: slot_tid\<close>)
  ultimately show ?thesis by (simp add: sound_def)
qed

lemma close_socket_step:
  assumes s: "close_socket K i sh ss = Some res"
  shows "sound A ss res"
proof (cases "socket_invalid (slot_at i ss) i")
  case True
  with s show ?thesis by (auto simp: close_socket_def Let_def sound_same)
next
  case False
  then have live: "so_type (slot_at i ss) \<noteq> SOCKET_TYPE_INVALID" by (simp add: socket_invalid_def)
  show ?thesis
  proof (cases "sh \<or> nomore_sending_data (slot_at i ss)")
    case True
    with s False obtain m ss' where f: "force_close K i ss = Some (m, ss')"
      "res = (if halfclose_read (slot_at i ss) then None else Some (SOCKET_CLOSE, m), ss')"
      by (auto simp: close_socket_def Let_def bind_eq_Some_conv)
    show ?thesis
    proof (cases "halfclose_read (slot_at i ss)")
      case True
      then show ?thesis using f force_close_downs [OF f(1)] by (simp add: sound_def moves_mono closes_def)
    next
      case nh: False
      with f force_close_closes [OF f(1) live] show ?thesis by (simp add: halfclose_read_def)
    qed
  next
    case more': False
    let ?ss = "set_slot i ((slot_at i ss)\<lparr>so_closing := True\<rparr>) ss"
    have t: "tid ?ss = tid ss" by (simp add: tid_same)
    have hw: "so_type (slot_at i ss) \<noteq> SOCKET_TYPE_HALFCLOSE_WRITE" using more' by (simp add: nomore_sending_data_def)
    show ?thesis
    proof (cases "halfclose_read (slot_at i ss)")
      case True
      with s False more' show ?thesis by (auto simp: close_socket_def Let_def t intro: sound_same)
    next
      case nh: False
      obtain m ss' where c: "close_read K i ?ss = (m, ss')" by fastforce
      with s False more' nh have "res = (Some (SOCKET_CLOSE, m), ss')" by (simp add: close_socket_def Let_def)
      moreover have "sound A ?ss (Some (SOCKET_CLOSE, m), ss')"
        by (rule close_read_step [OF c]) (use live nh hw slot_type_cong [OF t, of i] in \<open>simp_all add: halfclose_read_def\<close>)
      ultimately show ?thesis using sound_cong [OF t] by simp
    qed
  qed
qed

lemma pause_socket_step: "pause_socket K i ss = (r, ss') \<Longrightarrow> sound A ss (r, ss')"
  by (rule sound_same) (auto simp: pause_socket_def dest!: enable_tid split: if_splits prod.splits)

lemma trigger_write_step: "trigger_write K i ss = (r, ss') \<Longrightarrow> sound A ss (r, ss')"
  by (rule sound_same) (auto simp: trigger_write_def dest!: enable_tid split: if_splits prod.splits)

lemma set_udp_address_step: "set_udp_address i a ss = Some (r, ss') \<Longrightarrow> sound A ss (r, ss')"
  by (rule sound_same) (auto simp: set_udp_address_def Let_def tid_same split: if_splits)

lemma start_slot_step:
  assumes "tid ss1 = tid ss" "so_type (slot_at i ss1) = a" "b \<in> after a" "so_type s' = b" "so_id s' = so_id (slot_at i ss1)" "no_close r"
  shows "sound A ss (r, set_slot i s' ss1)"
proof -
  have "tid (set_slot i s' ss1) = (tid ss)(HASH_ID i := (b, snd (tid ss (HASH_ID i))))"
    using assms(1,4,5) by (simp add: tid_set_slot slot_tid)
  then have "moves A ss (set_slot i s' ss1)" by (rule downs_upd) (use assms(1-3) in \<open>simp add: slot_tid down_def\<close>)
  then show ?thesis using assms(6) by (simp add: sound_def no_close_closes)
qed

lemma resume_socket_step: "sound A ss (resume_socket K i opaque ss)"
proof (cases "socket_invalid (slot_at i ss) i \<or> halfclose_read (slot_at i ss)")
  case True
  then show ?thesis by (auto simp: resume_socket_def Let_def intro!: sound_same)
next
  case False
  obtain b ss1 where e: "enable_read K i True ss = (b, ss1)" by fastforce
  note t = enable_tid(2) [OF e]
  note d = resume_socket_def [of K i opaque ss, unfolded Let_def e prod.case]
  show ?thesis
  proof (cases "b \<or> so_type (slot_at i ss1) \<notin> {SOCKET_TYPE_PACCEPT, SOCKET_TYPE_PLISTEN}")
    case True
    with False show ?thesis unfolding d by (auto simp: t tid_same intro!: sound_same)
  next
    case b: False
    with False show ?thesis unfolding d by (auto intro!: start_slot_step [OF t refl])
  qed
qed

text \<open>The ids under which a request opens a reserved slot.\<close>

fun opens :: "request \<Rightarrow> int set" where
  "opens (Req_B i fd opaque) = {i}"
| "opens (Req_L i fd opaque) = {i}"
| "opens (Req_O i port opaque host) = {i}"
| "opens (Req_U i fd v6 opaque) = {i}"
| "opens _ = {}"

lemma ctrl_request_step:
  assumes c: "ctrl_request K err0 r ss = Some res"
  shows "sound (opens r) ss res"
proof (cases r)
  case (Req_D q)
  with c obtain ret ss1 ss2 where s: "send_socket K q True None ss = Some (ret, ss1)"
    "dec_sending_ref (rs_id q) ss1 = Some ss2" "res = (ret, ss2)" by (auto simp: bind_eq_Some_conv)
  with send_socket_step [OF s(1)] dec_sending_ref_tid [OF s(2)] show ?thesis by (simp add: sound_same)
next
  case (Req_P q)
  with c obtain ret ss1 ss2 where s: "send_socket K q False None ss = Some (ret, ss1)"
    "dec_sending_ref (rs_id q) ss1 = Some ss2" "res = (ret, ss2)" by (auto simp: bind_eq_Some_conv)
  with send_socket_step [OF s(1)] dec_sending_ref_tid [OF s(2)] show ?thesis by (simp add: sound_same)
next
  case (Req_A q a)
  with c have s: "send_socket K q True (Some a) ss = Some res" by simp
  with send_socket_step [OF s] show ?thesis by (cases res) (simp add: sound_same)
next
  case (Req_T i w v)
  with c show ?thesis by (auto simp: setopt_socket_def Let_def intro!: sound_same)
next
  case (Req_U i fd v6 opaque)
  with c show ?thesis by (auto intro: add_udp_socket_step)
next
  case (Req_R i opaque)
  with c show ?thesis using resume_socket_step by auto
next
  case (Req_S i opaque)
  with c show ?thesis using pause_socket_step by (cases res) simp
next
  case (Req_W i)
  with c show ?thesis using trigger_write_step by (cases res) simp
next
  case (Req_C i a)
  with c show ?thesis using set_udp_address_step by (cases res) simp
next
  case Req_X
  with c show ?thesis by (auto intro: sound_same)
qed (use c bind_socket_step listen_socket_step close_socket_step open_socket_step in simp_all)

section \<open>Events\<close>

lemma stat_tid_moves: "moves A ss (stat_read i n ss')  \<longleftrightarrow> moves A ss ss'"
  by (simp add: moves_def)

lemma quiet_force_close:
  "force_close K i ss1 = Some (m, ss') \<Longrightarrow> tid ss1 = tid ss \<Longrightarrow> no_close r \<Longrightarrow> sound A ss (r, ss')"
  by (rule sound_cong [where ?ss1.0 = ss1]) (simp_all add: quiet_sound quiet_def force_close_downs)

lemma forward_message_tcp_step:
  assumes f: "forward_message_tcp K i ss = Some res" and live: "so_type (slot_at i ss) \<noteq> SOCKET_TYPE_INVALID"
  shows "sound A ss res"
proof -
  obtain d ss1 where d: "sys (k_read K (so_fd (slot_at i ss)) (nat (so_size (slot_at i ss)))) ss = (d, ss1)" by fastforce
  note t = sys_tid [OF d]
  have live1: "so_type (slot_at i ss1) \<noteq> SOCKET_TYPE_INVALID" using live slot_type_cong [OF t] by simp
  show ?thesis
  proof (cases "d = Inl []")
    case False
    with f d t show ?thesis
      by (auto simp: forward_message_tcp_def Let_def tid_same intro!: sound_same split: sum.splits if_splits)
  next
    case eof: True
    let ?s = "slot_at i ss1"
    show ?thesis
    proof (cases "so_closing ?s \<or> so_type ?s = SOCKET_TYPE_HALFCLOSE_READ")
      case True
      with f d eof t show ?thesis
        by (auto simp: forward_message_tcp_def Let_def intro: sound_same quiet_force_close split: if_splits)
    next
      case nc: False
      have "sound A ss1 res"
      proof (cases "so_type ?s = SOCKET_TYPE_HALFCLOSE_WRITE")
        case True
        with f d eof nc show ?thesis
          by (auto simp: forward_message_tcp_def Let_def intro!: force_close_closes)
      next
        case False
        with f d eof nc live1 show ?thesis
          by (auto simp: forward_message_tcp_def Let_def intro!: close_read_step split: prod.splits)
      qed
      then show ?thesis by (rule sound_cong [OF t])
    qed
  qed
qed

lemma forward_message_udp_step:
  assumes f: "forward_message_udp K i ss = Some res"
  shows "sound A ss res"
proof -
  obtain d ss1 where d: "sys (k_recvfrom K (so_fd (slot_at i ss))) ss = (d, ss1)" by fastforce
  note t = sys_tid [OF d]
  show ?thesis
  proof (cases d)
    case (Inl p)
    with f d t show ?thesis
      by (cases p) (auto simp: forward_message_udp_def Let_def intro!: sound_same split: if_splits)
  next
    case (Inr err)
    with f d t show ?thesis
      by (auto simp: forward_message_udp_def intro: sound_same quiet_force_close split: if_splits)
  qed
qed

lemma report_connect_step:
  assumes f: "report_connect K i ss = Some res" and c: "so_type (slot_at i ss) = SOCKET_TYPE_CONNECTING"
  shows "sound A ss res"
proof -
  obtain d ss1 where d: "sys (k_so_error K (so_fd (slot_at i ss))) ss = (d, ss1)" by fastforce
  note t = sys_tid [OF d]
  show ?thesis
  proof (cases d)
    case (Some err)
    with f d t show ?thesis by (auto simp: report_connect_def intro: quiet_force_close)
  next
    case None
    let ?ss = "set_type i SOCKET_TYPE_CONNECTED ss1"
    have "tid ?ss = (tid ss)(HASH_ID i := (SOCKET_TYPE_CONNECTED, snd (tid ss (HASH_ID i))))"
      using t by (simp add: set_type_tid)
    then have m: "downs ss ?ss" by (rule downs_upd) (use c in \<open>simp add: slot_tid down_def\<close>)
    obtain b ss2 where e: "(if nomore_sending_data (slot_at i ?ss) then enable_write K i False ?ss else (False, ?ss)) = (b, ss2)"
      by fastforce
    have t2: "tid ss2 = tid ?ss" using e by (auto dest!: enable_tid split: if_splits)
    note m2 = moves_cong2 [OF t2 m]
    obtain p ss3 where p: "sys (k_peername K (so_fd (slot_at i ss2))) ss2 = (p, ss3)" by fastforce
    note m3 = moves_cong2 [OF sys_tid [OF p] m2]
    have "quiet ss res"
    proof (cases b)
      case True
      with f d None e obtain m' ss4 where "force_close K i ss2 = Some (m', ss4)" "snd res = ss4" "no_close (fst res)"
        by (auto simp: report_connect_def Let_def)
      then show ?thesis using moves_trans [OF m2 force_close_downs] by (simp add: quiet_def)
    next
      case False
      with f d None e p m3 show ?thesis by (auto simp: report_connect_def Let_def quiet_def)
    qed
    then show ?thesis by (rule quiet_sound)
  qed
qed

lemma poll_eof_step:
  assumes p: "poll_eof K k ss = Some res" and live: "so_type (slot_at k ss) \<noteq> SOCKET_TYPE_INVALID"
  shows "sound A ss res"
proof -
  from p obtain m ss' where f: "force_close K k ss = Some (m, ss')"
    "res = (if halfclose_read (slot_at k ss) then None else Some (SOCKET_CLOSE, m), ss')"
    by (auto simp: poll_eof_def Let_def bind_eq_Some_conv)
  show ?thesis
  proof (cases "halfclose_read (slot_at k ss)")
    case True
    then show ?thesis using f force_close_downs [OF f(1)] by (simp add: sound_def moves_mono closes_def)
  next
    case nh: False
    with f force_close_closes [OF f(1) live] show ?thesis by (simp add: halfclose_read_def)
  qed
qed

lemma poll_read_step:
  assumes p: "poll_read K e k ss = Some res" and live: "so_type (slot_at k ss) \<noteq> SOCKET_TYPE_INVALID"
  shows "sound A ss res"
proof -
  from p obtain r ss1 where
    f: "(if so_protocol (slot_at k ss) = PROTOCOL_TCP then forward_message_tcp K k ss else forward_message_udp K k ss) = Some (r, ss1)"
    by (auto simp: poll_read_def Let_def bind_eq_Some_conv)
  have s: "sound A ss (r, ss1)"
    using f forward_message_tcp_step [OF _ live] forward_message_udp_step by (auto split: if_splits)
  have n: "sound A ss (r', ss1)" if "no_close r'" for r' using s that by (simp add: sound_def no_close_closes)
  from p f obtain r' ss2 where "res = (r', ss2)" "tid ss2 = tid ss1" "no_close r' \<or> r' = r"
    by (auto simp: poll_read_def Let_def split: option.split_asm if_split_asm)
  then show ?thesis using s n sound_cong2 [of ss2 ss1] by auto
qed

section \<open>Accepting\<close>

lemma reserve_loop_tid:
  "reserve_loop n ss = (j, ss') \<Longrightarrow>
     (if 0 \<le> j then fst (tid ss (HASH_ID j)) = SOCKET_TYPE_INVALID \<and> tid ss' = (tid ss)(HASH_ID j := (SOCKET_TYPE_RESERVE, j))
      else tid ss' = tid ss)"
proof (induction n arbitrary: ss)
  case (Suc n)
  obtain i a where a: "next_id (ss_alloc_id ss) = (i, a)" by fastforce
  have at: "slot_at i (ss\<lparr>ss_alloc_id := a\<rparr>) = slot_at i ss" by (simp add: slot_at_def)
  show ?case
  proof (cases "so_type (slot_at i ss) = SOCKET_TYPE_INVALID")
    case True
    then show ?thesis using Suc.prems a next_id_hash(1) [OF a] by (auto simp: at Let_def tid_set_slot slot_tid)
  next
    case False
    with Suc.prems a have "reserve_loop n (ss\<lparr>ss_alloc_id := a\<rparr>) = (j, ss')" by (simp add: at Let_def)
    from Suc.IH [OF this] show ?thesis by (simp only: tid_simps)
  qed
qed simp

lemmas reserve_id_tid = reserve_loop_tid [of "nat MAX_SOCKET", folded reserve_id_def]

text \<open>A step that accepts the connection \<open>j\<close>.\<close>

definition accepts :: "int \<Rightarrow> 'e socket_server \<Rightarrow> report \<times> 'e socket_server \<Rightarrow> bool" where
  "accepts j ss res \<longleftrightarrow> fst (tid ss (HASH_ID j)) = SOCKET_TYPE_INVALID
     \<and> tid (snd res) = (tid ss)(HASH_ID j := (SOCKET_TYPE_PACCEPT, j))
     \<and> (\<exists>m. fst res = Some (SOCKET_ACCEPT, m) \<and> msg_ud m = j)"

lemma report_accept_step:
  assumes f: "report_accept K i ss = Some res"
  shows "sound A ss res \<or> (\<exists>j. accepts j ss res)"
proof -
  obtain d ss1 where d: "sys (k_accept K (so_fd (slot_at i ss))) ss = (d, ss1)" by fastforce
  note t = sys_tid [OF d]
  show ?thesis
  proof (cases d)
    case (Inr err)
    with f d t show ?thesis by (auto simp: report_accept_def intro: sound_same)
  next
    case (Inl p)
    obtain fd sa where p: "p = (fd, sa)" by (cases p) auto
    obtain j ss2 where j: "reserve_id ss1 = (j, ss2)" by fastforce
    note r = reserve_id_tid [OF j, unfolded t]
    show ?thesis
    proof (cases "j < 0")
      case True
      with f d Inl p j r show ?thesis by (auto simp: report_accept_def Let_def intro: sound_same)
    next
      case False
      let ?ss = "do_sys (k_nonblocking K fd) (do_sys (k_tune K fd) ss2)"
      from f d Inl p j False obtain ok ss3 where
        n: "new_fd K j fd PROTOCOL_TCP (so_opaque (slot_at i ss1)) False ?ss = Some (ok, ss3)"
        by (auto simp: report_accept_def Let_def bind_eq_Some_conv)
      from new_fd_tid(2) [OF n] r False obtain x where
        x: "tid ss3 = (tid ss)(HASH_ID j := (if ok then SOCKET_TYPE_RESERVE else SOCKET_TYPE_INVALID, x))" "x = j" by auto
      show ?thesis
      proof (cases ok)
        case True
        with f d Inl p j False n x r show ?thesis
          by (auto simp: report_accept_def Let_def accepts_def set_type_tid)
      next
        case nok: False
        with f d Inl p j False n have "res = (None, do_sys (k_close K fd) ss3)"
          by (auto simp: report_accept_def Let_def)
        moreover have "moves A ss ss3" using x r False nok by (auto simp: moves_def)
        ultimately show ?thesis by (simp add: sound_def closes_def moves_def)
      qed
    qed
  qed
qed

lemma poll_event_step:
  assumes p: "poll_event K e k ss = Some res"
  shows "sound A ss res \<or> (\<exists>j. accepts j ss res)"
proof -
  let ?t = "so_type (slot_at k ss)"
  consider "?t = SOCKET_TYPE_CONNECTING" "report_connect K k ss = Some res"
    | "report_accept K k ss = Some res" | "res = (None, ss)"
    | "?t \<noteq> SOCKET_TYPE_INVALID" "poll_read K e k ss = Some res"
    | "?t \<noteq> SOCKET_TYPE_INVALID" "send_buffer K k ss = Some res"
    | "poll_error K k ss = res" | "?t \<noteq> SOCKET_TYPE_INVALID" "poll_eof K k ss = Some res"
    using p unfolding poll_event_def Let_def by (metis option.inject)
  then show ?thesis
  proof cases
    case 1
    then show ?thesis using report_connect_step by blast
  next
    case 2
    then show ?thesis by (rule report_accept_step)
  next
    case 3
    then show ?thesis by (simp add: sound_same)
  next
    case 4
    then show ?thesis using poll_read_step by blast
  next
    case 5
    then show ?thesis using send_buffer_step quiet_sound by blast
  next
    case 6
    then show ?thesis by (auto simp: poll_error_def dest: sys_tid intro!: sound_same split: prod.splits)
  next
    case 7
    then show ?thesis using poll_eof_step by blast
  qed
qed

text \<open>The request that a round takes from the pipe, if it takes one.\<close>

definition carried :: "'e socket_server \<Rightarrow> request list" where
  "carried ss = (if ss_checkctrl ss then take 1 (ss_ctrl ss) else [])"

definition carried_opens :: "'e socket_server \<Rightarrow> int set" where
  "carried_opens ss = (\<Union>r \<in> set (carried ss). opens r)"

lemma poll_round_step:
  assumes p: "poll_round K err0 (mr, ss) = Some (r, mr', ss')"
  shows "sound (carried_opens ss) ss (r, ss') \<or> (\<exists>j. accepts j ss (r, ss'))"
proof (cases "ss_checkctrl ss \<and> ss_ctrl ss \<noteq> []")
  case True
  then obtain q qs where q: "ss_ctrl ss = q # qs" by (cases "ss_ctrl ss") auto
  from p True q obtain ss1 where c: "ctrl_request K err0 q (ss\<lparr>ss_ctrl := qs\<rparr>) = Some (r, ss1)" "ss' = clear_closed_event r ss1"
    by (auto simp: poll_round_def ctrl_cmd_def bind_eq_Some_conv)
  have "sound (opens q) (ss\<lparr>ss_ctrl := qs\<rparr>) (r, ss1)" by (rule ctrl_request_step [OF c(1)])
  then have "sound (opens q) ss (r, ss1)" by (rule sound_cong [rotated]) simp
  then have "sound (carried_opens ss) ss (r, ss1)" using q True by (auto simp: sound_def moves_def carried_opens_def carried_def)
  then have "sound (carried_opens ss) ss (r, ss')" unfolding c(2) by (rule sound_cong2 [rotated]) simp
  then show ?thesis ..
next
  case False
  obtain mr1 ss1 where w: "(if ss_event_index ss = length (ss_ev ss)
             then case sys (k_sp_wait K) (ss\<lparr>ss_checkctrl := False\<rparr>) of
               (Inl evs, ss) \<Rightarrow> (False, ss\<lparr>ss_ev := evs, ss_checkctrl := True, ss_event_index := 0\<rparr>)
             | (Inr _, ss) \<Rightarrow> (False, ss\<lparr>ss_ev := [], ss_checkctrl := True, ss_event_index := 0\<rparr>)
             else (mr, ss\<lparr>ss_checkctrl := False\<rparr>)) = (mr1, ss1)" by fastforce
  have t1: "tid ss1 = tid ss"
    using w by (auto dest!: sys_tid split: if_splits prod.splits sum.splits)
  let ?ss = "ss1\<lparr>ss_event_index := ss_event_index ss1 + 1\<rparr>"
  have t2: "tid ?ss = tid ss" using t1 by simp
  from p False w consider "r = None" "ss' = ss1" | "r = None" "ss' = ?ss" | e k where "poll_event K e k ?ss = Some (r, ss')"
    by (auto simp: poll_round_def Let_def bind_eq_Some_conv split: if_splits option.splits)
  then show ?thesis
  proof cases
    case 3
    from poll_event_step [OF 3] t2 show ?thesis using sound_cong [OF t2] by (auto simp: accepts_def)
  qed (use t1 in \<open>auto intro: sound_same\<close>)
qed

section \<open>Calls and runs\<close>

text \<open>The calls of other threads that change the server.\<close>

datatype api_call =
  Call_connect u64 "byte list" int
| Call_listen u64 "byte list" int int
| Call_bind u64 int
| Call_udp u64 "byte list option" int
| Call_udp_connect int "byte list" int
| Call_start u64 int
| Call_pause u64 int
| Call_option int int int
| Call_close u64 int
| Call_shutdown u64 int
| Call_send socket_sendbuffer
| Call_send_lowpriority socket_sendbuffer
| Call_udp_send "byte list" socket_sendbuffer

text \<open>A call with its result; the calls without one give 0.\<close>

fun server_call :: "'e kernel \<Rightarrow> api_call \<Rightarrow> 'e socket_server \<Rightarrow> (int \<times> 'e socket_server) option" where
  "server_call K (Call_connect opaque address port) ss = Some (socket_server_connect opaque address port ss)"
| "server_call K (Call_listen opaque address port backlog) ss = Some (socket_server_listen K opaque address port backlog ss)"
| "server_call K (Call_bind opaque fd) ss = Some (socket_server_bind opaque fd ss)"
| "server_call K (Call_udp opaque address port) ss = Some (socket_server_udp K opaque address port ss)"
| "server_call K (Call_udp_connect i address port) ss = Some (socket_server_udp_connect K i address port ss)"
| "server_call K (Call_start opaque i) ss = Some (0, socket_server_start opaque i ss)"
| "server_call K (Call_pause opaque i) ss = Some (0, socket_server_pause opaque i ss)"
| "server_call K (Call_option i what v) ss = Some (0, socket_server_option i what v ss)"
| "server_call K (Call_close opaque i) ss = Some (0, socket_server_close opaque i ss)"
| "server_call K (Call_shutdown opaque i) ss = Some (0, socket_server_shutdown opaque i ss)"
| "server_call K (Call_send buf) ss = socket_server_send K buf ss"
| "server_call K (Call_send_lowpriority buf) ss = socket_server_send_lowpriority buf ss"
| "server_call K (Call_udp_send address buf) ss = socket_server_udp_send K address buf ss"

text \<open>What a call does to the slots: a new id is reserved, or nothing changes.\<close>

definition call_ok :: "'e socket_server \<Rightarrow> int \<Rightarrow> 'e socket_server \<Rightarrow> bool" where
  "call_ok ss j ss' \<longleftrightarrow> tid ss' = tid ss
     \<or> fst (tid ss (HASH_ID j)) = SOCKET_TYPE_INVALID \<and> tid ss' = (tid ss)(HASH_ID j := (SOCKET_TYPE_RESERVE, j))"

lemma send_request_tid [simp]: "tid (send_request r ss) = tid ss"
  by (simp add: send_request_def)

lemma free_buffer_tid: "free_buffer buf ss = Some ss' \<Longrightarrow> tid ss' = tid ss"
  by (auto simp: free_buffer_def split: if_splits)

lemma clone_buffer_tid: "clone_buffer buf ss = Some (x, ss') \<Longrightarrow> tid ss' = tid ss"
  by (auto simp: clone_buffer_def split: if_splits)

lemma inc_sending_ref_tid: "inc_sending_ref i ss = Some ss' \<Longrightarrow> tid ss' = tid ss"
  by (auto simp: inc_sending_ref_def Let_def tid_same split: if_splits)

lemma direct_write_tid: "direct_write K i bs ss = (n, ss') \<Longrightarrow> tid ss' = tid ss"
  by (auto simp: direct_write_def Let_def dest!: sys_tid split: prod.splits option.splits if_splits)

lemma call_same: "tid ss' = tid ss \<Longrightarrow> call_ok ss j ss'"
  by (simp add: call_ok_def)

lemma call_reserve:
  assumes "reserve_id ss1 = (i, ss2)" "\<not> i < 0" "tid ss1 = tid ss"
  shows "call_ok ss i (send_request r ss2)"
  using reserve_id_tid [OF assms(1)] assms(2-) by (auto simp: call_ok_def)

lemma call_full:
  assumes "reserve_id ss1 = (i, ss2)" "i < 0" "tid ss1 = tid ss" "tid ss3 = tid ss2"
  shows "call_ok ss j ss3"
  using reserve_id_tid [OF assms(1)] assms(2-) by (auto simp: call_ok_def)

lemma do_bind_tid: "do_bind K host port tcp ss = (r, ss') \<Longrightarrow> tid ss' = tid ss"
  by (auto simp: do_bind_def Let_def dest!: sys_tid split: prod.splits sum.splits list.splits if_splits)

lemma do_listen_tid: "do_listen K host port backlog ss = (r, ss') \<Longrightarrow> tid ss' = tid ss"
  by (auto simp: do_listen_def dest!: do_bind_tid sys_tid split: prod.splits option.splits if_splits)

text \<open>The calls that reserve no id.\<close>

abbreviation same :: "'e socket_server \<Rightarrow> 'e socket_server \<Rightarrow> bool" where
  "same ss ss' \<equiv> tid ss' = tid ss"

lemma udp_connect_same:
  assumes c: "socket_server_udp_connect K i address port ss = (j, ss')"
  shows "same ss ss'"
proof (cases "socket_invalid (slot_at i ss) i")
  case True
  with c show ?thesis by (simp add: socket_server_udp_connect_def)
next
  case False
  let ?ss = "set_slot i ((slot_at i ss)\<lparr>so_udpconnecting := so_udpconnecting (slot_at i ss) + 1\<rparr>) ss"
  obtain r ss1 where r: "sys (k_getaddrinfo K False address port) ?ss = (r, ss1)" by fastforce
  have t: "same ss ?ss" by (simp add: tid_same)
  from c False r have "ss' = ss1 \<or> (\<exists>a. ss' = send_request (Req_C i a) ss1)"
    by (auto simp: socket_server_udp_connect_def Let_def split: sum.split_asm list.split_asm)
  with sys_tid [OF r] t show ?thesis by auto
qed

lemma request_same:
  assumes "clone_buffer buf ss = Some ((ob, sz), ss1)" "ss' = send_request r ss1"
  shows "same ss ss'"
  using assms clone_buffer_tid [OF assms(1)] by simp

lemma send_same:
  assumes c: "socket_server_send K buf ss = Some (j, ss')"
  shows "same ss ss'"
proof -
  let ?i = "sb_id buf" and ?s = "slot_at (sb_id buf) ss"
  show ?thesis
  proof (cases "socket_invalid ?s ?i \<or> so_closing ?s")
    case True
    with c have "free_buffer buf ss = Some ss'" by (simp add: socket_server_send_def Let_def)
    then show ?thesis by (rule free_buffer_tid)
  next
    case open': False
    show ?thesis
    proof (cases "can_direct_write ?s ?i")
      case False
      with c open' obtain ss1 ob sz ss2 where u: "inc_sending_ref ?i ss = Some ss1" "clone_buffer buf ss1 = Some ((ob, sz), ss2)"
        "ss' = send_request (Req_D \<lparr>rs_id = ?i, rs_sz = sz, rs_buffer = ob\<rparr>) ss2"
        by (auto simp: socket_server_send_def Let_def bind_eq_Some_conv)
      with inc_sending_ref_tid [OF u(1)] request_same [OF u(2,3)] show ?thesis by simp
    next
      case True
      with c open' obtain so where so: "send_object_init_from_sendbuffer ss buf = Some so"
        by (auto simp: socket_server_send_def Let_def bind_eq_Some_conv)
      obtain n ss1 where n: "direct_write K ?i (snd_bytes so) ss = (n, ss1)" by fastforce
      note t1 = direct_write_tid [OF n]
      show ?thesis
      proof (cases n)
        case None
        with c open' True so n have "free_buffer buf ss1 = Some ss'" by (simp add: socket_server_send_def Let_def)
        with t1 free_buffer_tid show ?thesis by metis
      next
        case (Some k)
        let ?ss = "stat_write ?i (int k) ss1"
        have t: "same ss ?ss" using t1 by simp
        from Some c open' True so n consider "free_buffer buf ?ss = Some ss'"
          | ob sz ss2 where "clone_buffer buf ?ss = Some ((ob, sz), ss2)"
            "ss' = send_request (Req_W ?i)
               (set_slot ?i ((slot_at ?i ss2)\<lparr>so_dw_buffer := Some ob, so_dw_size := sz, so_dw_offset := k\<rparr>) ss2)"
          by (auto simp: socket_server_send_def Let_def bind_eq_Some_conv split: if_split_asm)
        then show ?thesis
        proof cases
          case 1
          with t free_buffer_tid show ?thesis by metis
        next
          case 2
          with t clone_buffer_tid [OF 2(1)] show ?thesis by (simp add: tid_same)
        qed
      qed
    qed
  qed
qed

lemma send_lowpriority_same:
  assumes c: "socket_server_send_lowpriority buf ss = Some (j, ss')"
  shows "same ss ss'"
proof -
  let ?i = "sb_id buf"
  consider ss1 where "free_buffer buf ss = Some ss1" "ss' = ss1"
    | ss1 ob sz ss2 where "inc_sending_ref ?i ss = Some ss1" "clone_buffer buf ss1 = Some ((ob, sz), ss2)"
        "ss' = send_request (Req_P \<lparr>rs_id = ?i, rs_sz = sz, rs_buffer = ob\<rparr>) ss2"
    using c by (auto simp: socket_server_send_lowpriority_def Let_def bind_eq_Some_conv split: if_split_asm)
  then show ?thesis
  proof cases
    case 1
    then show ?thesis using free_buffer_tid by blast
  next
    case 2
    with inc_sending_ref_tid [OF 2(1)] request_same [OF 2(2,3)] show ?thesis by simp
  qed
qed

lemma udp_send_same:
  assumes c: "socket_server_udp_send K address buf ss = Some (j, ss')"
  shows "same ss ss'"
proof -
  let ?i = "sb_id buf" and ?s = "slot_at (sb_id buf) ss"
  consider ss1 where "free_buffer buf ss = Some ss1" "ss' = ss1"
    | ob sz ss1 a where "clone_buffer buf ss = Some ((ob, sz), ss1)"
        "ss' = send_request (Req_A \<lparr>rs_id = ?i, rs_sz = sz, rs_buffer = ob\<rparr> a) ss1"
    | so sa n where "\<not> socket_invalid ?s ?i" "address \<noteq> []" "udp_address_size (hd address) = Some n" "\<not> length address < n"
        "can_direct_write ?s ?i" "send_object_init_from_sendbuffer ss buf = Some so" "udp_socket_address ?s address = Some sa"
    using c by (auto simp: socket_server_udp_send_def Let_def bind_eq_Some_conv split: if_split_asm option.split_asm)
  then show ?thesis
  proof cases
    case 1
    then show ?thesis using free_buffer_tid by blast
  next
    case 2
    then show ?thesis by (rule request_same)
  next
    case 3
    obtain w ss1 where w: "sys (k_sendto K (so_fd ?s) (snd_bytes so) sa) ss = (w, ss1)" by fastforce
    note t1 = sys_tid [OF w]
    from c 3 w consider k where "free_buffer buf (stat_write ?i (int k) ss1) = Some ss'"
      | ob sz ss2 a where "clone_buffer buf ss1 = Some ((ob, sz), ss2)"
        "ss' = send_request (Req_A \<lparr>rs_id = ?i, rs_sz = sz, rs_buffer = ob\<rparr> a) ss2"
      by (auto simp: socket_server_udp_send_def Let_def bind_eq_Some_conv split: sum.split_asm)
    then show ?thesis
    proof cases
      case 1
      with t1 show ?thesis by (auto dest!: free_buffer_tid)
    next
      case 2
      with t1 request_same [OF 2] show ?thesis by simp
    qed
  qed
qed

lemma server_call_ok:
  assumes c: "server_call K c ss = Some (j, ss')"
  shows "call_ok ss j ss'"
proof (cases c)
  case (Call_connect opaque address port)
  obtain i ss1 where i: "reserve_id ss = (i, ss1)" by fastforce
  note rf = call_reserve [OF i _ refl, of "Req_O i port opaque address"] call_full [OF i _ refl refl, of j]
  from c Call_connect i rf show ?thesis
    by (auto simp: socket_server_connect_def call_same split: if_split_asm)
next
  case (Call_listen opaque address port backlog)
  obtain fd ss1 where fd: "do_listen K address port backlog ss = (fd, ss1)" by fastforce
  obtain i ss2 where i: "reserve_id ss1 = (i, ss2)" by fastforce
  note t = do_listen_tid [OF fd]
  note rf = call_reserve [OF i _ t, of "Req_L i fd opaque"]
    call_full [OF i _ t, of "do_sys (k_close K fd) ss2" j]
  from c Call_listen fd i rf call_same [of ss1 ss j] t show ?thesis
    by (auto simp: socket_server_listen_def split: if_split_asm)
next
  case (Call_bind opaque fd)
  obtain i ss1 where i: "reserve_id ss = (i, ss1)" by fastforce
  note rf = call_reserve [OF i _ refl, of "Req_B i fd opaque"] call_full [OF i _ refl refl, of j]
  from c Call_bind i rf show ?thesis by (auto simp: socket_server_bind_def split: if_split_asm)
next
  case (Call_udp opaque address port)
  obtain r ss1 where r: "(if port \<noteq> 0 \<or> address \<noteq> None then do_bind K address port False ss
            else case sys (k_socket K False (Sa4 [] [])) ss of
              (Inl fd, ss) \<Rightarrow> (Some (fd, False), ss)
            | (Inr _, ss) \<Rightarrow> (None, ss)) = (r, ss1)" by fastforce
  have t: "tid ss1 = tid ss"
    using r by (auto dest!: do_bind_tid sys_tid split: if_splits prod.splits sum.splits)
  show ?thesis
  proof (cases r)
    case None
    with c Call_udp r t show ?thesis by (auto simp: socket_server_udp_def call_same)
  next
    case (Some p)
    obtain fd v6 where p: "p = (fd, v6)" by (cases p) auto
    let ?ss = "do_sys (k_nonblocking K fd) ss1"
    have t': "tid ?ss = tid ss" using t by simp
    obtain i ss2 where i: "reserve_id ?ss = (i, ss2)" by fastforce
    note rf = call_reserve [OF i _ t', of "Req_U i fd v6 opaque"] call_full [OF i _ t', of "do_sys (k_close K fd) ss2" j]
    from c Call_udp r Some p i rf show ?thesis
      by (auto simp: socket_server_udp_def split: if_split_asm)
  qed
next
  case (Call_udp_connect i address port)
  with c have "same ss ss'" by (intro udp_connect_same) simp
  then show ?thesis by (simp add: call_same)
next
  case (Call_send buf)
  with c have "same ss ss'" by (intro send_same) simp
  then show ?thesis by (simp add: call_same)
next
  case (Call_send_lowpriority buf)
  with c have "same ss ss'" by (intro send_lowpriority_same) simp
  then show ?thesis by (simp add: call_same)
next
  case (Call_udp_send address buf)
  with c have "same ss ss'" by (intro udp_send_same) simp
  then show ?thesis by (simp add: call_same)
qed (use c in \<open>auto simp: socket_server_start_def socket_server_pause_def socket_server_option_def
     socket_server_close_def socket_server_shutdown_def intro: call_same\<close>)

text \<open>A run: the requests carried out, what is reported and the results of the calls, in order.\<close>

datatype life_step = Poll_step | Call_step api_call

datatype life_event = Carried request | Reported socket_ret socket_message | Returned int

fun life_run ::
  "'e kernel \<Rightarrow> errno \<Rightarrow> life_step list \<Rightarrow> bool \<times> 'e socket_server \<Rightarrow> (life_event list \<times> bool \<times> 'e socket_server) option" where
  "life_run K err0 [] st = Some ([], st)"
| "life_run K err0 (Poll_step # sts) st = do {
     (r, st') \<leftarrow> poll_round K err0 st;
     (evs, st'') \<leftarrow> life_run K err0 sts st';
     Some (map Carried (carried (snd st)) @ (case r of Some (t, m) \<Rightarrow> [Reported t m] | None \<Rightarrow> []) @ evs, st'') }"
| "life_run K err0 (Call_step c # sts) (mr, ss) = do {
     (j, ss) \<leftarrow> server_call K c ss;
     (evs, st) \<leftarrow> life_run K err0 sts (mr, ss);
     Some (Returned j # evs, st) }"

definition ids_ok :: "'e socket_server \<Rightarrow> bool" where
  "ids_ok ss \<longleftrightarrow> (\<forall>k. fst (tid ss k) \<noteq> SOCKET_TYPE_INVALID \<longrightarrow> HASH_ID (snd (tid ss k)) = k)"

text \<open>The socket \<open>i\<close> is closed to reads, and nothing opens it again.\<close>

definition finished :: "int \<Rightarrow> 'e socket_server \<Rightarrow> bool" where
  "finished i ss \<longleftrightarrow> (\<forall>k. snd (tid ss k) = i \<longrightarrow> fst (tid ss k) \<in> {SOCKET_TYPE_INVALID, SOCKET_TYPE_HALFCLOSE_READ})"

text \<open>An event that gives the id \<open>i\<close> to a socket.\<close>

fun gives :: "int \<Rightarrow> life_event \<Rightarrow> bool" where
  "gives i (Returned j) = (j = i)"
| "gives i (Carried r) = (i \<in> opens r)"
| "gives i (Reported t m) = (t = SOCKET_ACCEPT \<and> msg_ud m = i)"

lemma moves_ids_ok: "moves A ss ss' \<Longrightarrow> ids_ok ss \<Longrightarrow> ids_ok ss'"
  unfolding moves_def ids_ok_def using down_invalidD by metis

lemma down_finished:
  "down t t' \<Longrightarrow> t \<in> {SOCKET_TYPE_INVALID, SOCKET_TYPE_HALFCLOSE_READ} \<Longrightarrow> t' \<in> {SOCKET_TYPE_INVALID, SOCKET_TYPE_HALFCLOSE_READ}"
  by (auto simp: down_def)

lemma moves_finished:
  assumes m: "moves A ss ss'" and i: "i \<notin> A" and f: "finished i ss"
  shows "finished i ss'"
  unfolding finished_def
proof (intro allI impI)
  fix k assume k: "snd (tid ss' k) = i"
  have d: "down (fst (tid ss k)) (fst (tid ss' k))" using m by (simp add: moves_def)
  consider "snd (tid ss k) = i" | "fst (tid ss' k) = SOCKET_TYPE_INVALID" using m [unfolded moves_def, rule_format, of k] k i by auto
  then show "fst (tid ss' k) \<in> {SOCKET_TYPE_INVALID, SOCKET_TYPE_HALFCLOSE_READ}"
    by cases (use d down_finished f in \<open>auto simp: finished_def\<close>)
qed

text \<open>The close of \<open>i\<close> is reported only for a socket that is not finished, and finishes it.\<close>

lemma sound_close:
  assumes s: "sound A ss (Some (SOCKET_CLOSE, m), ss')" and ok: "ids_ok ss"
  shows "\<not> finished (msg_id m) ss \<and> finished (msg_id m) ss'"
proof -
  from s obtain k where k: "snd (tid ss k) = msg_id m" "fst (tid ss k) \<notin> {SOCKET_TYPE_INVALID, SOCKET_TYPE_HALFCLOSE_READ}"
    "fst (tid ss' k) \<in> {SOCKET_TYPE_HALFCLOSE_READ, SOCKET_TYPE_INVALID}" and m: "moves A ss ss'"
    by (auto simp: sound_def closes_def)
  have "fst (tid ss' l) \<in> {SOCKET_TYPE_INVALID, SOCKET_TYPE_HALFCLOSE_READ}" if l: "snd (tid ss' l) = msg_id m" for l
  proof (cases "fst (tid ss' l) = SOCKET_TYPE_INVALID")
    case False
    with moves_ids_ok [OF m ok] l have "l = HASH_ID (msg_id m)" by (auto simp: ids_ok_def)
    moreover have "k = HASH_ID (msg_id m)" using ok k(1,2) by (auto simp: ids_ok_def)
    ultimately show ?thesis using k(3) by auto
  qed simp
  then show ?thesis using k by (auto simp: finished_def)
qed

lemma accepts_step:
  assumes a: "accepts j ss (r, ss')"
  shows "ids_ok ss \<Longrightarrow> ids_ok ss'" "i \<noteq> j \<Longrightarrow> finished i ss \<Longrightarrow> finished i ss'"
  using a by (auto simp: accepts_def ids_ok_def finished_def)

lemma call_step:
  assumes c: "call_ok ss j ss'"
  shows "ids_ok ss \<Longrightarrow> ids_ok ss'" "i \<noteq> j \<Longrightarrow> finished i ss \<Longrightarrow> finished i ss'"
  using c by (fastforce simp: call_ok_def ids_ok_def finished_def)+

lemma split_at:
  "ys @ x # zs = as @ bs \<Longrightarrow> (\<exists>us. as = ys @ x # us) \<or> (\<exists>ys'. ys = as @ ys' \<and> bs = ys' @ x # zs)"
  by (auto simp: append_eq_append_conv2 append_eq_Cons_conv Cons_eq_append_conv)

text \<open>Once finished, a socket is not reported closed before an event gives its id again.\<close>

lemma finished_run:
  "life_run K err0 sts (mr, ss) = Some (ys @ Reported SOCKET_CLOSE m # zs, st) \<Longrightarrow> ids_ok ss \<Longrightarrow>
   finished (msg_id m) ss \<Longrightarrow> \<exists>e \<in> set ys. gives (msg_id m) e"
proof (induction sts arbitrary: mr ss ys)
  case (Cons s sts)
  show ?case
  proof (cases s)
    case Poll_step
    with Cons.prems(1) obtain r mr' ss' evs where p: "poll_round K err0 (mr, ss) = Some (r, mr', ss')"
      "life_run K err0 sts (mr', ss') = Some (evs, st)"
      "ys @ Reported SOCKET_CLOSE m # zs =
         map Carried (carried ss) @ (case r of Some (t, m) \<Rightarrow> [Reported t m] | None \<Rightarrow> []) @ evs"
      by (auto simp: bind_eq_Some_conv)
    let ?i = "msg_id m"
    let ?L = "map Carried (carried ss)" and ?R = "case r of Some (t, m) \<Rightarrow> [Reported t m] | None \<Rightarrow> []"
    have step: "sound (carried_opens ss) ss (r, ss') \<or> (\<exists>j. accepts j ss (r, ss'))" by (rule poll_round_step [OF p(1)])
    show ?thesis
    proof (rule ccontr)
      assume none: "\<not> ?thesis"
      have "\<nexists>us. ?L = ys @ Reported SOCKET_CLOSE m # us" by (auto simp: map_eq_append_conv)
      with split_at [OF p(3)] obtain y1 where y1: "ys = ?L @ y1" "?R @ evs = y1 @ Reported SOCKET_CLOSE m # zs" by auto
      from split_at [OF y1(2) [symmetric]] consider us where "?R = y1 @ Reported SOCKET_CLOSE m # us"
        | ys' where "ys = ?L @ ?R @ ys'" "evs = ys' @ Reported SOCKET_CLOSE m # zs"
        using y1(1) by auto
      then show False
      proof cases
        case 1
        then have r: "r = Some (SOCKET_CLOSE, m)" and L: "ys = ?L"
          using y1(1) by (cases y1; auto split: option.splits)+
        with step sound_close [of _ ss m ss'] Cons.prems(2,3) r show False by (auto simp: accepts_def)
      next
        case 2
        have "ids_ok ss' \<and> finished ?i ss'"
        proof (cases "sound (carried_opens ss) ss (r, ss')")
          case True
          then have m: "moves (carried_opens ss) ss ss'" by (simp add: sound_def)
          have "Carried q \<in> set ys" if "q \<in> set (carried ss)" for q using that unfolding 2(1) by simp
          with none have "?i \<notin> carried_opens ss" unfolding carried_opens_def by fastforce
          with moves_finished [OF m] moves_ids_ok [OF m] Cons.prems(2,3) show ?thesis by blast
        next
          case False
          with step obtain j where j: "accepts j ss (r, ss')" by blast
          with none 2(1) have "?i \<noteq> j" by (auto simp: accepts_def)
          with accepts_step [OF j] Cons.prems(2,3) show ?thesis by blast
        qed
        with Cons.IH [OF p(2) [unfolded 2(2)]] none 2(1) show False by auto
      qed
    qed
  next
    case (Call_step c)
    with Cons.prems(1) obtain j ss' evs where p: "server_call K c ss = Some (j, ss')"
      "life_run K err0 sts (mr, ss') = Some (evs, st)" "ys @ Reported SOCKET_CLOSE m # zs = Returned j # evs"
      by (auto simp: bind_eq_Some_conv)
    from p(3) obtain ys' where ys: "ys = Returned j # ys'" "evs = ys' @ Reported SOCKET_CLOSE m # zs"
      by (cases ys) auto
    note st = call_step [OF server_call_ok [OF p(1)]]
    show ?thesis
    proof (cases "j = msg_id m")
      case False
      with Cons.IH [OF p(2) [unfolded ys(2)] st(1) [OF Cons.prems(2)]] st(2) Cons.prems(3) show ?thesis
        unfolding ys(1) by auto
    qed (simp add: ys(1))
  qed
qed simp

lemma closed_run:
  "life_run K err0 sts (mr, ss) = Some (xs @ Reported SOCKET_CLOSE m # zs, st) \<Longrightarrow> ids_ok ss \<Longrightarrow>
   \<exists>sts' mr' ss'. life_run K err0 sts' (mr', ss') = Some (zs, st) \<and> ids_ok ss' \<and> finished (msg_id m) ss'"
proof (induction sts arbitrary: mr ss xs)
  case (Cons s sts)
  show ?case
  proof (cases s)
    case Poll_step
    with Cons.prems(1) obtain r mr' ss' evs where p: "poll_round K err0 (mr, ss) = Some (r, mr', ss')"
      "life_run K err0 sts (mr', ss') = Some (evs, st)"
      "xs @ Reported SOCKET_CLOSE m # zs =
         map Carried (carried ss) @ (case r of Some (t, m) \<Rightarrow> [Reported t m] | None \<Rightarrow> []) @ evs"
      by (auto simp: bind_eq_Some_conv)
    let ?L = "map Carried (carried ss)" and ?R = "case r of Some (t, m) \<Rightarrow> [Reported t m] | None \<Rightarrow> []"
    have step: "sound (carried_opens ss) ss (r, ss') \<or> (\<exists>j. accepts j ss (r, ss'))" by (rule poll_round_step [OF p(1)])
    have ok: "ids_ok ss'"
      using step moves_ids_ok [of _ ss ss'] accepts_step(1) Cons.prems(2) by (auto simp: sound_def)
    have "\<nexists>us. ?L = xs @ Reported SOCKET_CLOSE m # us" by (auto simp: map_eq_append_conv)
    with split_at [OF p(3)] obtain y1 where y1: "?R @ evs = y1 @ Reported SOCKET_CLOSE m # zs" by auto
    from split_at [OF y1 [symmetric]] show ?thesis
    proof (elim disjE exE)
      fix us assume us: "?R = y1 @ Reported SOCKET_CLOSE m # us"
      then have r: "r = Some (SOCKET_CLOSE, m)" and "us = []" "y1 = []" by (cases y1; auto split: option.splits)+
      with y1 us p(2) have "life_run K err0 sts (mr', ss') = Some (zs, st)" by simp
      moreover have "finished (msg_id m) ss'"
        using step sound_close [of _ ss m ss'] Cons.prems(2) r by (auto simp: accepts_def)
      ultimately show ?thesis using ok by blast
    next
      fix ys' assume "y1 = ?R @ ys' \<and> evs = ys' @ Reported SOCKET_CLOSE m # zs"
      with Cons.IH p(2) ok show ?thesis by blast
    qed
  next
    case (Call_step c)
    with Cons.prems(1) obtain j ss' evs where p: "server_call K c ss = Some (j, ss')"
      "life_run K err0 sts (mr, ss') = Some (evs, st)" "xs @ Reported SOCKET_CLOSE m # zs = Returned j # evs"
      by (auto simp: bind_eq_Some_conv)
    from p(3) obtain xs' where "evs = xs' @ Reported SOCKET_CLOSE m # zs" by (cases xs) auto
    with Cons.IH p(2) call_step(1) [OF server_call_ok [OF p(1)] Cons.prems(2)] show ?thesis by blast
  qed
qed simp

section \<open>Properties\<close>

text \<open>C28: \<open>reserve_id\<close> gives an id when a slot is free: its slot was invalid, is now reserved for it, and no
  other slot changes; with every slot in use it gives -1 and leaves the slots alone.\<close>

theorem reserve_id_takes_free_slot:
  "if \<exists>k. 0 \<le> k \<and> k < MAX_SOCKET \<and> so_type (ss_slot ss k) = SOCKET_TYPE_INVALID
   then \<exists>i ss'. reserve_id ss = (i, ss') \<and> 0 \<le> i \<and> so_type (slot_at i ss) = SOCKET_TYPE_INVALID
     \<and> so_type (slot_at i ss') = SOCKET_TYPE_RESERVE \<and> so_id (slot_at i ss') = i
     \<and> ss_slot ss' = (ss_slot ss)(HASH_ID i := slot_at i ss')
   else fst (reserve_id ss) = -1 \<and> ss_slot (snd (reserve_id ss)) = ss_slot ss"
proof (cases "\<exists>k. 0 \<le> k \<and> k < MAX_SOCKET \<and> so_type (ss_slot ss k) = SOCKET_TYPE_INVALID")
  case False
  then have "\<forall>k. 0 \<le> k \<longrightarrow> k < MAX_SOCKET \<longrightarrow> so_type (ss_slot ss k) \<noteq> SOCKET_TYPE_INVALID" by blast
  from reserve_loop_full [OF this] show ?thesis unfolding if_not_P [OF False] reserve_id_def by blast
next
  case True
  then obtain k where k: "0 \<le> k" "k < MAX_SOCKET" "so_type (ss_slot ss k) = SOCKET_TYPE_INVALID" by auto
  define j where "j = nat ((k - (uint (ss_alloc_id ss) + 1)) mod MAX_SOCKET)"
  have pos: "0 < MAX_SOCKET" by (simp add: MAX_SOCKET_def)
  have j: "int j = (k - (uint (ss_alloc_id ss) + 1)) mod MAX_SOCKET" using pos by (simp add: j_def)
  have "j < nat MAX_SOCKET" using pos by (simp add: j_def nat_less_eq_zless)
  moreover have "(uint (ss_alloc_id ss) + 1 + int j) mod MAX_SOCKET = k"
    unfolding j mod_add_right_eq using k by simp
  then have "so_type (ss_slot ss ((uint (ss_alloc_id ss) + 1 + int j) mod MAX_SOCKET)) = SOCKET_TYPE_INVALID"
    using k(3) by (simp only:)
  ultimately obtain i ss' where i: "reserve_loop (nat MAX_SOCKET) ss = (i, ss')" "0 \<le> i" "so_type (slot_at i ss) = SOCKET_TYPE_INVALID"
     "so_type (slot_at i ss') = SOCKET_TYPE_RESERVE" "so_id (slot_at i ss') = i"
     "\<forall>k. k \<noteq> HASH_ID i \<longrightarrow> ss_slot ss' k = ss_slot ss k"
    using reserve_loop_free by blast
  have "ss_slot ss' = (ss_slot ss)(HASH_ID i := slot_at i ss')" using i(6) by (auto simp: fun_eq_iff slot_at_def)
  with i show ?thesis unfolding if_P [OF True] reserve_id_def by blast
qed

text \<open>C27: A round of the socket thread changes the type of a slot only along the life of a socket
  (\<open>after\<close>): a closed direction is not opened again, and a slot out of use comes into use only for a
  connection that the round reports as accepted under the id now in that slot.\<close>

theorem socket_types_follow_life:
  assumes "poll_round K err0 (mr, ss) = Some (r, mr', ss')"
  shows "\<forall>k. so_type (ss_slot ss' k) = so_type (ss_slot ss k) \<or> so_type (ss_slot ss' k) \<in> after (so_type (ss_slot ss k))
    \<or> so_type (ss_slot ss k) = SOCKET_TYPE_INVALID \<and> so_type (ss_slot ss' k) = SOCKET_TYPE_PACCEPT
      \<and> (\<exists>m. r = Some (SOCKET_ACCEPT, m) \<and> msg_ud m = so_id (ss_slot ss' k))"
  using poll_round_step [OF assms]
proof (elim disjE exE)
  assume "sound (carried_opens ss) ss (r, ss')"
  then show ?thesis by (auto simp: sound_def moves_def down_def tid_def)
next
  fix j assume j: "accepts j ss (r, ss')"
  have e: "so_type (ss_slot ss' k) = fst (tid ss' k)" "so_id (ss_slot ss' k) = snd (tid ss' k)"
    "so_type (ss_slot ss k) = fst (tid ss k)" for k by (simp_all add: tid_def)
  show ?thesis unfolding e using j by (auto simp: accepts_def)
qed

text \<open>C26: The close of a socket is reported once. In any interleaving of the calls of services with the rounds
  of the socket thread, after a \<open>SOCKET_CLOSE\<close> for an id no other is reported for it, until a
  connection is accepted under that id, a call returns it, or a request opens it.\<close>

theorem socket_closed_once:
  assumes "life_run K err0 sts (mr, ss) = Some (xs @ Reported SOCKET_CLOSE m # ys @ zs, st)" "ids_ok ss"
    "\<forall>e \<in> set ys. \<not> gives (msg_id m) e"
  shows "\<forall>m'. Reported SOCKET_CLOSE m' \<in> set ys \<longrightarrow> msg_id m' \<noteq> msg_id m"
proof (intro allI impI notI)
  fix m' assume "Reported SOCKET_CLOSE m' \<in> set ys" and i: "msg_id m' = msg_id m"
  then obtain y1 y2 where ys: "ys = y1 @ Reported SOCKET_CLOSE m' # y2" by (auto simp: in_set_conv_decomp)
  from closed_run [OF assms(1,2)] obtain sts' mr' ss' where
    "life_run K err0 sts' (mr', ss') = Some (y1 @ Reported SOCKET_CLOSE m' # (y2 @ zs), st)" "ids_ok ss'" "finished (msg_id m) ss'"
    unfolding ys by auto
  from finished_run [OF this(1,2)] this(3) i have "\<exists>e \<in> set y1. gives (msg_id m) e" by simp
  with assms(3) ys show False by auto
qed

definition connected_server :: "quota_state socket_server" where
  "connected_server = set_slot 1 (socket_null\<lparr>so_type := SOCKET_TYPE_CONNECTED, so_id := 1, so_fd := 5\<rparr>)
     (socket_server_create 0 (\<lambda>i. socket_null) ([], \<lambda>fd. []))"

text \<open>The round that carries out the close of a socket with nothing to send, and of one that is not there.\<close>

lemma close_idle_round:
  assumes s: "so_id (slot_at i ss) = i" "so_type (slot_at i ss) = SOCKET_TYPE_CONNECTED" "so_high (slot_at i ss) = []"
    "so_low (slot_at i ss) = []" "so_dw_buffer (slot_at i ss) = None" "so_sending (slot_at i ss) = 0"
    and c: "ss_checkctrl ss" "ss_ctrl ss = [Req_K i False opaque]"
  shows "\<exists>ss'. poll_round K err0 (mr, ss) = Some (Some (SOCKET_CLOSE, close_message (slot_at i ss)), mr, ss')
    \<and> so_type (slot_at i ss') = SOCKET_TYPE_INVALID \<and> ss_checkctrl ss' \<and> ss_ctrl ss' = []"
  using assms
  by (simp add: poll_round_def ctrl_cmd_def close_socket_def socket_invalid_def nomore_sending_data_def send_buffer_empty_def
      halfclose_read_def force_close_def free_dw_def do_sys_def clear_closed_event_def set_type_def close_message_def
      set_slot_def slot_at_def Let_def)

lemma close_gone_round:
  assumes "so_type (slot_at i ss) = SOCKET_TYPE_INVALID" "ss_checkctrl ss" "ss_ctrl ss = [Req_K i False opaque]"
  shows "poll_round K err0 (mr, ss) = Some (None, mr, ss\<lparr>ss_ctrl := []\<rparr>)"
  using assms
  by (simp add: poll_round_def ctrl_cmd_def close_socket_def socket_invalid_def clear_closed_event_def slot_at_def)

lemma socket_closed_once_witness:
  "\<exists>m st. life_run quota_kernel EINTR
       [Call_step (Call_close 7 1), Poll_step, Call_step (Call_close 7 1), Poll_step] (False, connected_server) =
       Some ([Returned 0, Carried (Req_K 1 False 7), Reported SOCKET_CLOSE m, Returned 0, Carried (Req_K 1 False 7)], st)
     \<and> msg_id m = 1 \<and> (\<forall>m'. Reported SOCKET_CLOSE m' \<in> set [Returned 0, Carried (Req_K 1 False 7)] \<longrightarrow> msg_id m' \<noteq> 1)"
proof -
  let ?ss = connected_server and ?calls = "[Call_step (Call_close 7 1), Poll_step, Call_step (Call_close 7 1), Poll_step]"
  have ok: "ids_ok ?ss"
    by (auto simp: ids_ok_def connected_server_def tid_def set_slot_def socket_server_create_def socket_null_def HASH_ID_def MAX_SOCKET_def)
  let ?ss1 = "socket_server_close 7 1 ?ss"
  have f: "slot_at 1 ?ss1 = slot_at 1 ?ss" "ss_ctrl ?ss1 = [Req_K 1 False 7]" "ss_checkctrl ?ss1"
    "so_id (slot_at 1 ?ss) = 1" "so_type (slot_at 1 ?ss) = SOCKET_TYPE_CONNECTED" "so_high (slot_at 1 ?ss) = []"
    "so_low (slot_at 1 ?ss) = []" "so_dw_buffer (slot_at 1 ?ss) = None" "so_sending (slot_at 1 ?ss) = 0"
    by (simp_all add: connected_server_def socket_server_close_def send_request_def slot_at_def set_slot_def
        socket_server_create_def socket_null_def)
  let ?m = "close_message (slot_at 1 ?ss)"
  obtain ss2 where ss2: "poll_round quota_kernel EINTR (False, ?ss1) = Some (Some (SOCKET_CLOSE, ?m), False, ss2)"
    "so_type (slot_at 1 ss2) = SOCKET_TYPE_INVALID" "ss_checkctrl ss2" "ss_ctrl ss2 = []"
    using close_idle_round [of 1 ?ss1 7 quota_kernel EINTR False] f by auto
  let ?ss3 = "socket_server_close 7 1 ss2"
  have g: "so_type (slot_at 1 ?ss3) = SOCKET_TYPE_INVALID" "ss_checkctrl ?ss3" "ss_ctrl ?ss3 = [Req_K 1 False 7]"
    using ss2 by (simp_all add: socket_server_close_def send_request_def slot_at_def)
  from close_gone_round [OF g, of quota_kernel EINTR False] ss2 f g
  have "life_run quota_kernel EINTR ?calls (False, ?ss) =
     Some ([Returned 0, Carried (Req_K 1 False 7)] @ Reported SOCKET_CLOSE ?m #
         [Returned 0, Carried (Req_K 1 False 7)] @ [], False, ?ss3\<lparr>ss_ctrl := []\<rparr>)"
    by (simp add: carried_def)
  moreover have i: "msg_id ?m = 1" using f by (simp add: close_message_def)
  ultimately show ?thesis using socket_closed_once [OF _ ok, of quota_kernel EINTR ?calls False _ ?m] by auto
qed

lemma socket_types_follow_life_witness:
  "\<exists>r ss'. poll_round quota_kernel EINTR (False, socket_server_close 7 1 connected_server) = Some (r, False, ss')
    \<and> so_type (slot_at 1 ss') \<in> after SOCKET_TYPE_CONNECTED"
proof -
  let ?ss = "socket_server_close 7 1 connected_server"
  have f: "ss_ctrl ?ss = [Req_K 1 False 7]" "ss_checkctrl ?ss" "so_id (slot_at 1 ?ss) = 1"
    "so_type (slot_at 1 ?ss) = SOCKET_TYPE_CONNECTED" "so_high (slot_at 1 ?ss) = []" "so_low (slot_at 1 ?ss) = []"
    "so_dw_buffer (slot_at 1 ?ss) = None" "so_sending (slot_at 1 ?ss) = 0"
    by (simp_all add: connected_server_def socket_server_close_def send_request_def slot_at_def set_slot_def
        socket_server_create_def socket_null_def)
  from close_idle_round [OF f(3-8,2,1), of quota_kernel EINTR False] obtain r ss' where
    p: "poll_round quota_kernel EINTR (False, ?ss) = Some (r, False, ss')" "so_type (slot_at 1 ss') = SOCKET_TYPE_INVALID" by blast
  from socket_types_follow_life [OF p(1), rule_format, of "HASH_ID 1"] p(2) f(4)
  have "so_type (slot_at 1 ss') \<in> after SOCKET_TYPE_CONNECTED" by (simp add: slot_at_def)
  with p show ?thesis by auto
qed

end
