(* ===== verification/Hashid.thy ===== *)
theory Hashid
  imports Interfaces "HOL-Library.Signed_Division"
begin

text \<open>
  The table of connection ids (\<open>util/hashid.h\<close>): an array of nodes, each holding an fd or
  -1, and hash chains through the nodes' \<open>next\<close> pointers. A pointer to a node is its index
  in the array. Following a pointer out of the array or failing an assertion is \<open>None\<close>.
\<close>

section \<open>The table\<close>

record hashid_node =
  hn_id :: int
  hn_next :: "nat option"

record hashid =
  hi_hashmod :: int
  hi_cap :: int
  hi_count :: int
  hi_id :: "hashid_node list"
  hi_hash :: "nat option list"

function hashcap_loop :: "int \<Rightarrow> int \<Rightarrow> int" where
  "hashcap_loop hashcap mx =
     (if hashcap < mx \<and> 0 < hashcap then hashcap_loop (hashcap * 2) mx else hashcap)"
  by pat_completeness auto
termination by (relation "measure (\<lambda>(c, m). nat (m - c))") auto

declare hashcap_loop.simps [simp del]

definition hashid_init :: "int \<Rightarrow> hashid" where
  "hashid_init mx =
     (let hashcap = hashcap_loop 16 mx in
      \<lparr>hi_hashmod = hashcap - 1, hi_cap = mx, hi_count = 0,
       hi_id = replicate (nat mx) \<lparr>hn_id = -1, hn_next = None\<rparr>,
       hi_hash = replicate (nat hashcap) None\<rparr>)"

definition hashid_clear :: "hashid \<Rightarrow> hashid" where
  "hashid_clear hi = hi\<lparr>hi_id := [], hi_hash := [], hi_hashmod := 1, hi_cap := 0, hi_count := 0\<rparr>"

definition hash_of :: "hashid \<Rightarrow> int \<Rightarrow> nat" where
  "hash_of hi fd = nat (fd AND hi_hashmod hi)"

text \<open>Reading an array at an index the code does not check.\<close>

definition at :: "'a list \<Rightarrow> nat \<Rightarrow> 'a option" where
  "at xs i = (if i < length xs then Some (xs ! i) else None)"

partial_function (option) lookup_loop :: "hashid_node list \<Rightarrow> nat option \<Rightarrow> int \<Rightarrow> int option" where
  "lookup_loop ns c fd =
     (case c of
        None \<Rightarrow> Some (-1)
      | Some a \<Rightarrow> do {
          n \<leftarrow> at ns a;
          if hn_id n = fd then Some (int a) else lookup_loop ns (hn_next n) fd })"

definition hashid_lookup :: "hashid \<Rightarrow> int \<Rightarrow> int option" where
  "hashid_lookup hi fd = do {
     c \<leftarrow> at (hi_hash hi) (hash_of hi fd);
     lookup_loop (hi_id hi) c fd }"

text \<open>The loop of \<open>hashid_remove\<close>: the node before the one that holds the fd.\<close>

partial_function (option) remove_loop :: "hashid_node list \<Rightarrow> nat \<Rightarrow> int \<Rightarrow> nat option option" where
  "remove_loop ns c fd = do {
     n \<leftarrow> at ns c;
     case hn_next n of
       None \<Rightarrow> Some None
     | Some b \<Rightarrow> do {
         m \<leftarrow> at ns b;
         if hn_id m = fd then Some (Some c) else remove_loop ns b fd } }"

definition clear_node :: "nat \<Rightarrow> hashid \<Rightarrow> int \<times> hashid" where
  "clear_node c hi =
     (int c, hi\<lparr>hi_id := (hi_id hi)[c := \<lparr>hn_id = -1, hn_next = None\<rparr>], hi_count := hi_count hi - 1\<rparr>)"

definition hashid_remove :: "hashid \<Rightarrow> int \<Rightarrow> (int \<times> hashid) option" where
  "hashid_remove hi fd = do {
     let h = hash_of hi fd;
     p \<leftarrow> at (hi_hash hi) h;
     case p of
       None \<Rightarrow> Some (-1, hi)
     | Some c \<Rightarrow> do {
         n \<leftarrow> at (hi_id hi) c;
         if hn_id n = fd then Some (clear_node c (hi\<lparr>hi_hash := (hi_hash hi)[h := hn_next n]\<rparr>))
         else do {
           r \<leftarrow> remove_loop (hi_id hi) c fd;
           case r of
             None \<Rightarrow> Some (-1, hi)
           | Some c \<Rightarrow> do {
               n \<leftarrow> at (hi_id hi) c;
               t \<leftarrow> hn_next n;
               m \<leftarrow> at (hi_id hi) t;
               Some (clear_node t (hi\<lparr>hi_id := (hi_id hi)[c := n\<lparr>hn_next := hn_next m\<rparr>]\<rparr>)) } } } }"

text \<open>The loop of \<open>hashid_insert\<close> that looks for a free node from \<open>fd % cap\<close> on.\<close>

fun insert_loop :: "hashid_node list \<Rightarrow> int \<Rightarrow> int \<Rightarrow> nat \<Rightarrow> nat \<Rightarrow> nat option option" where
  "insert_loop ns cap fd i 0 = Some None"
| "insert_loop ns cap fd i (Suc k) =
     (let index = (int i + fd) smod cap in
      if index < 0 then None
      else do {
        n \<leftarrow> at ns (nat index);
        if hn_id n = -1 then Some (Some (nat index)) else insert_loop ns cap fd (Suc i) k })"

definition hashid_insert :: "hashid \<Rightarrow> int \<Rightarrow> (int \<times> hashid) option" where
  "hashid_insert hi fd = do {
     r \<leftarrow> insert_loop (hi_id hi) (hi_cap hi) fd 0 (nat (hi_cap hi));
     c \<leftarrow> r;
     n \<leftarrow> at (hi_id hi) c;
     if hn_next n \<noteq> None then None
     else do {
       let h = hash_of hi fd;
       p \<leftarrow> at (hi_hash hi) h;
       let n = (if p \<noteq> None then \<lparr>hn_id = fd, hn_next = p\<rparr> else \<lparr>hn_id = fd, hn_next = None\<rparr>);
       Some (int c, hi\<lparr>hi_count := hi_count hi + 1, hi_id := (hi_id hi)[c := n],
                       hi_hash := (hi_hash hi)[h := Some c]\<rparr>) } }"

definition hashid_full :: "hashid \<Rightarrow> bool" where
  "hashid_full hi \<longleftrightarrow> hi_count hi = hi_cap hi"

section \<open>Chains\<close>

fun hpath :: "hashid_node list \<Rightarrow> nat option \<Rightarrow> nat list \<Rightarrow> bool" where
  "hpath ns p [] \<longleftrightarrow> p = None"
| "hpath ns p (a # as) \<longleftrightarrow> p = Some a \<and> a < length ns \<and> hpath ns (hn_next (ns ! a)) as"

definition used :: "hashid \<Rightarrow> nat set" where
  "used hi = {a. a < length (hi_id hi) \<and> hn_id (hi_id hi ! a) \<noteq> -1}"

definition hashid_ok :: "hashid \<Rightarrow> bool" where
  "hashid_ok hi \<longleftrightarrow> 0 \<le> hi_hashmod hi \<and> length (hi_hash hi) = nat (hi_hashmod hi + 1)
     \<and> 0 \<le> hi_cap hi \<and> length (hi_id hi) = nat (hi_cap hi)
     \<and> (\<forall>h < length (hi_hash hi). \<exists>as. hpath (hi_id hi) (hi_hash hi ! h) as \<and> distinct as
          \<and> set as = {a \<in> used hi. hash_of hi (hn_id (hi_id hi ! a)) = h})
     \<and> (\<forall>a < length (hi_id hi). a \<notin> used hi \<longrightarrow> hn_next (hi_id hi ! a) = None)
     \<and> (\<forall>a \<in> used hi. \<forall>b \<in> used hi. hn_id (hi_id hi ! a) = hn_id (hi_id hi ! b) \<longrightarrow> a = b)
     \<and> hi_count hi = int (card (used hi))"

text \<open>The abstraction: where an id is.\<close>

definition slot_of :: "hashid \<Rightarrow> int \<Rightarrow> nat option" where
  "slot_of hi fd =
     find (\<lambda>a. hn_id (hi_id hi ! a) \<noteq> -1 \<and> hn_id (hi_id hi ! a) = fd) [0..<length (hi_id hi)]"

lemma hashid_okD:
  assumes "hashid_ok hi"
  shows "0 \<le> hi_hashmod hi" "length (hi_hash hi) = nat (hi_hashmod hi + 1)" "0 \<le> hi_cap hi"
    "length (hi_id hi) = nat (hi_cap hi)"
    "\<And>h. h < length (hi_hash hi) \<Longrightarrow> \<exists>as. hpath (hi_id hi) (hi_hash hi ! h) as \<and> distinct as
          \<and> set as = {a \<in> used hi. hash_of hi (hn_id (hi_id hi ! a)) = h}"
    "\<And>a. a < length (hi_id hi) \<Longrightarrow> a \<notin> used hi \<Longrightarrow> hn_next (hi_id hi ! a) = None"
    "\<And>a b. a \<in> used hi \<Longrightarrow> b \<in> used hi \<Longrightarrow> hn_id (hi_id hi ! a) = hn_id (hi_id hi ! b) \<Longrightarrow> a = b"
    "hi_count hi = int (card (used hi))"
  using assms unfolding hashid_ok_def by blast+

lemma slot_of_None:
  "slot_of hi fd = None \<longleftrightarrow> (\<forall>a \<in> used hi. hn_id (hi_id hi ! a) \<noteq> fd)"
  by (auto simp: slot_of_def find_None_iff used_def)

lemma slot_of_Some:
  assumes "hashid_ok hi"
  shows "slot_of hi fd = Some a \<longleftrightarrow> a \<in> used hi \<and> hn_id (hi_id hi ! a) = fd"
proof
  assume "slot_of hi fd = Some a"
  then show "a \<in> used hi \<and> hn_id (hi_id hi ! a) = fd"
    by (auto simp: slot_of_def find_Some_iff used_def)
next
  assume a: "a \<in> used hi \<and> hn_id (hi_id hi ! a) = fd"
  then obtain b where b: "slot_of hi fd = Some b" using slot_of_None [of hi fd] by auto
  then have "b \<in> used hi \<and> hn_id (hi_id hi ! b) = fd"
    by (auto simp: slot_of_def find_Some_iff used_def)
  with a b hashid_okD(7) [OF assms, of a b] show "slot_of hi fd = Some a" by simp
qed

lemma hash_of_less: "hashid_ok hi \<Longrightarrow> hash_of hi fd < length (hi_hash hi)"
proof -
  assume ok: "hashid_ok hi"
  have "fd AND hi_hashmod hi \<le> hi_hashmod hi" by (rule AND_upper2) (rule hashid_okD(1) [OF ok])
  then show ?thesis using hashid_okD(1,2) [OF ok] by (simp add: hash_of_def)
qed

lemma hpath_lookup:
  "hpath ns c as \<Longrightarrow> lookup_loop ns c fd =
     Some (case filter (\<lambda>a. hn_id (ns ! a) = fd) as of [] \<Rightarrow> -1 | a # _ \<Rightarrow> int a)"
proof (induction as arbitrary: c)
  case Nil
  then show ?case by (subst lookup_loop.simps) simp
next
  case (Cons a as)
  then show ?case by (subst lookup_loop.simps) (simp add: at_def)
qed

lemma hashid_lookup_slot:
  assumes ok: "hashid_ok hi" and fd: "fd \<noteq> -1"
  shows "hashid_lookup hi fd = Some (case slot_of hi fd of None \<Rightarrow> -1 | Some a \<Rightarrow> int a)"
proof -
  let ?h = "hash_of hi fd"
  from hashid_okD(5) [OF ok hash_of_less [OF ok, of fd]] obtain as where
    as: "hpath (hi_id hi) (hi_hash hi ! ?h) as" "distinct as"
      "set as = {a \<in> used hi. hash_of hi (hn_id (hi_id hi ! a)) = ?h}" by blast
  have look: "hashid_lookup hi fd =
      Some (case filter (\<lambda>a. hn_id (hi_id hi ! a) = fd) as of [] \<Rightarrow> -1 | a # _ \<Rightarrow> int a)"
    using hash_of_less [OF ok, of fd] hpath_lookup [OF as(1)] by (simp add: hashid_lookup_def at_def)
  show ?thesis
  proof (cases "slot_of hi fd")
    case None
    then have "filter (\<lambda>a. hn_id (hi_id hi ! a) = fd) as = []"
      using as(3) by (auto simp: slot_of_None filter_empty_conv)
    with look None show ?thesis by simp
  next
    case (Some a)
    then have a: "a \<in> set as" "hn_id (hi_id hi ! a) = fd" unfolding as(3) by (simp_all add: slot_of_Some [OF ok])
    have eq: "b = a" if "b \<in> set as" "hn_id (hi_id hi ! b) = fd" for b
      using that a as(3) hashid_okD(7) [OF ok, of b a] by simp
    show ?thesis
    proof (cases "filter (\<lambda>a. hn_id (hi_id hi ! a) = fd) as")
      case Nil
      with a show ?thesis by (auto simp: filter_empty_conv)
    next
      case (Cons b bs)
      then have "b \<in> set (filter (\<lambda>a. hn_id (hi_id hi ! a) = fd) as)" by simp
      then have "b = a" using eq [of b] by simp
      with look Some Cons show ?thesis by simp
    qed
  qed
qed

section \<open>Changing one chain\<close>

lemma hpath_cong:
  "hpath ns p as \<Longrightarrow> length ns' = length ns \<Longrightarrow> (\<And>a. a \<in> set as \<Longrightarrow> ns' ! a = ns ! a) \<Longrightarrow> hpath ns' p as"
  by (induction as arbitrary: p) auto

lemma upd_notin: "a \<in> set as \<Longrightarrow> c \<notin> set as \<Longrightarrow> xs[c := x] ! a = xs ! a"
  by (metis nth_list_update_neq)

lemma hpath_less: "hpath ns p as \<Longrightarrow> a \<in> set as \<Longrightarrow> a < length ns"
  by (induction as arbitrary: p) auto

lemma hash_of_cong: "hi_hashmod hi' = hi_hashmod hi \<Longrightarrow> hash_of hi' fd = hash_of hi fd"
  by (simp add: hash_of_def)

lemma hashid_ok_change:
  assumes ok: "hashid_ok hi"
    and same: "hi_hashmod hi' = hi_hashmod hi" "hi_cap hi' = hi_cap hi"
      "length (hi_id hi') = length (hi_id hi)" "length (hi_hash hi') = length (hi_hash hi)"
    and other: "\<And>h. h < length (hi_hash hi) \<Longrightarrow> h \<noteq> hh \<Longrightarrow> hi_hash hi' ! h = hi_hash hi ! h"
      "\<And>a. a \<in> used hi \<Longrightarrow> hash_of hi (hn_id (hi_id hi ! a)) \<noteq> hh \<Longrightarrow> hi_id hi' ! a = hi_id hi ! a"
      "\<And>a. a \<in> used hi' \<Longrightarrow> hash_of hi (hn_id (hi_id hi' ! a)) \<noteq> hh \<Longrightarrow>
         a \<in> used hi \<and> hash_of hi (hn_id (hi_id hi ! a)) \<noteq> hh"
    and path: "hpath (hi_id hi') (hi_hash hi' ! hh) as'" "distinct as'"
      "set as' = {a \<in> used hi'. hash_of hi (hn_id (hi_id hi' ! a)) = hh}"
    and free: "\<And>a. a < length (hi_id hi) \<Longrightarrow> a \<notin> used hi' \<Longrightarrow> hn_next (hi_id hi' ! a) = None"
    and inj: "\<And>a b. a \<in> used hi' \<Longrightarrow> b \<in> used hi' \<Longrightarrow> hn_id (hi_id hi' ! a) = hn_id (hi_id hi' ! b) \<Longrightarrow> a = b"
    and count: "hi_count hi' = int (card (used hi'))"
  shows "hashid_ok hi'"
proof -
  note D = hashid_okD [OF ok]
  have chain: "\<exists>as. hpath (hi_id hi') (hi_hash hi' ! h) as \<and> distinct as
      \<and> set as = {a \<in> used hi'. hash_of hi (hn_id (hi_id hi' ! a)) = h}" if h: "h < length (hi_hash hi)" for h
  proof (cases "h = hh")
    case True
    with path show ?thesis by blast
  next
    case False
    from D(5) [OF h] obtain as where as: "hpath (hi_id hi) (hi_hash hi ! h) as" "distinct as"
      "set as = {a \<in> used hi. hash_of hi (hn_id (hi_id hi ! a)) = h}" by blast
    have eq: "hi_id hi' ! a = hi_id hi ! a" if "a \<in> set as" for a
      using that as(3) other(2) [of a] False by simp
    have "hpath (hi_id hi') (hi_hash hi' ! h) as"
      unfolding other(1) [OF h False] by (rule hpath_cong [OF as(1) same(3) eq])
    moreover have "set as = {a \<in> used hi'. hash_of hi (hn_id (hi_id hi' ! a)) = h}"
    proof (rule set_eqI, rule iffI)
      fix a assume a: "a \<in> set as"
      then have "a \<in> used hi" "hash_of hi (hn_id (hi_id hi ! a)) = h" using as(3) by simp_all
      with eq [OF a] same(3) show "a \<in> {a \<in> used hi'. hash_of hi (hn_id (hi_id hi' ! a)) = h}"
        by (simp add: used_def)
    next
      fix a assume "a \<in> {a \<in> used hi'. hash_of hi (hn_id (hi_id hi' ! a)) = h}"
      then have a: "a \<in> used hi'" "hash_of hi (hn_id (hi_id hi' ! a)) = h" by auto
      with other(3) [of a] False have "a \<in> used hi" "hash_of hi (hn_id (hi_id hi ! a)) \<noteq> hh" by auto
      with other(2) [of a] a(2) show "a \<in> set as" using as(3) by simp
    qed
    ultimately show ?thesis using as(2) by blast
  qed
  have hash: "hash_of hi' fd = hash_of hi fd" for fd using same(1) by (rule hash_of_cong)
  show ?thesis
    unfolding hashid_ok_def hash same(1,2)
  proof (intro conjI)
    show "\<forall>h<length (hi_hash hi'). \<exists>as. hpath (hi_id hi') (hi_hash hi' ! h) as \<and> distinct as
        \<and> set as = {a \<in> used hi'. hash_of hi (hn_id (hi_id hi' ! a)) = h}"
      using chain same(4) by simp
    show "\<forall>a<length (hi_id hi'). a \<notin> used hi' \<longrightarrow> hn_next (hi_id hi' ! a) = None"
      using free same(3) by simp
    show "\<forall>a\<in>used hi'. \<forall>b\<in>used hi'. hn_id (hi_id hi' ! a) = hn_id (hi_id hi' ! b) \<longrightarrow> a = b"
      using inj by blast
  qed (use D same count in simp_all)
qed

section \<open>Insertion\<close>

lemma insert_loop_result:
  assumes "0 \<le> fd" "cap = int (length ns)" "0 < cap"
  shows "\<exists>r. insert_loop ns cap fd i k = Some r \<and>
    (case r of Some c \<Rightarrow> c < length ns \<and> hn_id (ns ! c) = -1
     | None \<Rightarrow> \<forall>j. i \<le> j \<and> j < i + k \<longrightarrow> hn_id (ns ! nat ((int j + fd) mod cap)) \<noteq> -1)"
proof (induction k arbitrary: i)
  case (Suc k)
  define index where "index = (int i + fd) mod cap"
  have smod: "(int i + fd) smod cap = index"
    using assms by (simp add: index_def signed_modulo_int_def sgn_if)
  have index: "0 \<le> index" "index < cap" using assms(3) by (simp_all add: index_def)
  then have at: "at ns (nat index) = Some (ns ! nat index)" using assms(2) by (simp add: at_def)
  have step: "insert_loop ns cap fd i (Suc k) =
      (if hn_id (ns ! nat index) = -1 then Some (Some (nat index)) else insert_loop ns cap fd (Suc i) k)"
    using index(1) at by (simp only: insert_loop.simps smod Let_def) simp
  show ?case
  proof (cases "hn_id (ns ! nat index) = -1")
    case True
    then show ?thesis unfolding step using index assms(2) by simp
  next
    case False
    from Suc.IH [of "Suc i"] obtain r where r: "insert_loop ns cap fd (Suc i) k = Some r"
      "case r of Some c \<Rightarrow> c < length ns \<and> hn_id (ns ! c) = -1
        | None \<Rightarrow> \<forall>j. Suc i \<le> j \<and> j < Suc i + k \<longrightarrow> hn_id (ns ! nat ((int j + fd) mod cap)) \<noteq> -1" by blast
    have "insert_loop ns cap fd i (Suc k) = Some r"
      using False r(1) unfolding step by simp
    moreover have "hn_id (ns ! nat ((int j + fd) mod cap)) \<noteq> -1"
      if "r = None" "i \<le> j" "j < i + Suc k" for j
      using that r(2) False by (cases "j = i") (simp_all add: index_def)
    ultimately show ?thesis using r(2) by (cases r) auto
  qed
qed simp

lemma used_subset: "used hi \<subseteq> {..<length (hi_id hi)}"
  by (auto simp: used_def)

lemma finite_used [simp]: "finite (used hi)"
  by (rule finite_subset [OF used_subset]) simp

lemma hashid_free_node:
  assumes ok: "hashid_ok hi" and room: "\<not> hashid_full hi"
  shows "\<exists>a < length (hi_id hi). a \<notin> used hi"
proof (rule ccontr)
  assume "\<not> ?thesis"
  then have "used hi = {..<length (hi_id hi)}" using used_subset [of hi] by auto
  then have "card (used hi) = length (hi_id hi)" by simp
  with hashid_okD(3,4,8) [OF ok] room show False by (simp add: hashid_full_def)
qed

lemma insert_loop_free:
  assumes ok: "hashid_ok hi" and fd: "0 \<le> fd" and room: "\<not> hashid_full hi"
  obtains c where "insert_loop (hi_id hi) (hi_cap hi) fd 0 (nat (hi_cap hi)) = Some (Some c)"
    "c < length (hi_id hi)" "c \<notin> used hi"
proof -
  from hashid_free_node [OF ok room] obtain a where a: "a < length (hi_id hi)" "a \<notin> used hi" by blast
  let ?cap = "hi_cap hi"
  have cap: "?cap = int (length (hi_id hi))" using hashid_okD(3,4) [OF ok] by simp
  with a(1) have pos: "0 < ?cap" by linarith
  from insert_loop_result [OF fd cap pos, of 0 "nat ?cap"] obtain r where
    r: "insert_loop (hi_id hi) ?cap fd 0 (nat ?cap) = Some r"
    "case r of Some c \<Rightarrow> c < length (hi_id hi) \<and> hn_id (hi_id hi ! c) = -1
     | None \<Rightarrow> \<forall>j. 0 \<le> j \<and> j < 0 + nat ?cap \<longrightarrow> hn_id (hi_id hi ! nat ((int j + fd) mod ?cap)) \<noteq> -1" by blast
  show ?thesis
  proof (cases r)
    case None
    define j where "j = nat ((int a - fd) mod ?cap)"
    have j: "int j = (int a - fd) mod ?cap" "j < nat ?cap" using pos by (simp_all add: j_def)
    have "(int j + fd) mod ?cap = int a mod ?cap"
      unfolding j(1) by (simp add: mod_add_left_eq)
    also have "\<dots> = int a" using a(1) cap by simp
    finally have "hn_id (hi_id hi ! a) \<noteq> -1" using r(2) None j(2) by force
    with a show ?thesis by (simp add: used_def)
  next
    case (Some c)
    with r that [of c] show ?thesis by (simp add: used_def)
  qed
qed

lemma hashid_insert_ok:
  assumes ok: "hashid_ok hi" and fd: "0 \<le> fd" and new: "slot_of hi fd = None" and room: "\<not> hashid_full hi"
  obtains c hi' where "hashid_insert hi fd = Some (int c, hi')" "hashid_ok hi'"
    "c < length (hi_id hi)" "c \<notin> used hi" "used hi' = insert c (used hi)"
    "slot_of hi' = (slot_of hi)(fd := Some c)" "hi_cap hi' = hi_cap hi"
proof -
  obtain c where c: "insert_loop (hi_id hi) (hi_cap hi) fd 0 (nat (hi_cap hi)) = Some (Some c)"
    "c < length (hi_id hi)" "c \<notin> used hi" by (rule insert_loop_free [OF ok fd room])
  let ?h = "hash_of hi fd"
  let ?n = "\<lparr>hn_id = fd, hn_next = hi_hash hi ! ?h\<rparr>"
  let ?hi = "hi\<lparr>hi_count := hi_count hi + 1, hi_id := (hi_id hi)[c := ?n], hi_hash := (hi_hash hi)[?h := Some c]\<rparr>"
  note D = hashid_okD [OF ok] and h = hash_of_less [OF ok, of fd]
  have run: "hashid_insert hi fd = Some (int c, ?hi)"
    using c D(6) [OF c(2,3)] h by (auto simp: hashid_insert_def at_def Let_def)
  have ids: "hi_id ?hi ! a = (if a = c then ?n else hi_id hi ! a)" for a using c(2) by (simp add: nth_list_update)
  have used: "used ?hi = insert c (used hi)"
    using c(2) fd by (auto simp: used_def nth_list_update split: if_splits)
  from D(5) [OF h] obtain as where as: "hpath (hi_id hi) (hi_hash hi ! ?h) as" "distinct as"
    "set as = {a \<in> used hi. hash_of hi (hn_id (hi_id hi ! a)) = ?h}" by blast
  have nofd: "hn_id (hi_id hi ! a) \<noteq> fd" if "a \<in> used hi" for a
    using new that by (simp add: slot_of_None)
  have cas: "c \<notin> set as" using as(3) c(3) by simp
  have "hpath (hi_id ?hi) (hi_hash hi ! ?h) as"
    by (rule hpath_cong [OF as(1)]) (use cas ids in auto)
  then have path: "hpath (hi_id ?hi) (hi_hash ?hi ! ?h) (c # as)" using h c(2) ids [of c] by simp
  have ok': "hashid_ok ?hi"
  proof (rule hashid_ok_change [OF ok, where hh = ?h and as' = "c # as"])
    show "hpath (hi_id ?hi) (hi_hash ?hi ! ?h) (c # as)" by (rule path)
    show "set (c # as) = {a \<in> used ?hi. hash_of hi (hn_id (hi_id ?hi ! a)) = ?h}"
      unfolding used ids using c(3) as(3) by auto
    show "a = b" if "a \<in> used ?hi" "b \<in> used ?hi" "hn_id (hi_id ?hi ! a) = hn_id (hi_id ?hi ! b)" for a b
      using that nofd D(7) [of a b] unfolding used ids by (auto split: if_splits)
    show "hn_next (hi_id ?hi ! a) = None" if "a < length (hi_id hi)" "a \<notin> used ?hi" for a
      using that D(6) [of a] unfolding used ids by auto
    show "hi_count ?hi = int (card (used ?hi))" unfolding used using c(3) D(8) by simp
    show "a \<in> used hi \<and> hash_of hi (hn_id (hi_id hi ! a)) \<noteq> ?h"
      if "a \<in> used ?hi" "hash_of hi (hn_id (hi_id ?hi ! a)) \<noteq> ?h" for a
      using that unfolding used ids by (auto split: if_splits)
    show "hi_id ?hi ! a = hi_id hi ! a" if "a \<in> used hi" for a using that c(3) unfolding ids by auto
  qed (use cas as(2) in simp_all)
  have "slot_of ?hi x = ((slot_of hi)(fd := Some c)) x" for x
  proof (cases "x = fd")
    case True
    have "slot_of ?hi fd = Some c" using slot_of_Some [OF ok'] used ids [of c] by simp
    with True show ?thesis by simp
  next
    case False
    have "slot_of ?hi x = Some a \<longleftrightarrow> slot_of hi x = Some a" for a
      unfolding slot_of_Some [OF ok'] slot_of_Some [OF ok] used ids using False c(3) by auto
    then have "slot_of ?hi x = slot_of hi x" by (rule option_eqI)
    with False show ?thesis by simp
  qed
  then have "slot_of ?hi = (slot_of hi)(fd := Some c)" by (rule ext)
  with run ok' c used show ?thesis by (intro that [of c ?hi]) simp_all
qed

section \<open>Removal\<close>

lemma remove_loop_result:
  "hpath ns (Some c) (c # as) \<Longrightarrow>
   \<exists>r. remove_loop ns c fd = Some r \<and>
     (case r of None \<Rightarrow> \<forall>b \<in> set as. hn_id (ns ! b) \<noteq> fd
      | Some y \<Rightarrow> \<exists>xs b zs. c # as = xs @ y # b # zs \<and> hn_id (ns ! b) = fd)"
proof (induction as arbitrary: c)
  case Nil
  then show ?case by (subst remove_loop.simps) (simp add: at_def)
next
  case (Cons b as)
  then have c: "c < length ns" "hn_next (ns ! c) = Some b" "b < length ns" and p: "hpath ns (Some b) (b # as)"
    by auto
  show ?case
  proof (cases "hn_id (ns ! b) = fd")
    case True
    then have "remove_loop ns c fd = Some (Some c)"
      using c by (subst remove_loop.simps) (simp add: at_def)
    moreover have "\<exists>xs d zs. c # b # as = xs @ c # d # zs \<and> hn_id (ns ! d) = fd"
      using True by (intro exI [of _ "[]"]) auto
    ultimately show ?thesis by simp
  next
    case False
    then have step: "remove_loop ns c fd = remove_loop ns b fd"
      using c by (subst remove_loop.simps) (simp add: at_def)
    from Cons.IH [OF p] obtain r where r: "remove_loop ns b fd = Some r"
      "case r of None \<Rightarrow> \<forall>b \<in> set as. hn_id (ns ! b) \<noteq> fd
       | Some y \<Rightarrow> \<exists>xs d zs. b # as = xs @ y # d # zs \<and> hn_id (ns ! d) = fd" by blast
    show ?thesis
    proof (cases r)
      case None
      with r False step show ?thesis by simp
    next
      case (Some y)
      with r obtain xs d zs where "b # as = xs @ y # d # zs" "hn_id (ns ! d) = fd" by auto
      then have "\<exists>xs d zs. c # b # as = xs @ y # d # zs \<and> hn_id (ns ! d) = fd"
        by (intro exI [of _ "c # xs"]) auto
      with r Some step show ?thesis by simp
    qed
  qed
qed

lemma hpath_next: "hpath ns p (xs @ y # b # zs) \<Longrightarrow> hn_next (ns ! y) = Some b"
  by (induction xs arbitrary: p) auto

lemma hpath_splice:
  "hpath ns p (xs @ y # b # zs) \<Longrightarrow> distinct (xs @ y # b # zs) \<Longrightarrow>
   hpath (ns[y := (ns ! y)\<lparr>hn_next := hn_next (ns ! b)\<rparr>]) p (xs @ y # zs)"
proof (induction xs arbitrary: p)
  case Nil
  then have zs: "hpath ns (hn_next (ns ! b)) zs" and y: "y < length ns" "p = Some y" and ny: "y \<notin> set zs"
    by auto
  let ?ns = "ns[y := (ns ! y)\<lparr>hn_next := hn_next (ns ! b)\<rparr>]"
  have "hpath ?ns (hn_next (ns ! b)) zs"
    by (rule hpath_cong [OF zs]) (simp_all add: upd_notin [OF _ ny])
  moreover have "hn_next (?ns ! y) = hn_next (ns ! b)" using y(1) by simp
  ultimately show ?case using y by (simp only: append_Nil hpath.simps length_list_update simp_thms)
qed auto

lemma hashid_ok_unlink:
  assumes ok: "hashid_ok hi" and h: "h = hash_of hi fd"
    and path: "hpath (hi_id hi) (hi_hash hi ! h) as" "distinct as"
      "set as = {a \<in> used hi. hash_of hi (hn_id (hi_id hi ! a)) = h}"
    and c: "c \<in> used hi" "hn_id (hi_id hi ! c) = fd"
    and hi': "hi_hashmod hi' = hi_hashmod hi" "hi_cap hi' = hi_cap hi" "hi_count hi' = hi_count hi - 1"
      "length (hi_id hi') = length (hi_id hi)" "length (hi_hash hi') = length (hi_hash hi)"
      "\<And>k. k < length (hi_hash hi) \<Longrightarrow> k \<noteq> h \<Longrightarrow> hi_hash hi' ! k = hi_hash hi ! k"
      "\<And>a. a < length (hi_id hi) \<Longrightarrow> hn_id (hi_id hi' ! a) = (if a = c then -1 else hn_id (hi_id hi ! a))"
      "\<And>a. a \<notin> set as \<Longrightarrow> hi_id hi' ! a = hi_id hi ! a" "hn_next (hi_id hi' ! c) = None"
    and path': "hpath (hi_id hi') (hi_hash hi' ! h) (filter (\<lambda>a. a \<noteq> c) as)"
  shows "hashid_ok hi'" "used hi' = used hi - {c}" "slot_of hi' = (slot_of hi)(fd := None)"
proof -
  note D = hashid_okD [OF ok]
  have clen: "c < length (hi_id hi)" using c(1) by (simp add: used_def)
  show used: "used hi' = used hi - {c}"
    using hi'(4,7) clen by (auto simp: used_def split: if_splits)
  have ids: "hn_id (hi_id hi' ! a) = hn_id (hi_id hi ! a)" if "a \<in> used hi'" for a
    using that hi'(7) [of a] by (simp add: used) (simp add: used_def)
  show ok': "hashid_ok hi'"
  proof (rule hashid_ok_change [OF ok, where hh = h and as' = "filter (\<lambda>a. a \<noteq> c) as"])
    show "set (filter (\<lambda>a. a \<noteq> c) as) = {a \<in> used hi'. hash_of hi (hn_id (hi_id hi' ! a)) = h}"
      using path(3) ids by (auto simp: used)
    show "hi_id hi' ! a = hi_id hi ! a" if "a \<in> used hi" "hash_of hi (hn_id (hi_id hi ! a)) \<noteq> h" for a
      using that path(3) by (intro hi'(8)) simp
    show "a \<in> used hi \<and> hash_of hi (hn_id (hi_id hi ! a)) \<noteq> h"
      if "a \<in> used hi'" "hash_of hi (hn_id (hi_id hi' ! a)) \<noteq> h" for a
      using that ids [OF that(1)] by (simp add: used)
    show "hn_next (hi_id hi' ! a) = None" if "a < length (hi_id hi)" "a \<notin> used hi'" for a
    proof (cases "a = c")
      case False
      with that have "a \<notin> used hi" by (simp add: used)
      moreover from this have "a \<notin> set as" using path(3) by simp
      ultimately show ?thesis using hi'(8) D(6) that(1) by simp
    qed (simp add: hi'(9))
    show "a = b" if "a \<in> used hi'" "b \<in> used hi'" "hn_id (hi_id hi' ! a) = hn_id (hi_id hi' ! b)" for a b
      using that ids D(7) [of a b] by (simp add: used)
    have "0 < card (used hi)" using c(1) by (auto simp: card_gt_0_iff)
    then show "hi_count hi' = int (card (used hi'))"
      using hi'(3) D(8) c(1) by (simp add: used card_Diff_singleton)
  qed (use hi' path path' in simp_all)
  show "slot_of hi' = (slot_of hi)(fd := None)"
  proof (rule ext, rule option_eqI)
    fix x a
    have "slot_of hi' x = Some a \<longleftrightarrow> a \<in> used hi \<and> a \<noteq> c \<and> hn_id (hi_id hi ! a) = x"
      unfolding slot_of_Some [OF ok'] used using ids [of a] by (auto simp: used)
    also have "\<dots> \<longleftrightarrow> ((slot_of hi)(fd := None)) x = Some a"
      using slot_of_Some [OF ok] D(7) [of a c] c by auto
    finally show "slot_of hi' x = Some a \<longleftrightarrow> ((slot_of hi)(fd := None)) x = Some a" .
  qed
qed

lemma hashid_remove_ok:
  assumes ok: "hashid_ok hi" and fd: "fd \<noteq> -1"
  obtains hi' where "hashid_remove hi fd = Some (case slot_of hi fd of None \<Rightarrow> -1 | Some a \<Rightarrow> int a, hi')"
    "hashid_ok hi'" "slot_of hi' = (slot_of hi)(fd := None)" "hi_cap hi' = hi_cap hi"
    "used hi' = used hi - set_option (slot_of hi fd)"
proof -
  define h where "h = hash_of hi fd"
  note D = hashid_okD [OF ok]
  have hlt: "h < length (hi_hash hi)" unfolding h_def by (rule hash_of_less [OF ok])
  from D(5) [OF hlt] obtain as where as: "hpath (hi_id hi) (hi_hash hi ! h) as" "distinct as"
    "set as = {a \<in> used hi. hash_of hi (hn_id (hi_id hi ! a)) = h}" by blast
  have in_as: "slot_of hi fd = Some a \<longleftrightarrow> a \<in> set as \<and> hn_id (hi_id hi ! a) = fd" for a
    unfolding slot_of_Some [OF ok] as(3) by (auto simp: h_def)
  have none: "slot_of hi fd = None" if "\<forall>b \<in> set as. hn_id (hi_id hi ! b) \<noteq> fd"
    using in_as that by (cases "slot_of hi fd") auto
  have upd_none: "(slot_of hi)(fd := None) = slot_of hi" if "slot_of hi fd = None"
    using that by (simp add: fun_upd_idem)
  show ?thesis
  proof (cases as)
    case Nil
    with as(1) hlt have "hashid_remove hi fd = Some (-1, hi)"
      by (simp add: hashid_remove_def at_def flip: h_def)
    with none Nil upd_none ok show ?thesis by (intro that [of hi]) auto
  next
    case (Cons c cs)
    with as(1) have c: "hi_hash hi ! h = Some c" "c < length (hi_id hi)"
      and cs: "hpath (hi_id hi) (hn_next (hi_id hi ! c)) cs" by auto
    show ?thesis
    proof (cases "hn_id (hi_id hi ! c) = fd")
      case True
      let ?hi = "hi\<lparr>hi_hash := (hi_hash hi)[h := hn_next (hi_id hi ! c)],
        hi_id := (hi_id hi)[c := \<lparr>hn_id = -1, hn_next = None\<rparr>], hi_count := hi_count hi - 1\<rparr>"
      have run: "hashid_remove hi fd = Some (int c, ?hi)"
        using c hlt True by (simp add: hashid_remove_def at_def clear_node_def flip: h_def)
      have ccs: "c \<notin> set cs" using as(2) Cons by simp
      then have filt: "filter (\<lambda>a. a \<noteq> c) as = cs" using Cons by (auto simp: filter_id_conv)
      have cu: "c \<in> used hi" using as(3) Cons by auto
      have "hpath (hi_id ?hi) (hn_next (hi_id hi ! c)) cs"
        by (rule hpath_cong [OF cs]) (use upd_notin [OF _ ccs] in simp_all)
      then have p': "hpath (hi_id ?hi) (hi_hash ?hi ! h) (filter (\<lambda>a. a \<noteq> c) as)"
        using hlt filt by simp
      have ca: "c \<in> set as" using Cons by simp
      note r = hashid_ok_unlink [OF ok h_def as cu True _ _ _ _ _ _ _ _ _ p']
      have "hashid_ok ?hi" "used ?hi = used hi - {c}" "slot_of ?hi = (slot_of hi)(fd := None)"
        by (rule r; use c ca in \<open>auto simp: nth_list_update\<close>)+
      moreover have "slot_of hi fd = Some c" using in_as ca True by simp
      ultimately show ?thesis using run by (intro that [of ?hi]) simp_all
    next
      case False
      from remove_loop_result [of "hi_id hi" c cs fd] as(1) Cons c(1) obtain r where
        r: "remove_loop (hi_id hi) c fd = Some r"
        "case r of None \<Rightarrow> \<forall>b \<in> set cs. hn_id (hi_id hi ! b) \<noteq> fd
         | Some y \<Rightarrow> \<exists>xs b zs. c # cs = xs @ y # b # zs \<and> hn_id (hi_id hi ! b) = fd" by auto
      show ?thesis
      proof (cases r)
        case None
        have "hashid_remove hi fd = Some (-1, hi)"
          using c hlt False r(1) None by (simp add: hashid_remove_def at_def flip: h_def)
        moreover have "slot_of hi fd = None" using none r(2) None Cons False by simp
        ultimately show ?thesis using upd_none ok by (intro that [of hi]) auto
      next
        case (Some y)
        with r(2) obtain xs b zs where b: "as = xs @ y # b # zs" "hn_id (hi_id hi ! b) = fd"
          using Cons by auto
        have yb: "y < length (hi_id hi)" "b < length (hi_id hi)" "y \<noteq> b"
          using hpath_less [OF as(1)] as(2) b(1) by auto
        have next_y: "hn_next (hi_id hi ! y) = Some b"
          using hpath_next as(1) unfolding b(1) .
        let ?n = "(hi_id hi ! y)\<lparr>hn_next := hn_next (hi_id hi ! b)\<rparr>"
        let ?ids = "(hi_id hi)[y := ?n]"
        let ?hi = "hi\<lparr>hi_id := ?ids[b := \<lparr>hn_id = -1, hn_next = None\<rparr>], hi_count := hi_count hi - 1\<rparr>"
        have run: "hashid_remove hi fd = Some (int b, ?hi)"
          using c hlt False r(1) Some next_y yb
          by (simp add: hashid_remove_def at_def clear_node_def flip: h_def)
        have filt: "filter (\<lambda>a. a \<noteq> b) as = xs @ y # zs"
        proof -
          have "filter (\<lambda>a. a \<noteq> b) xs = xs" "filter (\<lambda>a. a \<noteq> b) zs = zs"
            using as(2) unfolding b(1) by (auto intro!: filter_True)
          then show ?thesis using yb(3) by (simp add: b(1))
        qed
        have bu: "b \<in> used hi" and ba: "b \<in> set as" "y \<in> set as" using as(3) b(1) by auto
        have "hpath ?ids (hi_hash hi ! h) (xs @ y # zs)"
          using hpath_splice as(1,2) unfolding b(1) .
        note p1 = this
        have nb: "b \<notin> set (xs @ y # zs)" using as(2) b(1) by auto
        have "hpath (?ids[b := \<lparr>hn_id = -1, hn_next = None\<rparr>]) (hi_hash hi ! h) (xs @ y # zs)"
          by (rule hpath_cong [OF p1]) (rule length_list_update, rule upd_notin [OF _ nb])
        then have p': "hpath (hi_id ?hi) (hi_hash ?hi ! h) (filter (\<lambda>a. a \<noteq> b) as)"
          unfolding filt by simp
        note r = hashid_ok_unlink [OF ok h_def as bu b(2) _ _ _ _ _ _ _ _ _ p']
        have "hashid_ok ?hi" "used ?hi = used hi - {b}" "slot_of ?hi = (slot_of hi)(fd := None)"
          by (rule r; use yb ba in \<open>auto simp: nth_list_update\<close>)+
        moreover have "slot_of hi fd = Some b" using in_as ba b(2) by simp
        ultimately show ?thesis using run by (intro that [of ?hi]) simp_all
      qed
    qed
  qed
qed

section \<open>The table as an id table\<close>

lemma slot_of_finite: "hashid_ok hi \<Longrightarrow> finite (dom (slot_of hi)) \<and> card (dom (slot_of hi)) = card (used hi)"
proof -
  assume ok: "hashid_ok hi"
  have eq: "dom (slot_of hi) = (\<lambda>a. hn_id (hi_id hi ! a)) ` used hi"
    by (auto simp: slot_of_Some [OF ok] dom_def image_def)
  moreover have "inj_on (\<lambda>a. hn_id (hi_id hi ! a)) (used hi)"
    by (rule inj_onI) (rule hashid_okD(7) [OF ok])
  ultimately show ?thesis by (simp add: card_image)
qed

interpretation ids: id_table slot_of hashid_insert hashid_remove hashid_lookup hashid_full
  "\<lambda>hi. nat (hi_cap hi)" hashid_ok
proof
  fix t :: hashid and x y :: int and i :: nat
  assume ok: "hashid_ok t"
  show "x = y" if "slot_of t x = Some i" "slot_of t y = Some i"
    using that by (auto simp: slot_of_Some [OF ok])
  show "finite (dom (slot_of t))" using slot_of_finite [OF ok] by simp
  show "hashid_full t \<longleftrightarrow> card (dom (slot_of t)) = nat (hi_cap t)"
    using slot_of_finite [OF ok] hashid_okD(3,8) [OF ok] by (auto simp: hashid_full_def)
  show "\<exists>i t'. hashid_insert t x = Some (int i, t') \<and> hashid_ok t'
      \<and> slot_of t' = (slot_of t)(x := Some i) \<and> nat (hi_cap t') = nat (hi_cap t)"
    if "0 \<le> x" "slot_of t x = None" "\<not> hashid_full t"
    by (rule hashid_insert_ok [OF ok that]) auto
  show "\<exists>t'. hashid_remove t x = Some (case slot_of t x of None \<Rightarrow> -1 | Some i \<Rightarrow> int i, t')
      \<and> hashid_ok t' \<and> slot_of t' = (slot_of t)(x := None) \<and> nat (hi_cap t') = nat (hi_cap t)" if "0 \<le> x"
    by (rule hashid_remove_ok [OF ok, of x]) (use that in auto)
  show "hashid_lookup t x = Some (case slot_of t x of None \<Rightarrow> -1 | Some i \<Rightarrow> int i)" if "0 \<le> x"
    by (rule hashid_lookup_slot [OF ok]) (use that in simp)
qed

lemma hashcap_loop_ge: "0 < c \<Longrightarrow> c \<le> hashcap_loop c m \<and> m \<le> hashcap_loop c m"
proof (induction c m rule: hashcap_loop.induct)
  case (1 c m)
  show ?case
  proof (cases "c < m")
    case True
    with 1 show ?thesis by (subst (1 2) hashcap_loop.simps) auto
  next
    case False
    then show ?thesis by (subst (1 2) hashcap_loop.simps) auto
  qed
qed

lemma hashid_init_ok:
  assumes "0 \<le> m"
  shows "hashid_ok (hashid_init m)" "slot_of (hashid_init m) x = None" "hi_cap (hashid_init m) = m"
proof -
  have "16 \<le> hashcap_loop 16 m" using hashcap_loop_ge [of 16 m] by simp
  moreover have used: "used (hashid_init m) = {}" by (auto simp: used_def hashid_init_def Let_def)
  ultimately show "hashid_ok (hashid_init m)" "hi_cap (hashid_init m) = m"
    using assms unfolding hashid_ok_def used
    by (auto simp: hashid_init_def Let_def intro!: exI [of _ "[]"])
  show "slot_of (hashid_init m) x = None" using slot_of_None [of "hashid_init m" x] used by simp
qed

section \<open>Properties\<close>



end
