(* ===== verification/Databuffer.thy ===== *)
theory Databuffer
  imports Interfaces
begin

text \<open>
  The byte buffer of a connection (\<open>util/databuffer.h\<close>) and the packets in it: a packet is
  a four-byte length in the machine's byte order and that many bytes. Reading or copying
  outside the chunk is \<open>None\<close>. The bytes of the chunk behind \<open>ptr\<close> are uninitialised
  memory; 0 stands for them and no operation returns one.
\<close>

section \<open>The buffer\<close>

record databuffer =
  db_sz :: int
  db_ptr :: int
  db_chunk :: "byte list"

definition databuffer_create :: "int \<Rightarrow> databuffer" where
  "databuffer_create sz = \<lparr>db_sz = sz, db_ptr = 0, db_chunk = replicate (nat sz) 0\<rparr>"

text \<open>\<open>memcpy\<close> of \<open>sz\<close> bytes to the offset \<open>i\<close> of the chunk.\<close>

definition copy_to :: "byte list \<Rightarrow> int \<Rightarrow> byte list \<Rightarrow> int \<Rightarrow> byte list option" where
  "copy_to chunk i data sz =
     (if 0 \<le> sz \<and> 0 \<le> i \<and> sz \<le> int (length data) \<and> i + sz \<le> int (length chunk)
      then Some (take (nat i) chunk @ take (nat sz) data @ drop (nat (i + sz)) chunk)
      else None)"

definition databuffer_push :: "databuffer \<Rightarrow> byte list \<Rightarrow> int \<Rightarrow> (int \<times> databuffer) option" where
  "databuffer_push b data sz =
     (if db_ptr b + sz > db_sz b then Some (-1, b)
      else do {
        chunk \<leftarrow> copy_to (db_chunk b) (db_ptr b) data sz;
        Some (sz, b\<lparr>db_chunk := chunk, db_ptr := db_ptr b + sz\<rparr>) })"

text \<open>A pointer into the chunk is its offset.\<close>

definition databuffer_read :: "databuffer \<Rightarrow> int \<Rightarrow> int option" where
  "databuffer_read b ptr = (if db_ptr b \<le> ptr then None else Some ptr)"

function shift_down :: "int \<Rightarrow> int \<Rightarrow> int \<Rightarrow> byte list \<Rightarrow> byte list option" where
  "shift_down c ptr sz chunk =
     (if c < ptr then
        if 0 \<le> c \<and> 0 \<le> sz + c \<and> sz + c < int (length chunk) \<and> c < int (length chunk)
        then shift_down (c + 1) ptr sz (chunk[nat c := chunk ! nat (sz + c)])
        else None
      else Some chunk)"
  by pat_completeness auto
termination by (relation "measure (\<lambda>(c, ptr, _). nat (ptr - c))") auto

declare shift_down.simps [simp del]

definition databuffer_pop :: "databuffer \<Rightarrow> int \<Rightarrow> (int \<times> databuffer) option" where
  "databuffer_pop b sz =
     (if db_ptr b \<ge> sz then do {
        let ptr = db_ptr b - sz;
        chunk \<leftarrow> shift_down 0 ptr sz (db_chunk b);
        Some (ptr, b\<lparr>db_ptr := ptr, db_chunk := chunk\<rparr>) }
      else None)"

definition databuffer_isfull :: "databuffer \<Rightarrow> bool" where
  "databuffer_isfull b \<longleftrightarrow> db_ptr b \<ge> db_sz b"

definition databuffer_reset :: "databuffer \<Rightarrow> databuffer" where
  "databuffer_reset b = b\<lparr>db_ptr := 0\<rparr>"

section \<open>Packets\<close>

definition PACKHEAD :: int where "PACKHEAD = 4"

text \<open>The length of the next packet, or 0, and a pointer to its bytes.\<close>

definition databuffer_readpack :: "databuffer \<Rightarrow> int \<times> int option" where
  "databuffer_readpack b =
     (if db_ptr b < PACKHEAD then (0, None)
      else
        let sz = bytes_int (db_chunk b) in
        if sz > db_ptr b - PACKHEAD then (0, None)
        else (sz, databuffer_read b PACKHEAD))"

definition databuffer_freepack :: "databuffer \<Rightarrow> databuffer option" where
  "databuffer_freepack b = do {
     (_, b) \<leftarrow> databuffer_pop b (bytes_int (db_chunk b) + PACKHEAD);
     Some b }"

text \<open>
  What a service takes out of the buffer that frees every packet it has read, as the loops of the
  gate and the harbor do. A negative length is \<open>None\<close>; each service has its own answer to it.
\<close>

partial_function (option) read_packs :: "databuffer \<Rightarrow> (byte list list \<times> databuffer) option" where
  "read_packs b =
     (case databuffer_readpack b of
        (sz, data) \<Rightarrow>
          if sz = 0 then Some ([], b)
          else if sz < 0 then None
          else do {
            i \<leftarrow> data;
            b' \<leftarrow> databuffer_freepack b;
            (ps, b'') \<leftarrow> read_packs b';
            Some (take (nat sz) (drop (nat i) (db_chunk b)) # ps, b'') })"

section \<open>The contents\<close>

definition db_ok :: "databuffer \<Rightarrow> bool" where
  "db_ok b \<longleftrightarrow> 0 \<le> db_ptr b \<and> db_ptr b \<le> db_sz b \<and> int (length (db_chunk b)) = db_sz b"

definition db_contents :: "databuffer \<Rightarrow> byte list" where
  "db_contents b = take (nat (db_ptr b)) (db_chunk b)"

lemma db_okD [dest]:
  assumes "db_ok b"
  shows "0 \<le> db_ptr b" "db_ptr b \<le> db_sz b" "int (length (db_chunk b)) = db_sz b"
  using assms by (auto simp: db_ok_def)

lemma length_db_contents [simp]: "db_ok b \<Longrightarrow> int (length (db_contents b)) = db_ptr b"
  by (auto simp: db_contents_def db_ok_def min_def)

lemma databuffer_create_ok [simp]:
  "0 \<le> sz \<Longrightarrow> db_ok (databuffer_create sz)" "db_contents (databuffer_create sz) = []"
  by (simp_all add: databuffer_create_def db_ok_def db_contents_def)

lemma databuffer_push_ok:
  assumes ok: "db_ok b" and sz: "0 \<le> sz" "sz \<le> int (length data)"
  shows "databuffer_push b data sz =
      (if db_ptr b + sz > db_sz b then Some (-1, b)
       else Some (sz, b\<lparr>db_chunk := take (nat (db_ptr b)) (db_chunk b) @ take (nat sz) data
           @ drop (nat (db_ptr b + sz)) (db_chunk b), db_ptr := db_ptr b + sz\<rparr>))"
  using assms by (auto simp: databuffer_push_def copy_to_def)

lemma databuffer_push_contents:
  assumes ok: "db_ok b" and fits: "db_ptr b + int (length data) \<le> db_sz b"
  obtains b' where "databuffer_push b data (int (length data)) = Some (int (length data), b')" "db_ok b'"
    "db_contents b' = db_contents b @ data" "db_sz b' = db_sz b"
proof -
  let ?b = "b\<lparr>db_chunk := take (nat (db_ptr b)) (db_chunk b) @ data
      @ drop (nat (db_ptr b + int (length data))) (db_chunk b), db_ptr := db_ptr b + int (length data)\<rparr>"
  have "databuffer_push b data (int (length data)) = Some (int (length data), ?b)"
    using databuffer_push_ok [OF ok, of "int (length data)" data] fits by simp
  moreover have "db_ok ?b" using ok fits by (auto simp: db_ok_def nat_add_distrib)
  moreover have "db_contents ?b = db_contents b @ data"
    using ok by (auto simp: db_contents_def nat_add_distrib db_ok_def)
  ultimately show ?thesis by (intro that [of ?b]) simp_all
qed

text \<open>The loop of \<open>databuffer_pop\<close> moves every byte down, although source and target overlap.\<close>

lemma shift_down_result:
  "0 \<le> c \<Longrightarrow> c \<le> ptr \<Longrightarrow> 0 \<le> sz \<Longrightarrow> ptr + sz \<le> int (length chunk) \<Longrightarrow>
   \<exists>chunk'. shift_down c ptr sz chunk = Some chunk' \<and> length chunk' = length chunk
     \<and> (\<forall>i. int i < c \<longrightarrow> chunk' ! i = chunk ! i)
     \<and> (\<forall>i. c \<le> int i \<and> int i < ptr \<longrightarrow> chunk' ! i = chunk ! (i + nat sz))"
proof (induction c ptr sz chunk rule: shift_down.induct)
  case (1 c ptr sz chunk)
  show ?case
  proof (cases "c < ptr")
    case False
    with 1 show ?thesis by (subst shift_down.simps) auto
  next
    case True
    let ?chunk = "chunk[nat c := chunk ! nat (sz + c)]"
    have b: "0 \<le> c \<and> 0 \<le> sz + c \<and> sz + c < int (length chunk) \<and> c < int (length chunk)"
      using True 1 by auto
    have step: "shift_down c ptr sz chunk = shift_down (c + 1) ptr sz ?chunk"
      using True b by (subst shift_down.simps) simp
    from "1.IH" [OF True b] True 1 obtain chunk' where c': "shift_down (c + 1) ptr sz ?chunk = Some chunk'"
      "length chunk' = length chunk" "\<forall>i. int i < c + 1 \<longrightarrow> chunk' ! i = ?chunk ! i"
      "\<forall>i. c + 1 \<le> int i \<and> int i < ptr \<longrightarrow> chunk' ! i = ?chunk ! (i + nat sz)" by auto
    have "chunk' ! i = chunk ! i" if "int i < c" for i
      using c'(3) that by (auto simp: nth_list_update_neq)
    moreover have "chunk' ! i = chunk ! (i + nat sz)" if "c \<le> int i" "int i < ptr" for i
    proof (cases "int i = c")
      case True
      then have "nat c = i" "nat (sz + c) = i + nat sz" using 1 by auto
      with c'(3) b show ?thesis using True by simp
    next
      case False
      then have "chunk' ! i = ?chunk ! (i + nat sz)" using c'(4) that by auto
      moreover have "nat c < i" using False that "1.prems"(1) by (simp add: nat_less_iff)
      ultimately show ?thesis by (simp add: nth_list_update_neq)
    qed
    ultimately show ?thesis using step c' by auto
  qed
qed

lemma databuffer_pop_contents:
  assumes ok: "db_ok b" and sz: "0 \<le> sz" "sz \<le> db_ptr b"
  obtains b' where "databuffer_pop b sz = Some (db_ptr b - sz, b')" "db_ok b'"
    "db_contents b' = drop (nat sz) (db_contents b)" "db_sz b' = db_sz b"
proof -
  let ?ptr = "db_ptr b - sz"
  have p: "0 \<le> ?ptr" "?ptr + sz \<le> int (length (db_chunk b))" using ok sz by (auto simp: db_ok_def)
  from shift_down_result [of 0 ?ptr sz "db_chunk b"] p sz obtain chunk where
    c: "shift_down 0 ?ptr sz (db_chunk b) = Some chunk" "length chunk = length (db_chunk b)"
    "\<forall>i. 0 \<le> int i \<and> int i < ?ptr \<longrightarrow> chunk ! i = db_chunk b ! (i + nat sz)" by auto
  let ?b = "b\<lparr>db_ptr := ?ptr, db_chunk := chunk\<rparr>"
  have "databuffer_pop b sz = Some (?ptr, ?b)" using c sz by (simp add: databuffer_pop_def Let_def)
  moreover have "db_ok ?b" using ok p sz c(2) by (auto simp: db_ok_def)
  moreover have "db_contents ?b = drop (nat sz) (db_contents b)"
    by (rule nth_equalityI) (use ok sz c p in \<open>auto simp: db_contents_def add.commute\<close>)
  ultimately show ?thesis by (intro that [of ?b]) simp_all
qed

section \<open>Packets come out whole\<close>

definition packet_frame :: "byte list \<Rightarrow> byte list" where
  "packet_frame p = int_bytes (int (length p)) @ p"

definition packet_good :: "byte list \<Rightarrow> bool" where
  "packet_good p \<longleftrightarrow> 0 < length p \<and> int (length p) < 2 ^ 31"

lemma chunk_prefix:
  assumes "db_contents b = xs" "length xs \<ge> 4"
  shows "bytes_int (db_chunk b) = bytes_int xs"
proof -
  have "take 4 xs = take 4 (db_chunk b)" using assms by (auto simp: db_contents_def min_def split: if_splits)
  then show ?thesis by (simp add: bytes_int_def)
qed

lemma readpack_frame:
  assumes ok: "db_ok b" and g: "packet_good p" and c: "db_contents b = packet_frame p @ rest"
  shows "databuffer_readpack b = (int (length p), Some 4)"
    "take (length p) (drop 4 (db_chunk b)) = p"
    "\<exists>b'. databuffer_freepack b = Some b' \<and> db_ok b' \<and> db_contents b' = rest \<and> db_sz b' = db_sz b"
proof -
  have l: "db_ptr b = 4 + int (length p) + int (length rest)"
    using length_db_contents [OF ok] c by (simp add: packet_frame_def)
  have i: "bytes_int (db_chunk b) = int (length p)"
    using chunk_prefix [OF c] g by (simp add: packet_frame_def packet_good_def byte_simps)
  show "databuffer_readpack b = (int (length p), Some 4)"
    using l i g by (cases p) (auto simp: databuffer_readpack_def databuffer_read_def PACKHEAD_def packet_good_def Let_def)
  have "take (length p) (drop 4 (db_contents b)) = p" using c by (simp add: packet_frame_def)
  moreover have "take (length p) (drop 4 (db_contents b)) = take (length p) (drop 4 (db_chunk b))"
    using l by (simp add: db_contents_def drop_take min_def)
  ultimately show "take (length p) (drop 4 (db_chunk b)) = p" by simp
  obtain b' where "databuffer_pop b (int (length p) + 4) = Some (db_ptr b - (int (length p) + 4), b')"
    "db_ok b'" "db_contents b' = drop (nat (int (length p) + 4)) (db_contents b)" "db_sz b' = db_sz b"
    using databuffer_pop_contents [OF ok, of "int (length p) + 4"] l by auto
  moreover have "drop (nat (int (length p) + 4)) (db_contents b) = rest"
    using c by (simp add: packet_frame_def nat_add_distrib)
  ultimately show "\<exists>b'. databuffer_freepack b = Some b' \<and> db_ok b' \<and> db_contents b' = rest \<and> db_sz b' = db_sz b"
    using i by (simp add: databuffer_freepack_def PACKHEAD_def)
qed

lemma readpack_partial:
  assumes ok: "db_ok b" and c: "partial_frame packet_frame packet_good (db_contents b)"
  shows "fst (databuffer_readpack b) = 0"
proof (cases "db_ptr b < PACKHEAD")
  case False
  then obtain p ys where p: "packet_good p" "packet_frame p = db_contents b @ ys" "ys \<noteq> []"
    using c length_db_contents [OF ok] by (auto simp: partial_frame_def PACKHEAD_def)
  have four: "4 \<le> length (db_contents b)" using False length_db_contents [OF ok] by (simp add: PACKHEAD_def)
  have "bytes_int (db_chunk b) = bytes_int (db_contents b @ ys)"
    using chunk_prefix [OF refl four] four by (simp add: bytes_int_def)
  then have "bytes_int (db_chunk b) = int (length p)"
    using p(1) unfolding p(2) [symmetric] by (simp add: packet_frame_def packet_good_def byte_simps)
  moreover have "4 + length p = length (db_contents b) + length ys"
    using arg_cong [OF p(2), of length] by (simp add: packet_frame_def)
  ultimately show ?thesis using p(3) length_db_contents [OF ok]
    by (cases ys) (auto simp: databuffer_readpack_def PACKHEAD_def Let_def)
qed (simp add: databuffer_readpack_def)

lemma read_packs_frames:
  "db_ok b \<Longrightarrow> list_all packet_good ps \<Longrightarrow> db_contents b = frames packet_frame ps @ rest \<Longrightarrow>
   partial_frame packet_frame packet_good rest \<Longrightarrow>
   \<exists>b'. read_packs b = Some (ps, b') \<and> db_ok b' \<and> db_contents b' = rest \<and> db_sz b' = db_sz b"
proof (induction ps arbitrary: b)
  case Nil
  then have "fst (databuffer_readpack b) = 0" using readpack_partial by simp
  then show ?case using Nil by (subst read_packs.simps) (auto split: prod.splits)
next
  case (Cons p ps)
  have g: "packet_good p" and c: "db_contents b = packet_frame p @ frames packet_frame ps @ rest"
    using Cons.prems by simp_all
  note r = readpack_frame [OF Cons.prems(1) g c]
  from r(3) obtain b' where b': "databuffer_freepack b = Some b'" "db_ok b'"
    "db_contents b' = frames packet_frame ps @ rest" "db_sz b' = db_sz b" by blast
  from Cons.IH [OF b'(2) _ b'(3)] Cons.prems(2,4) obtain b'' where
    "read_packs b' = Some (ps, b'')" "db_ok b''" "db_contents b'' = rest" "db_sz b'' = db_sz b'" by auto
  with b' r(1,2) g show ?case by (subst read_packs.simps) (auto simp: packet_good_def)
qed

text \<open>Pushing a whole chunk, where \<open>None\<close> is also a buffer that is full.\<close>

definition push_chunk :: "byte list \<Rightarrow> databuffer \<Rightarrow> databuffer option" where
  "push_chunk c b = do {
     (ret, b) \<leftarrow> databuffer_push b c (int (length c));
     if ret < 0 then None else Some b }"

interpretation stream: packet_buffer db_contents "\<lambda>b. nat (db_sz b)" push_chunk read_packs
  packet_frame packet_good "\<lambda>p. p" db_ok
proof unfold_locales
  fix b and c :: "byte list" assume ok: "db_ok b" and l: "length (db_contents b) + length c \<le> nat (db_sz b)"
  have "db_ptr b + int (length c) \<le> db_sz b" using l length_db_contents [OF ok] ok by (auto simp: db_ok_def)
  then obtain b' where
    "databuffer_push b c (int (length c)) = Some (int (length c), b')" "db_ok b'"
    "db_contents b' = db_contents b @ c" "db_sz b' = db_sz b" using databuffer_push_contents [OF ok] by blast
  then show "\<exists>b'. push_chunk c b = Some b' \<and> db_ok b' \<and> db_contents b' = db_contents b @ c
      \<and> nat (db_sz b') = nat (db_sz b)" by (simp add: push_chunk_def)
next
  fix b ps rest assume "db_ok b" "list_all packet_good ps"
    "db_contents b = frames packet_frame ps @ rest" "partial_frame packet_frame packet_good rest"
  from read_packs_frames [OF this] show "\<exists>b'. read_packs b = Some (map (\<lambda>p. p) ps, b') \<and> db_ok b'
      \<and> db_contents b' = rest \<and> nat (db_sz b') = nat (db_sz b)" by auto
qed

lemma stream_delivers:
  assumes "list_all packet_good ps" "concat ds = frames packet_frame ps" "ds \<noteq> []" "0 \<le> sz"
    "\<forall>p \<in> set ps. \<forall>c \<in> set ds. length (packet_frame p) + length c \<le> nat sz"
    "\<forall>c \<in> set ds. length c \<le> nat sz"
  shows "\<exists>b. feed push_chunk read_packs ds (databuffer_create sz) = Some (ps, b)
    \<and> db_ptr b = 0 \<and> db_sz b = sz"
proof -
  have p: "\<forall>p qs. ps = p # qs \<longrightarrow> length (db_contents (databuffer_create sz)) < length (packet_frame p)"
    using assms(4) by (auto simp: packet_frame_def)
  have "\<exists>b. feed push_chunk read_packs ds (databuffer_create sz) = Some (ps, b) \<and> db_ok b \<and> db_contents b = []
      \<and> nat (db_sz b) = nat (db_sz (databuffer_create sz))"
    by (rule stream.feed_packets [simplified]) (use assms p in \<open>auto simp: partial_frame_def databuffer_create_def db_contents_def db_ok_def\<close>)
  then obtain b where b: "feed push_chunk read_packs ds (databuffer_create sz) = Some (ps, b)" "db_ok b"
    "db_contents b = []" "nat (db_sz b) = nat sz" by (auto simp: databuffer_create_def)
  have "db_ptr b = 0" using length_db_contents [OF b(2)] b(3) by simp
  moreover have "db_sz b = sz" using b(2,4) assms(4) db_okD [OF b(2)] by linarith
  ultimately show ?thesis using b(1) by blast
qed

section \<open>Properties\<close>

text \<open>However a stream of non-empty packets is cut into chunks, the buffer of a connection, read
  after every chunk, delivers every packet once, whole and in order, and is empty at the end, as long as
  a packet and a chunk together fit into it.\<close>

theorem stream_packets:
  assumes "list_all packet_good ps" "concat ds = frames packet_frame ps" "ds \<noteq> []" "0 \<le> sz"
    "\<forall>p \<in> set ps. \<forall>c \<in> set ds. length (packet_frame p) + length c \<le> nat sz"
    "\<forall>c \<in> set ds. length c \<le> nat sz"
  shows "\<exists>b. feed push_chunk read_packs ds (databuffer_create sz) = Some (ps, b)
    \<and> db_ptr b = 0 \<and> db_sz b = sz"
  using assms by (rule stream_delivers)

lemma stream_packets_witness:
  "\<exists>b. feed push_chunk read_packs [[2, 0], [0, 0, 7], [8, 1, 0, 0, 0, 9]] (databuffer_create 16)
    = Some ([[7, 8], [9]], b) \<and> db_ptr b = 0 \<and> db_sz b = 16"
  by (rule stream_packets; code_simp)

text \<open>A packet of length zero stops a connection for good: it is read as \<open>no packet yet\<close>, so it and
  everything behind it stay in the buffer, and every later push fails once the buffer is full.\<close>

theorem empty_packet_stalls:
  assumes "db_ok b" "db_contents b = packet_frame [] @ rest" "db_ptr b + int (length c) > db_sz b"
  shows "read_packs b = Some ([], b) \<and> push_chunk c b = None"
proof -
  have "bytes_int (db_chunk b) = 0"
    using chunk_prefix [OF assms(2)] by (simp add: packet_frame_def byte_simps)
  then have "fst (databuffer_readpack b) = 0" by (simp add: databuffer_readpack_def)
  then have "read_packs b = Some ([], b)"
    by (subst read_packs.simps) (auto split: prod.splits)
  then show ?thesis using assms(3) by (simp add: push_chunk_def databuffer_push_def)
qed

lemma empty_packet_stalls_witness:
  "let b = \<lparr>db_sz = 6, db_ptr = 5, db_chunk = [0, 0, 0, 0, 7, 0]\<rparr> in
    read_packs b = Some ([], b) \<and> push_chunk [1, 2] b = None"
  unfolding Let_def by (rule empty_packet_stalls [where rest = "[7]"]; code_simp)

end
