(* ===== verification/Gate.thy ===== *)
theory Gate
  imports Service_Api Hashid Databuffer
begin

text \<open>
  The gate service (\<open>service_gate.c\<close>): it accepts connections, cuts their streams into packets
  and forwards every packet to another service as a text message, and sends, kicks and connects
  on command. A handler returns the calls it makes and the new state of the gate. A
  \<open>gate_connection *\<close> is an index into \<open>conn\<close>; a pointer of a connection that has been freed
  or never set is \<open>None\<close>.
\<close>

section \<open>State\<close>

definition BACKLOG :: int where "BACKLOG = 32"
definition BUFFER_MAX :: int where "BUFFER_MAX = 20480"
definition MESSAGE_BUFFER_MAX :: int where "MESSAGE_BUFFER_MAX = 20496"

record gate_connection =
  gc_fd :: int
  gc_remote_name :: "byte list option"
  gc_buffer :: "databuffer option"

record gate =
  g_listen_fd :: int
  g_listen_port :: int
  g_connect_max :: int
  g_forward :: "byte list"
  g_hash :: hashid
  g_conn :: "gate_connection list"

section \<open>Messages to the forward service\<close>

definition forward_text :: "u32 \<Rightarrow> gate \<Rightarrow> gate_connection \<Rightarrow> byte list \<Rightarrow> call" where
  "forward_text handle g conn msg =
     Sendname (name_of (g_forward g)) handle (word_of_int (gc_fd conn)) SERVICE_TEXT msg"

definition gate_accept :: "u32 \<Rightarrow> gate \<Rightarrow> gate_connection \<Rightarrow> call list option" where
  "gate_accept handle g conn = do {
     name \<leftarrow> gc_remote_name conn;
     msg \<leftarrow> sprintf 64 (bytes_of ''connect|'' @ fmt_d (int (length name)) @ bytes_of ''|'' @ name);
     Some [forward_text handle g conn msg] }"

definition gate_close :: "u32 \<Rightarrow> gate \<Rightarrow> gate_connection \<Rightarrow> call list option" where
  "gate_close handle g conn = do {
     msg \<leftarrow> sprintf 16 (bytes_of ''disconnect|0|'');
     Some [forward_text handle g conn msg] }"

text \<open>
  The loop of \<open>gate_message\<close>, with the buffer of the connection. The message is put
  together in an array of \<open>MESSAGE_BUFFER_MAX\<close> bytes; the bytes of the packet are read
  from the chunk.
\<close>

partial_function (option) gate_message ::
  "u32 \<Rightarrow> gate \<Rightarrow> gate_connection \<Rightarrow> databuffer \<Rightarrow> (call list \<times> databuffer) option" where
  "gate_message handle g conn buffer =
     (case databuffer_readpack buffer of
        (sz, data) \<Rightarrow>
          if sz = 0 then Some ([], buffer)
          else if sz < 0 then
            Some ([log_error handle (bytes_of ''[gate]parse data error, fd='' @ fmt_d (gc_fd conn)
                     @ bytes_of '' size='' @ fmt_d sz),
                   Socket_close (gc_fd conn)], buffer)
          else do {
            let head = bytes_of ''forward|'' @ fmt_d sz @ bytes_of ''|'';
            i \<leftarrow> data;
            if int (length head) + sz > MESSAGE_BUFFER_MAX \<or> i + sz > int (length (db_chunk buffer)) then None
            else do {
              let msg = head @ take (nat sz) (drop (nat i) (db_chunk buffer));
              buffer' \<leftarrow> databuffer_freepack buffer;
              (calls, buffer'') \<leftarrow> gate_message handle g conn buffer';
              Some (forward_text handle g conn msg # calls, buffer'') } })"

section \<open>Commands\<close>

text \<open>The loop that looks for the bar behind the command.\<close>

definition command_end :: "byte list \<Rightarrow> nat" where
  "command_end msg = length (takeWhile (\<lambda>b. b \<noteq> 124) msg)"

text \<open>
  A command's bytes may be compared past the end of the literal. \<open>bar\<close> is the low byte of
  the address of the literal \<open>"|"\<close>, which the code passes to \<open>strchr\<close> for a character. The
  host is copied with a size of one byte less than it needs.
\<close>

definition gate_dispatch_connect :: "byte \<Rightarrow> byte list \<Rightarrow> nat \<Rightarrow> call list option" where
  "gate_dispatch_connect bar msg i = do {
     let param = drop (i + 1) msg;
     r \<leftarrow> strchr param bar;
     case r of
       None \<Rightarrow> Some []
     | Some p \<Rightarrow> do {
         let size = int (length param) - int p - 1;
         if size > 0 then do {
           port \<leftarrow> atoi param;
           n \<leftarrow> strlen_at (drop (p + 1) param);
           let addr = take (nat size - 1) (take n (drop (p + 1) param));
           Some [Socket_connect addr port] }
         else Some [] } }"

definition gate_dispatch_cmd :: "byte \<Rightarrow> u32 \<Rightarrow> int \<Rightarrow> byte list \<Rightarrow> call list option" where
  "gate_dispatch_cmd bar handle fd msg = do {
     let i = command_end msg;
     forward \<leftarrow> memcmp_eq msg (lit ''forward'') i;
     if forward then do {
       let size = int (length msg) - int i - 1;
       Some (if size > 0
             then [Socket_send fd (int_bytes size @ drop (i + 1) msg),
                   log_debug handle (bytes_of ''[gate]send data fd '' @ fmt_d fd
                     @ bytes_of '' size:'' @ fmt_d (size + 4))]
             else []) }
     else do {
       kick \<leftarrow> memcmp_eq msg (lit ''kick'') i;
       if kick then Some [Socket_close fd]
       else do {
         connect \<leftarrow> memcmp_eq msg (lit ''connect'') i;
         if connect then gate_dispatch_connect bar msg i else Some [] } } }"

section \<open>Socket messages\<close>

definition conn_at :: "gate \<Rightarrow> int \<Rightarrow> gate_connection option" where
  "conn_at g i = at (g_conn g) (nat i)"

definition set_conn :: "int \<Rightarrow> gate_connection \<Rightarrow> gate \<Rightarrow> gate" where
  "set_conn i c g = g\<lparr>g_conn := (g_conn g)[nat i := c]\<rparr>"

definition gate_on_data :: "u32 \<Rightarrow> skynet_socket_message \<Rightarrow> gate \<Rightarrow> (call list \<times> gate) option" where
  "gate_on_data handle m g = do {
     let log = log_debug handle (bytes_of ''[gate]recv data fd '' @ fmt_d (sm_id m)
                 @ bytes_of '' size:'' @ fmt_d (sm_ud m));
     i \<leftarrow> hashid_lookup (g_hash g) (sm_id m);
     if i \<ge> 0 then do {
       c \<leftarrow> conn_at g i;
       b \<leftarrow> gc_buffer c;
       d \<leftarrow> sm_buffer m;
       (r, b) \<leftarrow> databuffer_push b d (sm_ud m);
       if r \<le> 0 then
         Some ([log,
                log_error handle (bytes_of ''[gate]connection recv data too long fd='' @ fmt_d (sm_id m)
                  @ bytes_of '' size='' @ fmt_d (sm_ud m)),
                Socket_close (sm_id m)], set_conn i (c\<lparr>gc_buffer := Some b\<rparr>) g)
       else do {
         (calls, b) \<leftarrow> gate_message handle g c b;
         Some (log # calls, set_conn i (c\<lparr>gc_buffer := Some b\<rparr>) g) } }
     else
       Some ([log,
              log_error handle (bytes_of ''[gate]recv unknown connection data fd='' @ fmt_d (sm_id m)
                @ bytes_of '' size='' @ fmt_d (sm_ud m)),
              Socket_close (sm_id m)], g) }"

definition gate_on_accept :: "u32 \<Rightarrow> skynet_socket_message \<Rightarrow> gate \<Rightarrow> (call list \<times> gate) option" where
  "gate_on_accept handle m g =
     (if g_listen_fd g \<noteq> sm_id m then None
      else if hashid_full (g_hash g) then
        Some ([log_error handle (bytes_of ''[gate]full on accepting, alloc:'' @ fmt_d (g_connect_max g)
                 @ bytes_of '', accepted:'' @ fmt_d (hi_count (g_hash g))
                 @ bytes_of '', close socket:'' @ fmt_d (sm_ud m)),
               Socket_close (sm_ud m)], g)
      else do {
        (i, hash) \<leftarrow> hashid_insert (g_hash g) (sm_ud m);
        let g = g\<lparr>g_hash := hash\<rparr>;
        _ \<leftarrow> conn_at g i;
        let name = cstr (sm_tail m);
        let c = \<lparr>gc_fd = sm_ud m, gc_remote_name = Some name,
                 gc_buffer = Some (databuffer_create BUFFER_MAX)\<rparr>;
        calls \<leftarrow> gate_accept handle g c;
        Some (calls @ [Socket_start (sm_ud m),
                       log_debug handle (bytes_of ''[gate]accept fd='' @ fmt_d (sm_ud m)
                         @ bytes_of '' addr='' @ name)],
              set_conn i c g) })"

definition gate_on_close :: "u32 \<Rightarrow> skynet_socket_message \<Rightarrow> gate \<Rightarrow> (call list \<times> gate) option" where
  "gate_on_close handle m g = do {
     let log = log_debug handle (bytes_of ''[gate]close or error '' @ fmt_d (sm_type m)
                 @ bytes_of '' fd '' @ fmt_d (sm_id m));
     (i, hash) \<leftarrow> hashid_remove (g_hash g) (sm_id m);
     let g = g\<lparr>g_hash := hash\<rparr>;
     if i \<ge> 0 then do {
       c \<leftarrow> conn_at g i;
       calls \<leftarrow> gate_close handle g c;
       _ \<leftarrow> gc_remote_name c;
       _ \<leftarrow> gc_buffer c;
       Some (log # calls, set_conn i \<lparr>gc_fd = -1, gc_remote_name = None, gc_buffer = None\<rparr> g) }
     else Some ([log], g) }"

definition gate_on_connect :: "u32 \<Rightarrow> skynet_socket_message \<Rightarrow> gate \<Rightarrow> call list option" where
  "gate_on_connect handle m g =
     (if sm_id m = g_listen_fd g then Some []
      else do {
        i \<leftarrow> hashid_lookup (g_hash g) (sm_id m);
        Some (if i \<le> 0
              then [log_error handle (bytes_of ''[gate]connected unknown connection '' @ fmt_d (sm_id m)
                      @ bytes_of '' message''),
                    Socket_close (sm_id m)]
              else []) })"

definition gate_dispatch_socket_message ::
  "u32 \<Rightarrow> skynet_socket_message \<Rightarrow> gate \<Rightarrow> (call list \<times> gate) option" where
  "gate_dispatch_socket_message handle m g =
     (if sm_type m = SKYNET_SOCKET_TYPE_DATA then gate_on_data handle m g
      else if sm_type m = SKYNET_SOCKET_TYPE_ACCEPT then gate_on_accept handle m g
      else if sm_type m = SKYNET_SOCKET_TYPE_CLOSE \<or> sm_type m = SKYNET_SOCKET_TYPE_ERROR
        then gate_on_close handle m g
      else if sm_type m = SKYNET_SOCKET_TYPE_CONNECT
        then map_option (\<lambda>calls. (calls, g)) (gate_on_connect handle m g)
      else if sm_type m = SKYNET_SOCKET_TYPE_WARNING
        then Some ([log_warn handle (bytes_of ''[gate]fd ('' @ fmt_d (sm_id m)
               @ bytes_of '') send buffer ('' @ fmt_d (sm_ud m) @ bytes_of '')K'')], g)
      else Some ([log_error handle (bytes_of ''[gate]recv error message type '' @ fmt_d (sm_type m))], g))"

section \<open>The service\<close>

text \<open>
  \<open>sscanf (args, "%[^','],%d,%d")\<close> must find the three fields, or the code goes on with
  uninitialised ones. \<open>listen\<close> is the answer of the socket server.
\<close>

definition gate_create ::
  "(byte list \<Rightarrow> int \<Rightarrow> int \<Rightarrow> int) \<Rightarrow> u32 \<Rightarrow> byte list \<Rightarrow> (int \<times> call list \<times> gate option) option" where
  "gate_create listen handle args = do {
     (forward, r) \<leftarrow> scan_field 64 args;
     r \<leftarrow> scan_comma r;
     (port, r) \<leftarrow> scan_int r;
     r \<leftarrow> scan_comma r;
     (mx, r) \<leftarrow> scan_int r;
     let host = bytes_of ''0.0.0.0'';
     let fd = listen host port BACKLOG;
     if fd < 0 then Some (1, [Socket_listen host port BACKLOG], None)
     else if mx < 0 then None
     else Some
       (0, [Socket_listen host port BACKLOG,
            log_notice handle (bytes_of ''[gate]listen port:'' @ fmt_d port @ bytes_of '' fd:'' @ fmt_d fd),
            Socket_start fd],
        Some \<lparr>g_listen_fd = fd, g_listen_port = port, g_connect_max = mx, g_forward = forward,
              g_hash = hashid_init mx,
              g_conn = replicate (nat mx) \<lparr>gc_fd = -1, gc_remote_name = None, gc_buffer = None\<rparr>\<rparr>) }"

definition gate_release :: "gate \<Rightarrow> call list" where
  "gate_release g =
     map (\<lambda>c. Socket_close (gc_fd c)) (filter (\<lambda>c. gc_fd c \<ge> 0) (g_conn g))
     @ (if g_listen_fd g \<ge> 0 then [Socket_close (g_listen_fd g)] else [])"

definition gate_callback ::
  "byte \<Rightarrow> u32 \<Rightarrow> skynet_message \<Rightarrow> gate \<Rightarrow> (call list \<times> gate) option" where
  "gate_callback bar handle msg g =
     (if m_type msg = SERVICE_SOCKET then
        (case m_data msg of
           Some (Socket m) \<Rightarrow> gate_dispatch_socket_message handle m g
         | _ \<Rightarrow> None)
      else if m_type msg = SERVICE_TEXT then
        (case m_data msg of
           Some (Bytes bs) \<Rightarrow>
             map_option (\<lambda>calls. (calls, g))
               (gate_dispatch_cmd bar handle (sint (m_session msg)) (take (m_size msg) bs))
         | None \<Rightarrow> if m_size msg = 0
             then map_option (\<lambda>calls. (calls, g)) (gate_dispatch_cmd bar handle (sint (m_session msg)) [])
             else None
         | _ \<Rightarrow> None)
      else Some ([], g))"

section \<open>The loop over the packets\<close>

definition buffer_ok :: "databuffer \<Rightarrow> bool" where
  "buffer_ok b \<longleftrightarrow> db_ok b \<and> db_sz b = BUFFER_MAX"

text \<open>What \<open>databuffer_readpack\<close> tells about a well-formed buffer.\<close>

lemma readpack_cases:
  assumes ok: "db_ok b"
  obtains (none) i where "databuffer_readpack b = (0, i)"
  | (bad) sz i where "databuffer_readpack b = (sz, i)" "sz < 0"
  | (pack) sz where "databuffer_readpack b = (sz, Some 4)" "0 < sz" "sz + 4 \<le> db_ptr b"
      "bytes_int (db_chunk b) = sz"
proof -
  let ?sz = "bytes_int (db_chunk b)"
  show ?thesis
  proof (cases "db_ptr b < 4 \<or> ?sz > db_ptr b - 4")
    case True
    then show ?thesis using none [of None] by (auto simp: databuffer_readpack_def PACKHEAD_def Let_def)
  next
    case False
    then have r: "databuffer_readpack b = (?sz, databuffer_read b 4)"
      by (simp add: databuffer_readpack_def PACKHEAD_def Let_def)
    consider "?sz = 0" | "?sz < 0" | "0 < ?sz" by linarith
    then show ?thesis
    proof cases
      case 3
      then show ?thesis using pack r False by (simp add: databuffer_read_def)
    qed (use r none bad in simp_all)
  qed
qed

lemma freepack_ok:
  assumes "db_ok b" "0 \<le> bytes_int (db_chunk b)" "bytes_int (db_chunk b) + 4 \<le> db_ptr b"
  obtains b' where "databuffer_freepack b = Some b'" "db_ok b'" "db_sz b' = db_sz b"
    "db_ptr b' = db_ptr b - (bytes_int (db_chunk b) + 4)"
    "db_contents b' = drop (nat (bytes_int (db_chunk b) + 4)) (db_contents b)"
proof -
  obtain b' where b': "databuffer_pop b (bytes_int (db_chunk b) + 4) = Some (db_ptr b - (bytes_int (db_chunk b) + 4), b')"
    "db_ok b'" "db_contents b' = drop (nat (bytes_int (db_chunk b) + 4)) (db_contents b)" "db_sz b' = db_sz b"
    using databuffer_pop_contents [OF assms(1), of "bytes_int (db_chunk b) + 4"] assms(2,3) by auto
  moreover have "db_ptr b' = db_ptr b - (bytes_int (db_chunk b) + 4)"
    using length_db_contents [OF b'(2)] length_db_contents [OF assms(1)] assms(2,3) b'(3) by simp
  ultimately show ?thesis using that by (simp add: databuffer_freepack_def PACKHEAD_def)
qed

text \<open>The array of \<open>gate_message\<close> holds the longest packet of a buffer with its head.\<close>

lemma message_fits:
  assumes "0 < sz" "sz + 4 \<le> BUFFER_MAX"
  shows "int (length (bytes_of ''forward|'' @ fmt_d sz @ bytes_of ''|'')) + sz \<le> MESSAGE_BUFFER_MAX"
proof -
  have "length (fmt_d sz) \<le> 5" using assms by (intro length_fmt_d) (simp_all add: BUFFER_MAX_def)
  then show ?thesis using assms by (simp add: BUFFER_MAX_def MESSAGE_BUFFER_MAX_def)
qed

lemma gate_message_ok:
  "buffer_ok b \<Longrightarrow> \<exists>calls b'. gate_message handle g conn b = Some (calls, b') \<and> buffer_ok b'"
proof (induction "nat (db_ptr b)" arbitrary: b rule: less_induct)
  case less
  then have ok: "db_ok b" "db_sz b = BUFFER_MAX" by (simp_all add: buffer_ok_def)
  show ?case using ok(1)
  proof (cases rule: readpack_cases)
    case (pack sz)
    then obtain b' where b': "databuffer_freepack b = Some b'" "db_ok b'" "db_sz b' = db_sz b"
      "db_ptr b' = db_ptr b - (sz + 4)" using freepack_ok [OF ok(1)] by auto
    with less.hyps [of b'] ok pack obtain calls b'' where
      "gate_message handle g conn b' = Some (calls, b'')" "buffer_ok b''" by (auto simp: buffer_ok_def)
    with b' pack ok message_fits [of sz] db_okD [OF ok(1)] show ?thesis
      by (subst gate_message.simps) (auto simp: Let_def)
  qed (use less.prems in \<open>subst gate_message.simps, auto\<close>)+
qed

text \<open>On whole packets the loop hands on exactly what \<open>read_packs\<close> takes out.\<close>

definition packet_call :: "u32 \<Rightarrow> gate \<Rightarrow> gate_connection \<Rightarrow> byte list \<Rightarrow> call" where
  "packet_call handle g conn p =
     forward_text handle g conn (bytes_of ''forward|'' @ fmt_d (int (length p)) @ bytes_of ''|'' @ p)"

lemma gate_message_packs:
  "buffer_ok b \<Longrightarrow> read_packs b = Some (ps, b') \<Longrightarrow>
   gate_message handle g conn b = Some (map (packet_call handle g conn) ps, b') \<and> buffer_ok b'"
proof (induction ps arbitrary: b)
  case Nil
  then have ok: "db_ok b" by (simp add: buffer_ok_def)
  have "fst (databuffer_readpack b) = 0 \<and> b' = b" using ok
  proof (cases rule: readpack_cases)
    case (pack sz)
    with Nil.prems(2) show ?thesis by (simp add: read_packs.simps [of b] bind_eq_Some_conv split: prod.splits)
  qed (use Nil.prems(2) in \<open>simp_all add: read_packs.simps [of b]\<close>)
  with Nil.prems(1) show ?case by (subst gate_message.simps) (auto split: prod.splits)
next
  case (Cons p ps)
  then have ok: "db_ok b" "db_sz b = BUFFER_MAX" by (simp_all add: buffer_ok_def)
  from ok(1) show ?case
  proof (cases rule: readpack_cases)
    case (pack sz)
    from pack Cons.prems(2) obtain b1 where b1: "databuffer_freepack b = Some b1" "read_packs b1 = Some (ps, b')"
      "p = take (nat sz) (drop 4 (db_chunk b))" by (auto simp: read_packs.simps [of b] bind_eq_Some_conv)
    moreover have "db_ok b1" "db_sz b1 = db_sz b" using freepack_ok [OF ok(1)] pack b1(1) by auto
    ultimately have "gate_message handle g conn b1 = Some (map (packet_call handle g conn) ps, b') \<and> buffer_ok b'"
      using Cons.IH ok by (simp add: buffer_ok_def)
    moreover have "int (length p) = sz" using b1(3) pack db_okD [OF ok(1)] by simp
    ultimately show ?thesis using pack b1 ok message_fits [of sz] db_okD [OF ok(1)]
      by (subst gate_message.simps) (auto simp: Let_def packet_call_def)
  qed (use Cons.prems in \<open>auto simp: read_packs.simps [of b]\<close>)
qed

section \<open>The invariant\<close>

definition conn_ok :: "int \<Rightarrow> gate_connection \<Rightarrow> bool" where
  "conn_ok fd c \<longleftrightarrow> 0 \<le> fd \<and> gc_fd c = fd \<and> gc_remote_name c \<noteq> None
     \<and> (case gc_buffer c of Some b \<Rightarrow> buffer_ok b | None \<Rightarrow> False)"

definition gate_ok :: "gate \<Rightarrow> bool" where
  "gate_ok g \<longleftrightarrow> hashid_ok (g_hash g) \<and> length (g_conn g) = nat (hi_cap (g_hash g))
     \<and> (\<forall>fd i. slot_of (g_hash g) fd = Some i \<longrightarrow> i < length (g_conn g) \<and> conn_ok fd (g_conn g ! i))
     \<and> (\<forall>i < length (g_conn g). (\<forall>fd. slot_of (g_hash g) fd \<noteq> Some i) \<longrightarrow> gc_fd (g_conn g ! i) = -1)"

text \<open>
  The messages the socket server sends: the id of a message is an open socket, the data it points to
  are there, and an accepted socket is new and announced with the name of an address, at most 52
  bytes (an IPv6 address has at most 45, the port and its colon 6).
\<close>

definition message_ok :: "gate \<Rightarrow> skynet_socket_message \<Rightarrow> bool" where
  "message_ok g m \<longleftrightarrow> 0 \<le> sm_id m
     \<and> (sm_type m = SKYNET_SOCKET_TYPE_DATA \<longrightarrow>
          (case sm_buffer m of Some d \<Rightarrow> 0 \<le> sm_ud m \<and> sm_ud m \<le> int (length d) | None \<Rightarrow> False))
     \<and> (sm_type m = SKYNET_SOCKET_TYPE_ACCEPT \<longrightarrow>
          sm_id m = g_listen_fd g \<and> 0 \<le> sm_ud m \<and> slot_of (g_hash g) (sm_ud m) = None
          \<and> length (sm_tail m) \<le> 52)"

lemma gate_okD:
  assumes "gate_ok g"
  shows "hashid_ok (g_hash g)" "length (g_conn g) = nat (hi_cap (g_hash g))"
    "slot_of (g_hash g) fd = Some i \<Longrightarrow> i < length (g_conn g)"
    "slot_of (g_hash g) fd = Some i \<Longrightarrow> conn_ok fd (g_conn g ! i)"
    "i < length (g_conn g) \<Longrightarrow> (\<And>fd. slot_of (g_hash g) fd \<noteq> Some i) \<Longrightarrow> gc_fd (g_conn g ! i) = -1"
  using assms unfolding gate_ok_def by blast+

lemma conn_okE:
  assumes "conn_ok fd c"
  obtains n b where "0 \<le> fd" "gc_fd c = fd" "gc_remote_name c = Some n" "gc_buffer c = Some b" "buffer_ok b"
  using assms by (auto simp: conn_ok_def split: option.splits)

text \<open>A slot whose connection changes together with its entry in the table.\<close>

lemma gate_ok_change:
  assumes ok: "gate_ok g" and h: "hashid_ok hash" "hi_cap hash = hi_cap (g_hash g)"
    and others: "\<And>fd j. j \<noteq> i \<Longrightarrow> slot_of hash fd = Some j \<longleftrightarrow> slot_of (g_hash g) fd = Some j"
    and own: "\<And>fd. slot_of hash fd = Some i \<Longrightarrow> conn_ok fd c"
    and free: "(\<And>fd. slot_of hash fd \<noteq> Some i) \<Longrightarrow> gc_fd c = -1"
    and i: "i < length (g_conn g)"
  shows "gate_ok (set_conn (int i) c (g\<lparr>g_hash := hash\<rparr>))"
proof -
  note D = gate_okD [OF ok]
  have "j < length (g_conn g) \<and> conn_ok fd ((g_conn g)[i := c] ! j)" if "slot_of hash fd = Some j" for fd j
    using that own [of fd] others [of j fd] D(3,4) [of fd j] i by (cases "j = i") simp_all
  moreover have "gc_fd ((g_conn g)[i := c] ! j) = -1" if "j < length (g_conn g)" "\<And>fd. slot_of hash fd \<noteq> Some j" for j
  proof (cases "j = i")
    case True
    with free that i show ?thesis by simp
  next
    case False
    with others that D(5) [of j] show ?thesis by simp
  qed
  ultimately show ?thesis using h D(2) by (simp add: gate_ok_def set_conn_def)
qed

lemma gate_lookup:
  assumes "gate_ok g" "0 \<le> fd"
  shows "hashid_lookup (g_hash g) fd = Some (case slot_of (g_hash g) fd of None \<Rightarrow> -1 | Some i \<Rightarrow> int i)"
  using hashid_lookup_slot [OF gate_okD(1) [OF assms(1)], of fd] assms(2) by simp

lemma set_conn_ok:
  assumes ok: "gate_ok g" and i: "slot_of (g_hash g) fd = Some i" and c: "conn_ok fd c"
  shows "gate_ok (set_conn (int i) c g)"
proof -
  have "gate_ok (set_conn (int i) c (g\<lparr>g_hash := g_hash g\<rparr>))"
  proof (rule gate_ok_change [OF ok gate_okD(1) [OF ok] refl refl])
    show "conn_ok x c" if "slot_of (g_hash g) x = Some i" for x
      using c ids.find_inj [OF gate_okD(1) [OF ok] that i] by simp
  qed (use i gate_okD(3) [OF ok i] in simp_all)
  then show ?thesis by simp
qed

lemma gate_on_data_ok:
  assumes ok: "gate_ok g" and m: "message_ok g m" "sm_type m = SKYNET_SOCKET_TYPE_DATA"
  shows "\<exists>calls g'. gate_on_data handle m g = Some (calls, g') \<and> gate_ok g'"
proof -
  from m obtain d where d: "sm_buffer m = Some d" "0 \<le> sm_ud m" "sm_ud m \<le> int (length d)"
    by (auto simp: message_ok_def split: option.splits)
  have id: "0 \<le> sm_id m" using m by (simp add: message_ok_def)
  note l = gate_lookup [OF ok id]
  show ?thesis
  proof (cases "slot_of (g_hash g) (sm_id m)")
    case None
    then show ?thesis using l ok by (simp add: gate_on_data_def)
  next
    case (Some i)
    note D = gate_okD(3) [OF ok Some] gate_okD(4) [OF ok Some]
    from D(2) obtain n b where b: "gc_buffer (g_conn g ! i) = Some b" "buffer_ok b" and
      c: "0 \<le> sm_id m" "gc_fd (g_conn g ! i) = sm_id m" "gc_remote_name (g_conn g ! i) = Some n"
      by (rule conn_okE)
    have push: "\<exists>r b'. databuffer_push b d (sm_ud m) = Some (r, b') \<and> buffer_ok b'"
      using databuffer_push_ok [of b "sm_ud m" d] b(2) d
      by (auto simp: buffer_ok_def db_ok_def nat_add_distrib)
    then obtain r b' where r: "databuffer_push b d (sm_ud m) = Some (r, b')" "buffer_ok b'" by blast
    obtain calls b'' where msg: "gate_message handle g (g_conn g ! i) b' = Some (calls, b'')" "buffer_ok b''"
      using gate_message_ok [OF r(2)] by blast
    have "gate_ok (set_conn (int i) ((g_conn g ! i)\<lparr>gc_buffer := Some x\<rparr>) g)" if "buffer_ok x" for x
      by (rule set_conn_ok [OF ok Some]) (use that c in \<open>simp add: conn_ok_def\<close>)
    then show ?thesis using l Some b d r msg D(1) by (simp add: gate_on_data_def conn_at_def at_def Let_def)
  qed
qed

lemma gate_on_close_ok:
  assumes ok: "gate_ok g" and id: "0 \<le> sm_id m"
  shows "\<exists>calls g'. gate_on_close handle m g = Some (calls, g') \<and> gate_ok g'"
proof -
  note D = gate_okD [OF ok]
  have ne: "sm_id m \<noteq> -1" using id by simp
  obtain hash where
    h: "hashid_remove (g_hash g) (sm_id m) = Some (case slot_of (g_hash g) (sm_id m) of None \<Rightarrow> -1 | Some a \<Rightarrow> int a, hash)"
    "hashid_ok hash" "slot_of hash = (slot_of (g_hash g))(sm_id m := None)" "hi_cap hash = hi_cap (g_hash g)"
    using hashid_remove_ok [OF D(1) ne] by blast
  show ?thesis
  proof (cases "slot_of (g_hash g) (sm_id m)")
    case None
    then have "slot_of hash = slot_of (g_hash g)" using h(3) by (metis fun_upd_triv)
    then have "gate_ok (g\<lparr>g_hash := hash\<rparr>)" using h(2,4) ok unfolding gate_ok_def by simp metis
    with None h(1) show ?thesis by (simp add: gate_on_close_def)
  next
    case (Some i)
    from D(4) [OF Some] obtain n b where c: "gc_remote_name (g_conn g ! i) = Some n"
      "gc_buffer (g_conn g ! i) = Some b" by (rule conn_okE)
    have i: "i < length (g_conn g)" by (rule D(3) [OF Some])
    have inj: "slot_of (g_hash g) x \<noteq> Some i" if "x \<noteq> sm_id m" for x
      using ids.find_inj [OF D(1) _ Some, of x] that by blast
    have "gate_ok (set_conn (int i) \<lparr>gc_fd = -1, gc_remote_name = None, gc_buffer = None\<rparr> (g\<lparr>g_hash := hash\<rparr>))"
      by (rule gate_ok_change [OF ok h(2,4)]) (use h(3) Some inj i in \<open>auto split: if_splits\<close>)
    then show ?thesis using h(1) Some c i
      by (simp add: gate_on_close_def gate_close_def conn_at_def at_def sprintf_def Let_def)
  qed
qed

lemma gate_on_accept_new:
  assumes ok: "gate_ok g" and m: "message_ok g m" "sm_type m = SKYNET_SOCKET_TYPE_ACCEPT"
    and room: "\<not> hashid_full (g_hash g)"
  obtains i c hash log where
    "gate_on_accept handle m g = Some
       ([forward_text handle g c (bytes_of ''connect|'' @ fmt_d (int (length (cstr (sm_tail m)))) @ bytes_of ''|'' @ cstr (sm_tail m)),
         Socket_start (sm_ud m), log_debug handle log], set_conn (int i) c (g\<lparr>g_hash := hash\<rparr>))"
    "gate_ok (set_conn (int i) c (g\<lparr>g_hash := hash\<rparr>))" "slot_of hash (sm_ud m) = Some i" "i < length (g_conn g)"
    "gc_fd c = sm_ud m" "gc_buffer c = Some (databuffer_create BUFFER_MAX)"
proof -
  note D = gate_okD [OF ok]
  from m have n: "sm_id m = g_listen_fd g" "0 \<le> sm_ud m" "slot_of (g_hash g) (sm_ud m) = None" "length (sm_tail m) \<le> 52"
    by (auto simp: message_ok_def)
  from hashid_insert_ok [OF D(1) n(2,3) room] obtain i hash where
    h: "hashid_insert (g_hash g) (sm_ud m) = Some (int i, hash)" "hashid_ok hash"
    "i < length (hi_id (g_hash g))" "slot_of hash = (slot_of (g_hash g))(sm_ud m := Some i)"
    "hi_cap hash = hi_cap (g_hash g)" by blast
  have i: "i < length (g_conn g)" using h(3) D(1,2) by (simp add: hashid_okD)
  let ?name = "cstr (sm_tail m)"
  let ?c = "\<lparr>gc_fd = sm_ud m, gc_remote_name = Some ?name, gc_buffer = Some (databuffer_create BUFFER_MAX)\<rparr>"
  have nm: "length ?name \<le> 52" unfolding cstr_def using length_takeWhile_le n(4) by (rule order.trans)
  have "length (fmt_d (int (length ?name))) \<le> 2" using nm by (intro length_fmt_d) simp_all
  then have acc: "gate_accept handle x ?c = Some [forward_text handle x ?c
      (bytes_of ''connect|'' @ fmt_d (int (length ?name)) @ bytes_of ''|'' @ ?name)]" for x
    using nm by (simp add: gate_accept_def sprintf_def)
  have inj: "x = sm_ud m" if "slot_of hash x = Some i" for x
    using ids.find_inj [OF h(2) that, of "sm_ud m"] h(4) by simp
  have "gate_ok (set_conn (int i) ?c (g\<lparr>g_hash := hash\<rparr>))"
  proof (rule gate_ok_change [OF ok h(2,5) _ _ _ i])
    show "slot_of hash fd = Some j \<longleftrightarrow> slot_of (g_hash g) fd = Some j" if "j \<noteq> i" for fd j
      using h(4) n(3) that by auto
    show "conn_ok fd ?c" if "slot_of hash fd = Some i" for fd
      using inj [OF that] n(2) by (simp add: conn_ok_def buffer_ok_def databuffer_create_def db_ok_def BUFFER_MAX_def)
    show "gc_fd ?c = -1" if "\<And>fd. slot_of hash fd \<noteq> Some i" using that [of "sm_ud m"] h(4) by simp
  qed
  moreover have "gate_on_accept handle m g = Some
       ([forward_text handle g ?c (bytes_of ''connect|'' @ fmt_d (int (length ?name)) @ bytes_of ''|'' @ ?name),
         Socket_start (sm_ud m),
         log_debug handle (bytes_of ''[gate]accept fd='' @ fmt_d (sm_ud m) @ bytes_of '' addr='' @ ?name)],
        set_conn (int i) ?c (g\<lparr>g_hash := hash\<rparr>))"
    using room n h(1) i acc by (simp add: gate_on_accept_def conn_at_def at_def Let_def forward_text_def)
  ultimately show ?thesis using that h(4) i by simp
qed

lemma gate_on_accept_ok:
  assumes ok: "gate_ok g" and m: "message_ok g m" "sm_type m = SKYNET_SOCKET_TYPE_ACCEPT"
  shows "\<exists>calls g'. gate_on_accept handle m g = Some (calls, g') \<and> gate_ok g'"
proof (cases "hashid_full (g_hash g)")
  case True
  with m ok show ?thesis by (auto simp: gate_on_accept_def message_ok_def)
next
  case False
  show ?thesis by (rule gate_on_accept_new [OF assms False, of handle]) blast
qed

lemma gate_dispatch_ok:
  assumes "gate_ok g" "message_ok g m"
  shows "\<exists>calls g'. gate_dispatch_socket_message handle m g = Some (calls, g') \<and> gate_ok g'"
proof -
  have id: "0 \<le> sm_id m" using assms(2) by (simp add: message_ok_def)
  have "\<exists>calls. gate_on_connect handle m g = Some calls"
    using gate_lookup [OF assms(1) id] by (simp add: gate_on_connect_def)
  then show ?thesis
    using assms gate_on_data_ok [OF assms] gate_on_accept_ok [OF assms] gate_on_close_ok [OF assms(1) id]
    unfolding gate_dispatch_socket_message_def by auto
qed

lemma gate_create_ok:
  assumes "gate_create listen handle args = Some (r, calls, Some g)"
  shows "gate_ok g" "slot_of (g_hash g) fd = None"
proof -
  from assms obtain mx where "\<not> mx < 0" and mx: "g_hash g = hashid_init mx"
    "g_conn g = replicate (nat mx) \<lparr>gc_fd = -1, gc_remote_name = None, gc_buffer = None\<rparr>"
    by (auto simp: gate_create_def Let_def bind_eq_Some_conv split: if_splits)
  then have "0 \<le> mx" by simp
  with mx show "gate_ok g" "slot_of (g_hash g) fd = None"
    using hashid_init_ok [of mx] by (simp_all add: gate_ok_def)
qed

section \<open>Runs\<close>

fun gate_run :: "u32 \<Rightarrow> skynet_socket_message list \<Rightarrow> gate \<Rightarrow> (call list \<times> gate) option" where
  "gate_run handle [] g = Some ([], g)"
| "gate_run handle (m # ms) g = do {
     (c1, g) \<leftarrow> gate_dispatch_socket_message handle m g;
     (c2, g) \<leftarrow> gate_run handle ms g;
     Some (c1 @ c2, g) }"

fun messages_ok :: "u32 \<Rightarrow> skynet_socket_message list \<Rightarrow> gate \<Rightarrow> bool" where
  "messages_ok handle [] g = True"
| "messages_ok handle (m # ms) g = (message_ok g m
     \<and> (case gate_dispatch_socket_message handle m g of
          Some (_, g') \<Rightarrow> messages_ok handle ms g' | None \<Rightarrow> True))"

lemma messages_ok_any: "(\<And>m g. m \<in> set ms \<Longrightarrow> message_ok g m) \<Longrightarrow> messages_ok handle ms g"
  by (induction ms arbitrary: g) (auto split: option.splits)

lemma gate_run_ok:
  "gate_ok g \<Longrightarrow> messages_ok handle ms g \<Longrightarrow> \<exists>calls g'. gate_run handle ms g = Some (calls, g') \<and> gate_ok g'"
proof (induction ms arbitrary: g)
  case (Cons m ms)
  then obtain calls g' where "gate_dispatch_socket_message handle m g = Some (calls, g')" "gate_ok g'"
    using gate_dispatch_ok [of g m handle] by auto
  with Cons.IH [of g'] Cons.prems show ?case by auto
qed simp

definition data_message :: "int \<Rightarrow> byte list \<Rightarrow> skynet_socket_message" where
  "data_message fd d = \<lparr>sm_type = SKYNET_SOCKET_TYPE_DATA, sm_id = fd, sm_ud = int (length d),
     sm_buffer = Some d, sm_tail = []\<rparr>"

fun is_send :: "call \<Rightarrow> bool" where
  "is_send (Sendname n src ses t d) = True"
| "is_send _ = False"

lemma packet_calls_send [simp]: "filter is_send (map (packet_call handle g c) ps) = map (packet_call handle g c) ps"
  by (induction ps) (simp_all add: packet_call_def forward_text_def)

lemma packet_call_cong [simp]:
  "packet_call handle (set_conn i c g) = packet_call handle g"
  "packet_call handle g (c\<lparr>gc_buffer := b\<rparr>) = packet_call handle g c"
  by (rule ext, simp_all add: packet_call_def forward_text_def set_conn_def fun_eq_iff)

text \<open>One chunk of a connection's stream, then all of them.\<close>

lemma gate_on_chunk:
  assumes ok: "gate_ok g" and i: "slot_of (g_hash g) fd = Some i" and b: "gc_buffer (g_conn g ! i) = Some b"
    and push: "push_chunk d b = Some b1" and d: "d \<noteq> []" and packs: "read_packs b1 = Some (ps, b2)"
  obtains calls where
    "gate_dispatch_socket_message handle (data_message fd d) g =
       Some (calls, set_conn (int i) ((g_conn g ! i)\<lparr>gc_buffer := Some b2\<rparr>) g)"
    "filter is_send calls = map (packet_call handle g (g_conn g ! i)) ps"
    "gate_ok (set_conn (int i) ((g_conn g ! i)\<lparr>gc_buffer := Some b2\<rparr>) g)"
proof -
  from gate_okD(4) [OF ok i] obtain n where c: "0 \<le> fd" "gc_fd (g_conn g ! i) = fd"
    "gc_remote_name (g_conn g ! i) = Some n" "buffer_ok b" using b by (elim conn_okE) simp
  have lt: "i < length (g_conn g)" by (rule gate_okD(3) [OF ok i])
  from push obtain r where r: "databuffer_push b d (int (length d)) = Some (r, b1)" "0 \<le> r"
    by (auto simp: push_chunk_def bind_eq_Some_conv split: if_splits)
  then have "r = int (length d)" and b1: "buffer_ok b1"
    using databuffer_push_ok [of b "int (length d)" d] c(4) d
    by (auto simp: buffer_ok_def db_ok_def nat_add_distrib split: if_splits)
  then have pos: "0 < r" using d by simp
  note m = gate_message_packs [OF b1 packs, of handle g "g_conn g ! i"]
  have "gate_ok (set_conn (int i) ((g_conn g ! i)\<lparr>gc_buffer := Some b2\<rparr>) g)"
    by (rule set_conn_ok [OF ok i]) (use c m in \<open>simp add: conn_ok_def\<close>)
  with that show ?thesis using gate_lookup [OF ok c(1)] i b lt r pos m
    by (simp add: gate_dispatch_socket_message_def data_message_def gate_on_data_def conn_at_def at_def Let_def)
qed

lemma gate_run_stream:
  "gate_ok g \<Longrightarrow> slot_of (g_hash g) fd = Some i \<Longrightarrow> gc_buffer (g_conn g ! i) = Some b \<Longrightarrow>
   feed push_chunk read_packs ds b = Some (ps, b') \<Longrightarrow> [] \<notin> set ds \<Longrightarrow>
   \<exists>calls g'. gate_run handle (map (data_message fd) ds) g = Some (calls, g')
     \<and> filter is_send calls = map (packet_call handle g (g_conn g ! i)) ps \<and> gate_ok g'"
proof (induction ds arbitrary: g b ps)
  case (Cons d ds)
  from Cons.prems(4) obtain b1 qs b2 rs where f: "push_chunk d b = Some b1" "read_packs b1 = Some (qs, b2)"
    "feed push_chunk read_packs ds b2 = Some (rs, b')" "ps = qs @ rs" by (auto simp: bind_eq_Some_conv)
  from Cons.prems(5) have "d \<noteq> []" by auto
  from gate_on_chunk [OF Cons.prems(1-3) f(1) this f(2)] obtain calls where
    c: "gate_dispatch_socket_message handle (data_message fd d) g =
       Some (calls, set_conn (int i) ((g_conn g ! i)\<lparr>gc_buffer := Some b2\<rparr>) g)"
    "filter is_send calls = map (packet_call handle g (g_conn g ! i)) qs"
    "gate_ok (set_conn (int i) ((g_conn g ! i)\<lparr>gc_buffer := Some b2\<rparr>) g)" by blast
  let ?g = "set_conn (int i) ((g_conn g ! i)\<lparr>gc_buffer := Some b2\<rparr>) g"
  have i: "i < length (g_conn g)" by (rule gate_okD(3) [OF Cons.prems(1,2)])
  have "slot_of (g_hash ?g) fd = Some i" "gc_buffer (g_conn ?g ! i) = Some b2"
    using Cons.prems(2) i by (simp_all add: set_conn_def)
  from Cons.IH [OF c(3) this f(3)] Cons.prems(5) obtain calls' g' where
    "gate_run handle (map (data_message fd) ds) ?g = Some (calls', g')"
    "filter is_send calls' = map (packet_call handle ?g (g_conn ?g ! i)) rs" "gate_ok g'" by auto
  moreover have "g_conn ?g ! i = (g_conn g ! i)\<lparr>gc_buffer := Some b2\<rparr>" using i by (simp add: set_conn_def)
  ultimately show ?case using c f(4) by simp
qed simp

section \<open>Properties\<close>

text \<open>A gate with room for two connections, and a connection that is accepted and closed.\<close>

definition two_conns :: "(int \<times> call list \<times> gate option) option" where
  "two_conns = gate_create (\<lambda>_ _ _. 3) 0x102 (bytes_of ''fw,80,2'')"

definition accept_message :: "int \<Rightarrow> int \<Rightarrow> skynet_socket_message" where
  "accept_message l fd = \<lparr>sm_type = SKYNET_SOCKET_TYPE_ACCEPT, sm_id = l, sm_ud = fd, sm_buffer = None,
     sm_tail = bytes_of ''1.2.3.4:5''\<rparr>"

definition event_message :: "int \<Rightarrow> int \<Rightarrow> skynet_socket_message" where
  "event_message t fd = \<lparr>sm_type = t, sm_id = fd, sm_ud = 0, sm_buffer = None, sm_tail = []\<rparr>"





text \<open>The gate closes the connection that has the first slot as soon as the socket server reports that
  the socket has started: the handler takes slot 0 for an unknown connection.\<close>

theorem gate_closes_first_slot:
  assumes "sm_type m = SKYNET_SOCKET_TYPE_CONNECT" "sm_id m \<noteq> g_listen_fd g"
    "hashid_lookup (g_hash g) (sm_id m) = Some 0"
  shows "\<exists>calls. gate_dispatch_socket_message handle m g = Some (calls, g) \<and> Socket_close (sm_id m) \<in> set calls"
  using assms by (simp add: gate_dispatch_socket_message_def gate_on_connect_def SKYNET_SOCKET_TYPE_CONNECT_def
      SKYNET_SOCKET_TYPE_DATA_def SKYNET_SOCKET_TYPE_ACCEPT_def SKYNET_SOCKET_TYPE_CLOSE_def SKYNET_SOCKET_TYPE_ERROR_def)

lemma gate_closes_first_slot_witness:
  "\<exists>hash calls. hashid_insert (hashid_init 2) 4 = Some (0, hash)
     \<and> (let g = \<lparr>g_listen_fd = 3, g_listen_port = 80, g_connect_max = 2, g_forward = [], g_hash = hash, g_conn = []\<rparr> in
        gate_dispatch_socket_message 0x102 (event_message SKYNET_SOCKET_TYPE_CONNECT 4) g = Some (calls, g)
        \<and> Socket_close 4 \<in> set calls)"
proof -
  have "case hashid_insert (hashid_init 2) 4 of Some (i, hash) \<Rightarrow> i = 0 \<and> slot_of hash 4 = Some 0 | None \<Rightarrow> False"
    by code_simp
  then obtain hash where h: "hashid_insert (hashid_init 2) 4 = Some (0, hash)" "slot_of hash 4 = Some 0"
    by (auto split: option.splits)
  have "hashid_ok hash"
    by (rule hashid_insert_ok [of "hashid_init 2" 4])
      (use h hashid_init_ok [of 2] in \<open>auto simp: hashid_full_def hashid_init_def Let_def\<close>)
  then have "hashid_lookup hash 4 = Some 0" using hashid_lookup_slot [of hash 4] h(2) by simp
  with h(1) gate_closes_first_slot [of "event_message SKYNET_SOCKET_TYPE_CONNECT 4"
      "\<lparr>g_listen_fd = 3, g_listen_port = 80, g_connect_max = 2, g_forward = [], g_hash = hash, g_conn = []\<rparr>" "0x102"]
  show ?thesis by (auto simp: event_message_def)
qed

end
