(* ===== verification/Base64.thy ===== *)
theory Base64
  imports Prelude
begin

text \<open>
  The encoder of \<open>util/base64.h\<close>, with its index arithmetic on 64-bit words, and its equivalence with the
  encoding of RFC 4648, written with groups of 24 bits. The websocket handshake uses it.
\<close>

unbundle bit_operations_syntax

section \<open>The code\<close>

definition base64len :: "nat \<Rightarrow> nat" where
  "base64len n = (n + 2) div 3 * 4"

text \<open>The table \<open>t\<close>.\<close>

definition base64_table :: "byte list" where
  "base64_table = map of_char
     ''ABCDEFGHIJKLMNOPQRSTUVWXYZabcdefghijklmnopqrstuvwxyz0123456789+/''"

definition table_at :: "u32 \<Rightarrow> byte" where
  "table_at x = base64_table ! unat (x AND 0x3f)"

text \<open>
  The character or the padding: all bits from the 32nd of the difference \<open>d\<close> of two \<open>size_t\<close> are set
  when it is negative.
\<close>

definition pad_or :: "64 word \<Rightarrow> byte \<Rightarrow> byte" where
  "pad_or d c = ucast ((drop_bit 31 d AND 61) OR (NOT (drop_bit 31 d) AND ucast c))"

text \<open>One round of the loop at the index \<open>i\<close>: the four characters.\<close>

definition base64_group :: "byte list \<Rightarrow> nat \<Rightarrow> byte list" where
  "base64_group p i =
     (let n = length p;
          byte = (\<lambda>k. if k < n then ucast (p ! k) else 0 :: u32);
          x = push_bit 16 (byte i) OR push_bit 8 (byte (i + 1)) OR byte (i + 2);
          i' = word_of_nat (i + 2) in
      [table_at (drop_bit 18 x), table_at (drop_bit 12 x),
       pad_or (word_of_nat n - 0 - i') (table_at (drop_bit 6 x)),
       pad_or (word_of_nat n - 1 - i') (table_at x)])"

function base64_from :: "byte list \<Rightarrow> nat \<Rightarrow> byte list" where
  "base64_from p i = (if i < length p then base64_group p i @ base64_from p (i + 3) else [])"
  by pat_completeness auto
termination by (relation "measure (\<lambda>(p, i). length p - i)") auto

declare base64_from.simps [simp del]

text \<open>What is written to a buffer of \<open>nbuf\<close> bytes, and the result.\<close>

definition base64 :: "nat \<Rightarrow> byte list \<Rightarrow> byte list \<times> nat" where
  "base64 nbuf p = (if nbuf \<ge> base64len (length p) then base64_from p 0 else [], base64len (length p))"

section \<open>The encoding of RFC 4648\<close>

text \<open>A character of the alphabet by its value, from the ranges of the standard.\<close>

definition rfc_char :: "nat \<Rightarrow> byte" where
  "rfc_char v =
     word_of_nat (if v < 26 then 65 + v else if v < 52 then 97 + (v - 26)
       else if v < 62 then 48 + (v - 52) else if v = 62 then 43 else 47)"

text \<open>The bits of the bytes in one number, and its digits to the base 64 from the left.\<close>

fun rfc_encode :: "byte list \<Rightarrow> byte list" where
  "rfc_encode [] = []"
| "rfc_encode [a] = (let v = unat a * 16 in [rfc_char (v div 64), rfc_char (v mod 64), 61, 61])"
| "rfc_encode [a, b] =
     (let v = (unat a * 256 + unat b) * 4 in
      [rfc_char (v div 64 div 64), rfc_char (v div 64 mod 64), rfc_char (v mod 64), 61])"
| "rfc_encode (a # b # c # bs) =
     (let v = (unat a * 256 + unat b) * 256 + unat c in
      [rfc_char (v div 64 div 64 div 64), rfc_char (v div 64 div 64 mod 64), rfc_char (v div 64 mod 64), rfc_char (v mod 64)]
      @ rfc_encode bs)"

section \<open>Lemmas\<close>

lemma base64_table_rfc: "v < 64 \<Longrightarrow> base64_table ! v = rfc_char v"
proof -
  have t: "base64_table = map rfc_char [0..<64]"
    by (simp add: base64_table_def rfc_char_def upt_rec)
  show "v < 64 \<Longrightarrow> base64_table ! v = rfc_char v" unfolding t by (simp add: nth_map_upt)
qed

lemma table_at_rfc: "table_at x = rfc_char (unat x mod 64)"
proof -
  have "x AND 0x3f = take_bit 6 x" by (simp add: take_bit_eq_mask mask_eq_decr_exp)
  then have "unat (x AND 0x3f) = unat x mod 64" by (simp only: unsigned_take_bit_eq) (simp add: take_bit_eq_mod)
  then show ?thesis using base64_table_rfc by (simp add: table_at_def)
qed

lemma pad_or_here:
  assumes k: "k < 2 ^ 31"
  shows "pad_or (word_of_nat k) c = c"
proof -
  have "unat (drop_bit 31 (word_of_nat k :: 64 word)) = 0"
    unfolding unat_drop using k by (simp add: unat_of_nat)
  then have d: "drop_bit 31 (word_of_nat k :: 64 word) = 0" by (simp only: unat_eq_0)
  have "ucast (ucast c :: 64 word) = c" by (rule bit_word_eqI) (simp add: bit_simps)
  then show ?thesis unfolding pad_or_def d by simp
qed

lemma pad_or_pad: "pad_or (-1) c = 61" "pad_or (-2) c = 61"
proof -
  have d: "drop_bit 31 (-1 :: 64 word) = 0x1ffffffff" "drop_bit 31 (-2 :: 64 word) = 0x1ffffffff"
    by (simp_all add: mask_eq_exp_minus_1)
  have "NOT (0x1ffffffff :: 64 word) AND ucast c = 0"
  proof (rule bit_word_eqI)
    fix n assume "n < LENGTH(64)"
    show "bit (NOT (0x1ffffffff :: 64 word) AND ucast c) n = bit (0 :: 64 word) n"
    proof (cases "n < 8")
      case True
      then have "n = 0 \<or> n = 1 \<or> n = 2 \<or> n = 3 \<or> n = 4 \<or> n = 5 \<or> n = 6 \<or> n = 7" by arith
      then show ?thesis by (auto simp: bit_simps)
    next
      case False
      then show ?thesis by (auto simp: bit_simps dest: bit_imp_le_length)
    qed
  qed
  then show "pad_or (-1) c = 61" "pad_or (-2) c = 61" unfolding pad_or_def d by simp_all
qed

text \<open>Three bytes side by side.\<close>

lemma join_bytes:
  "unat (push_bit 16 (ucast a) OR push_bit 8 (ucast b) OR ucast c :: u32) = (unat a * 256 + unat b) * 256 + unat c"
  for a b c :: byte
proof -
  have lt: "unat a < 256" "unat b < 256" "unat c < 256"
    by (rule unat_byte)+
  have p: "unat (push_bit k (ucast x) :: u32) = push_bit k (unat x)" if "k \<le> 16" for k and x :: byte
  proof -
    have "unat x * 2 ^ k < 256 * 2 ^ 16"
      using unat_byte [of x] that by (intro mult_less_le_imp_less power_increasing) simp_all
    moreover have "unat (ucast x :: u32) = unat x" using unat_byte [of x] by (simp add: unsigned_ucast_eq take_bit_eq_mod)
    ultimately show ?thesis
      by (subst unsigned_push_bit_eq) (simp add: take_bit_eq_mod push_bit_eq_mult)
  qed
  have c: "unat (ucast c :: u32) = unat c" using lt by (simp add: unsigned_ucast_eq take_bit_eq_mod)
  have "push_bit 16 (unat a) OR push_bit 8 (unat b) OR unat c = push_bit 8 (push_bit 8 (unat a) OR unat b) OR unat c"
    by (simp add: push_bit_or or.assoc)
  then show ?thesis using or_add [of "unat b" 8 "unat a"] or_add [of "unat c" 8] lt
    by (simp add: unsigned_or_eq p c)
qed


lemma group_three:
  assumes i: "i + 2 < length p" and n: "length p - i < 2 ^ 31"
  shows "base64_group p i @ rfc_encode bs = rfc_encode (p ! i # p ! (i + 1) # p ! (i + 2) # bs)"
proof -
  have d: "word_of_nat (length p) - 0 - word_of_nat (i + 2) = (word_of_nat (length p - (i + 2)) :: 64 word)"
    "word_of_nat (length p) - 1 - word_of_nat (i + 2) = (word_of_nat (length p - 1 - (i + 2)) :: 64 word)"
    using i by (simp_all add: of_nat_diff)
  have pads: "pad_or (word_of_nat (length p) - 0 - word_of_nat (i + 2)) c = c"
    "pad_or (word_of_nat (length p) - 1 - word_of_nat (i + 2)) c = c" for c
    unfolding d using n by (auto intro: pad_or_here)
  let ?x = "push_bit 16 (ucast (p ! i)) OR push_bit 8 (ucast (p ! (i + 1))) OR ucast (p ! (i + 2)) :: u32"
  define v where "v = unat ?x"
  have v: "v = (unat (p ! i) * 256 + unat (p ! (i + 1))) * 256 + unat (p ! (i + 2))"
    unfolding v_def by (rule join_bytes)
  have "v < 2 ^ 24" using unat_byte [of "p ! i"] unat_byte [of "p ! (i + 1)"] unat_byte [of "p ! (i + 2)"] unfolding v by simp
  then have "v div 2 ^ 18 < 64" by (simp add: less_mult_imp_div_less)
  then have top: "v div 2 ^ 18 mod 64 = v div 64 div 64 div 64" by (simp add: div_mult2_eq [symmetric])
  have mid: "v div 2 ^ 12 mod 64 = v div 64 div 64 mod 64" "v div 2 ^ 6 mod 64 = v div 64 mod 64"
    by (simp_all add: div_mult2_eq [symmetric])
  have "base64_group p i = [rfc_char (v div 2 ^ 18 mod 64), rfc_char (v div 2 ^ 12 mod 64),
      rfc_char (v div 2 ^ 6 mod 64), rfc_char (v mod 64)]"
    unfolding base64_group_def Let_def v_def using i pads by (simp only: table_at_rfc unat_drop) simp
  then show ?thesis unfolding top mid by (simp add: Let_def v)
qed

lemma group_two:
  assumes i: "length p = i + 2"
  shows "base64_group p i = rfc_encode [p ! i, p ! (i + 1)]"
proof -
  have pads: "pad_or (word_of_nat (length p) - 0 - word_of_nat (i + 2)) c = c"
    "pad_or (word_of_nat (length p) - 1 - word_of_nat (i + 2)) c = 61" for c
    using pad_or_here [of 0 c] pad_or_pad(1) [of c] unfolding i by simp_all
  let ?x = "push_bit 16 (ucast (p ! i)) OR push_bit 8 (ucast (p ! (i + 1))) OR ucast (0 :: byte) :: u32"
  define v where "v = (unat (p ! i) * 256 + unat (p ! (i + 1))) * 4"
  have x: "unat ?x = v * 64" unfolding join_bytes v_def by simp
  have "v < 2 ^ 18" using unat_byte [of "p ! i"] unat_byte [of "p ! (i + 1)"] unfolding v_def by simp
  then have "v * 64 div 2 ^ 18 < 64" by (simp add: less_mult_imp_div_less)
  then have top: "v * 64 div 2 ^ 18 mod 64 = v div 64 div 64"
    using div_mult2_eq [of "v * 64" 64 "64 * 64"] by (simp add: div_mult2_eq [symmetric])
  have mid: "v * 64 div 2 ^ 12 mod 64 = v div 64 mod 64" "v * 64 div 2 ^ 6 mod 64 = v mod 64"
    using div_mult2_eq [of "v * 64" 64 64] by simp_all
  have "base64_group p i = [rfc_char (v * 64 div 2 ^ 18 mod 64), rfc_char (v * 64 div 2 ^ 12 mod 64),
      rfc_char (v * 64 div 2 ^ 6 mod 64), 61]"
    unfolding base64_group_def Let_def x [symmetric] using i pads by (simp only: table_at_rfc unat_drop) simp
  then show ?thesis unfolding top mid by (simp add: Let_def v_def)
qed

lemma group_one:
  assumes i: "length p = i + 1"
  shows "base64_group p i = rfc_encode [p ! i]"
proof -
  have pads: "pad_or (word_of_nat (length p) - 0 - word_of_nat (i + 2)) c = 61"
    "pad_or (word_of_nat (length p) - 1 - word_of_nat (i + 2)) c = 61" for c
    using pad_or_pad [of c] unfolding i by simp_all
  let ?x = "push_bit 16 (ucast (p ! i)) OR push_bit 8 (ucast (0 :: byte)) OR ucast (0 :: byte) :: u32"
  define v where "v = unat (p ! i) * 16"
  have x: "unat ?x = v * 4096" unfolding join_bytes v_def by simp
  have "v < 2 ^ 12" using unat_byte [of "p ! i"] unfolding v_def by simp
  then have "v * 4096 div 2 ^ 18 < 64" by (simp add: less_mult_imp_div_less)
  then have top: "v * 4096 div 2 ^ 18 mod 64 = v div 64"
    using div_mult2_eq [of "v * 4096" 4096 64] by simp
  have mid: "v * 4096 div 2 ^ 12 mod 64 = v mod 64" by simp
  have "base64_group p i = [rfc_char (v * 4096 div 2 ^ 18 mod 64), rfc_char (v * 4096 div 2 ^ 12 mod 64), 61, 61]"
    unfolding base64_group_def Let_def x [symmetric] using i pads by (simp only: table_at_rfc unat_drop) simp
  then show ?thesis unfolding top mid by (simp add: Let_def v_def)
qed

lemma base64_from_rfc: "length p - i < 2 ^ 31 \<Longrightarrow> base64_from p i = rfc_encode (drop i p)"
proof (induction p i rule: base64_from.induct)
  case (1 p i)
  consider "length p \<le> i" | "length p = i + 1" | "length p = i + 2" | "i + 2 < length p" by linarith
  then show ?case
  proof cases
    case 1
    then show ?thesis by (subst base64_from.simps) simp
  next
    case 2
    then have "drop i p = [p ! i]" by (simp add: Cons_nth_drop_Suc [symmetric])
    with 2 group_one [OF 2] show ?thesis by (subst base64_from.simps, subst base64_from.simps) simp
  next
    case 3
    then have "drop i p = [p ! i, p ! (i + 1)]" by (simp add: Cons_nth_drop_Suc [symmetric])
    with 3 group_two [OF 3] show ?thesis by (subst base64_from.simps, subst base64_from.simps) simp
  next
    case 4
    then have d: "drop i p = p ! i # p ! (i + 1) # p ! (i + 2) # drop (i + 3) p"
      using Cons_nth_drop_Suc [of i p] Cons_nth_drop_Suc [of "i + 1" p] Cons_nth_drop_Suc [of "i + 2" p] by (simp add: numeral_3_eq_3)
    from 4 1 have "base64_from p (i + 3) = rfc_encode (drop (i + 3) p)" by simp
    with 4 group_three [OF 4 1(2)] show ?thesis unfolding d by (subst base64_from.simps) simp
  qed
qed

lemma length_rfc_encode: "length (rfc_encode bs) = base64len (length bs)"
proof (induction bs rule: rfc_encode.induct)
  case (4 a b c bs)
  have "(length bs + 3 + 2) div 3 = Suc ((length bs + 2) div 3)" by simp
  with 4 show ?case by (simp add: base64len_def Let_def)
qed (simp_all add: base64len_def Let_def)

lemma length_base64_from: "length (base64_from p i) = base64len (length p - i)"
proof (induction p i rule: base64_from.induct)
  case (1 p i)
  show ?case
  proof (cases "i < length p")
    case True
    have "length (base64_group p i) = 4" by (simp add: base64_group_def Let_def)
    with True 1 have l: "length (base64_from p i) = 4 + base64len (length p - (i + 3))" by (subst base64_from.simps) simp
    consider "length p - i = 1" | "length p - i = 2" | k where "length p - i = k + 3"
      using True by (metis One_nat_def Suc_1 add.commute add_diff_cancel_left' diff_is_0_eq less_2_cases_iff nat_add_left_cancel_less
          not_less_eq numeral_3_eq_3 plus_1_eq_Suc zero_less_diff nat_neq_iff le_add_diff_inverse2 leI)
    then show ?thesis
    proof cases
      case 3
      have "(k + 3 + 2) div 3 = Suc ((k + 2) div 3)" by simp
      with l 3 show ?thesis by (simp add: base64len_def)
    qed (use l in \<open>simp_all add: base64len_def\<close>)
  qed (simp add: base64_from.simps base64len_def)
qed

section \<open>Properties\<close>

text \<open>C29: The encoder writes the encoding of RFC 4648: on a buffer that is large enough, and an input below
  2 GB, the bytes written are the digits to the base 64 of the input's bits with the padding of the
  standard, and their number is the result.\<close>

theorem base64_is_rfc4648:
  assumes "length p < 2 ^ 31" "base64len (length p) \<le> nbuf"
  shows "base64 nbuf p = (rfc_encode p, length (rfc_encode p))"
  using assms base64_from_rfc [of p 0] by (simp add: base64_def length_rfc_encode)

lemma base64_is_rfc4648_witness: "base64 8 [77, 97, 110, 77] = (map of_char ''TWFuTQ=='', 8)"
proof -
  have "base64 8 [77, 97, 110, 77] = (rfc_encode [77, 97, 110, 77], length (rfc_encode [77, 97, 110, 77]))"
    by (rule base64_is_rfc4648) (simp_all add: base64len_def)
  also have "rfc_encode [77, 97, 110, 77] = map of_char ''TWFuTQ==''" by (simp add: Let_def rfc_char_def)
  finally show ?thesis by simp
qed

text \<open>C30: The encoder never writes behind the end of its buffer, whatever the input; its result is the length of
  the encoding, and it has written that much or, when the buffer is too small for it, nothing.\<close>

theorem base64_stays_in_buffer:
  "length (fst (base64 nbuf p)) \<le> nbuf \<and> snd (base64 nbuf p) = (length p + 2) div 3 * 4
   \<and> length (fst (base64 nbuf p)) = (if snd (base64 nbuf p) \<le> nbuf then snd (base64 nbuf p) else 0)"
  by (simp add: base64_def length_base64_from) (simp add: base64len_def)

end
