(* ===== verification/Sha1.thy ===== *)
theory Sha1
  imports Prelude
begin

text \<open>
  The digest of \<open>util/sha1.h\<close> as it is written (a ring of 16 words for the schedule, padding done in
  the last words) and its equivalence with SHA-1 of FIPS 180 (a schedule of 80 words, a padded message), but
  for one length of the message where the code pads wrongly.
\<close>

unbundle bit_operations_syntax

type_synonym regs = "u32 \<times> u32 \<times> u32 \<times> u32 \<times> u32"

section \<open>The code\<close>

definition rol :: "u32 \<Rightarrow> nat \<Rightarrow> u32" where
  "rol x s = push_bit s x OR drop_bit (32 - s) x"

text \<open>The macro \<open>mix\<close> at the index \<open>i\<close>, with its function \<open>f\<close> of \<open>b\<close>, \<open>c\<close> and \<open>d\<close>.\<close>

definition mix :: "(u32 \<Rightarrow> u32 \<Rightarrow> u32 \<Rightarrow> u32) \<Rightarrow> u32 \<Rightarrow> nat \<Rightarrow> u32 list \<Rightarrow> regs \<Rightarrow> regs" where
  "mix f v i w = (\<lambda>(a, b, c, d, e). (f b c d + v + rol a 5 + e + w ! (i mod 16), a, rol b 30, c, d))"

definition mix_plain :: "nat \<Rightarrow> regs \<times> u32 list \<Rightarrow> regs \<times> u32 list" where
  "mix_plain i = (\<lambda>(r, w). (mix (\<lambda>b c d. d XOR (b AND (c XOR d))) 0x5a827999 i w r, w))"

text \<open>The body of the later loops: the word of the ring is replaced first.\<close>

definition expand :: "nat \<Rightarrow> u32 list \<Rightarrow> u32 list" where
  "expand i w = w[i mod 16 :=
     rol (w ! ((i + 13) mod 16) XOR w ! ((i + 8) mod 16) XOR w ! ((i + 2) mod 16) XOR w ! (i mod 16)) 1]"

definition mix_expand :: "(u32 \<Rightarrow> u32 \<Rightarrow> u32 \<Rightarrow> u32) \<Rightarrow> u32 \<Rightarrow> nat \<Rightarrow> regs \<times> u32 list \<Rightarrow> regs \<times> u32 list" where
  "mix_expand f v i = (\<lambda>(r, w). let w = expand i w in (mix f v i w r, w))"

definition add_regs :: "regs \<Rightarrow> regs \<Rightarrow> regs" where
  "add_regs = (\<lambda>(a, b, c, d, e) (a', b', c', d', e'). (a + a', b + b', c + c', d + d', e + e'))"

definition sha1mix :: "regs \<times> u32 list \<Rightarrow> regs \<times> u32 list" where
  "sha1mix = (\<lambda>(r, w).
     let s = fold mix_plain [0..<16] (r, w);
         s = fold (mix_expand (\<lambda>b c d. d XOR (b AND (c XOR d))) 0x5a827999) [16..<20] s;
         s = fold (mix_expand (\<lambda>b c d. b XOR c XOR d) 0x6ed9eba1) [20..<40] s;
         s = fold (mix_expand (\<lambda>b c d. (b AND c) OR (d AND (b OR c))) 0x8f1bbcdc) [40..<60] s;
         (r', w) = fold (mix_expand (\<lambda>b c d. b XOR c XOR d) 0xca62c1d6) [60..<80] s in
     (add_regs r r', w))"

definition sha1_init :: regs where
  "sha1_init = (0x67452301, 0xefcdab89, 0x98badcfe, 0x10325476, 0xc3d2e1f0)"

text \<open>Four bytes at \<open>i\<close> as a word.\<close>

definition load_word :: "byte list \<Rightarrow> nat \<Rightarrow> u32" where
  "load_word p i = push_bit 0 (ucast (p ! (i + 3))) OR push_bit 8 (ucast (p ! (i + 2)))
     OR push_bit 16 (ucast (p ! (i + 1))) OR push_bit 24 (ucast (p ! i))"

text \<open>The \<open>do\<close> loop loads 16 words, up to the next multiple of 64.\<close>

definition load_block :: "byte list \<Rightarrow> nat \<Rightarrow> u32 list \<Rightarrow> u32 list" where
  "load_block p i w = fold (\<lambda>j w. w[(i + 4 * j) div 4 mod 16 := load_word p (i + 4 * j)]) [0..<16] w"

function sha1_blocks :: "byte list \<Rightarrow> nat \<Rightarrow> regs \<times> u32 list \<Rightarrow> regs \<times> u32 list" where
  "sha1_blocks p i (r, w) =
     (if i < length p - length p mod 64
      then sha1_blocks p (i + 64) (sha1mix (r, load_block p i w))
      else (r, w))"
  by pat_completeness auto
termination by (relation "measure (\<lambda>(p, i, _). length p - i)") auto

declare sha1_blocks.simps [simp del]

text \<open>A byte goes to its place in the word of its index.\<close>

definition or_byte :: "byte \<Rightarrow> nat \<Rightarrow> u32 list \<Rightarrow> u32 list" where
  "or_byte b i w = w[i div 4 mod 16 := w ! (i div 4 mod 16) OR push_bit ((3 - i mod 4) * 8) (ucast b)]"

definition sha1_tail :: "byte list \<Rightarrow> regs \<Rightarrow> regs" where
  "sha1_tail p r =
     (let n = length p;
          w = fold (\<lambda>i. or_byte (p ! i) i) [n - n mod 64..<n] (replicate 16 0);
          w = or_byte 0x80 n w;
          (r, w) = (if n mod 64 > 56 then (fst (sha1mix (r, w)), replicate 16 0) else (r, w)) in
      fst (sha1mix (r, w[15 := word_of_nat (n * 8)])))"

definition word_bytes :: "u32 \<Rightarrow> byte list" where
  "word_bytes x = [ucast (drop_bit 24 x), ucast (drop_bit 16 x), ucast (drop_bit 8 x), ucast x]"

definition regs_bytes :: "regs \<Rightarrow> byte list" where
  "regs_bytes = (\<lambda>(a, b, c, d, e). word_bytes a @ word_bytes b @ word_bytes c @ word_bytes d @ word_bytes e)"

text \<open>\<open>junk\<close> is the uninitialised array of words.\<close>

definition sha1 :: "u32 list \<Rightarrow> byte list \<Rightarrow> byte list" where
  "sha1 junk p = regs_bytes (sha1_tail p (fst (sha1_blocks p 0 (sha1_init, junk))))"

section \<open>SHA-1 of FIPS 180\<close>

definition fips_f :: "nat \<Rightarrow> u32 \<Rightarrow> u32 \<Rightarrow> u32 \<Rightarrow> u32" where
  "fips_f t x y z =
     (if t < 20 then (x AND y) XOR (NOT x AND z)
      else if t < 40 then x XOR y XOR z
      else if t < 60 then (x AND y) XOR (x AND z) XOR (y AND z)
      else x XOR y XOR z)"

definition fips_k :: "nat \<Rightarrow> u32" where
  "fips_k t = (if t < 20 then 0x5a827999 else if t < 40 then 0x6ed9eba1 else if t < 60 then 0x8f1bbcdc else 0xca62c1d6)"

fun fips_w :: "u32 list \<Rightarrow> nat \<Rightarrow> u32" where
  "fips_w m t =
     (if t < 16 then m ! t
      else word_rotl 1 (fips_w m (t - 3) XOR fips_w m (t - 8) XOR fips_w m (t - 14) XOR fips_w m (t - 16)))"

declare fips_w.simps [simp del]

fun fips_rounds :: "u32 list \<Rightarrow> nat \<Rightarrow> regs \<Rightarrow> regs" where
  "fips_rounds m 0 r = r"
| "fips_rounds m (Suc t) r =
     (case fips_rounds m t r of
        (a, b, c, d, e) \<Rightarrow> (word_rotl 5 a + fips_f t b c d + e + fips_k t + fips_w m t, a, word_rotl 30 b, c, d))"

text \<open>The 16 words of a block of 64 bytes, the most significant byte first.\<close>

definition be_word :: "byte list \<Rightarrow> u32" where
  "be_word bs = word_of_nat (foldl (\<lambda>v b. v * 256 + unat b) 0 bs)"

definition block_words :: "byte list \<Rightarrow> u32 list" where
  "block_words bs = map (\<lambda>k. be_word (take 4 (drop (4 * k) bs))) [0..<16]"

fun fips_hash :: "regs \<Rightarrow> byte list \<Rightarrow> regs" where
  "fips_hash r [] = r"
| "fips_hash r (b # bs) =
     fips_hash (add_regs r (fips_rounds (block_words (take 64 (b # bs))) 80 r)) (drop 64 (b # bs))"

text \<open>The padding of a message of \<open>n\<close> bytes: a bit 1, zeros, and the length in bits in 64 bits.\<close>

definition fips_pad :: "nat \<Rightarrow> byte list" where
  "fips_pad n = [0x80] @ replicate (nat ((55 - int n) mod 64)) 0 @ rev (le_bytes 8 (n * 8))"

definition fips_sha1 :: "byte list \<Rightarrow> byte list" where
  "fips_sha1 p = regs_bytes (fips_hash sha1_init (p @ fips_pad (length p)))"

section \<open>One block\<close>

lemma rol_rotl: "0 < s \<Longrightarrow> s < 32 \<Longrightarrow> rol x s = word_rotl s x"
proof (rule bit_word_eqI)
  fix n assume s: "0 < s" "s < 32" and n: "n < LENGTH(32)"
  have r: "bit (word_rotl s x) n \<longleftrightarrow> bit x ((n + (32 - s)) mod 32)"
    using s n by (simp only: bit_word_rotl_iff) simp
  have l: "bit (rol x s) n \<longleftrightarrow> s \<le> n \<and> bit x (n - s) \<or> bit x (n + (32 - s))"
    using n by (simp only: rol_def bit_or_iff bit_push_bit_iff bit_drop_bit_eq comp_def add.commute) simp
  show "bit (rol x s) n = bit (word_rotl s x) n"
  proof (cases "n < s")
    case True
    then have "(n + (32 - s)) mod 32 = n + (32 - s)" using s by simp
    with True show ?thesis unfolding l r by simp
  next
    case False
    then have "(n + (32 - s)) mod 32 = n - s" using s n by (simp add: mod_if)
    moreover have "\<not> bit x (n + (32 - s))" using False s bit_imp_le_length [of x "n + (32 - s)"] by auto
    ultimately show ?thesis using False unfolding l r by simp
  qed
qed

lemma choose_eq: "d XOR (b AND (c XOR d)) = (b AND c) XOR (NOT b AND d)" for b c d :: u32
  by (rule bit_word_eqI) (auto simp: bit_simps)

lemma majority_eq: "(b AND c) OR (d AND (b OR c)) = (b AND c) XOR (b AND d) XOR (c AND d)" for b c d :: u32
  by (rule bit_word_eqI) (auto simp: bit_simps)

text \<open>The ring before step \<open>t\<close> holds the last 16 words of the schedule.\<close>

definition ring :: "u32 list \<Rightarrow> nat \<Rightarrow> u32 list \<Rightarrow> bool" where
  "ring m t w \<longleftrightarrow> length w = 16 \<and> (\<forall>s < t. t \<le> s + 16 \<longrightarrow> w ! (s mod 16) = fips_w m s)"

lemma ring_start: "length m = 16 \<Longrightarrow> ring m 16 m"
  by (simp add: ring_def fips_w.simps)

lemma ring_expand:
  assumes r: "ring m t w" and t: "16 \<le> t"
  shows "ring m (Suc t) (expand t w)" "expand t w ! (t mod 16) = fips_w m t"
proof -
  have w: "w ! ((t + 13) mod 16) = fips_w m (t - 3)" "w ! ((t + 8) mod 16) = fips_w m (t - 8)"
    "w ! ((t + 2) mod 16) = fips_w m (t - 14)" "w ! (t mod 16) = fips_w m (t - 16)"
  proof -
    have e: "(t + 13) mod 16 = (t - 3) mod 16" "(t + 8) mod 16 = (t - 8) mod 16"
      "(t + 2) mod 16 = (t - 14) mod 16" "t mod 16 = (t - 16) mod 16"
      using t mod_add_self2 [of "t - 3" 16] mod_add_self2 [of "t - 8" 16] mod_add_self2 [of "t - 14" 16]
        mod_add_self2 [of "t - 16" 16] by (simp_all add: add.commute)
    show "w ! ((t + 13) mod 16) = fips_w m (t - 3)" "w ! ((t + 8) mod 16) = fips_w m (t - 8)"
      "w ! ((t + 2) mod 16) = fips_w m (t - 14)" "w ! (t mod 16) = fips_w m (t - 16)"
      unfolding e using r t by (simp_all add: ring_def)
  qed
  have "fips_w m t = word_rotl 1 (fips_w m (t - 3) XOR fips_w m (t - 8) XOR fips_w m (t - 14) XOR fips_w m (t - 16))"
    using t by (subst fips_w.simps) simp
  then have e: "expand t w = w[t mod 16 := fips_w m t]" unfolding expand_def w by (simp add: rol_rotl)
  have l: "length w = 16" using r by (simp add: ring_def)
  then show "expand t w ! (t mod 16) = fips_w m t" unfolding e by simp
  have "w[t mod 16 := fips_w m t] ! (s mod 16) = fips_w m s" if s: "s < Suc t" "Suc t \<le> s + 16" for s
  proof (cases "s = t")
    case False
    then have "s mod 16 \<noteq> t mod 16"
      using s False mod_eq_dvd_iff_nat [of s t 16] dvd_imp_le [of 16 "t - s"] by fastforce
    with False s r show ?thesis by (simp add: ring_def)
  qed (use l in simp)
  then show "ring m (Suc t) (expand t w)" unfolding e using l by (simp add: ring_def)
qed


text \<open>A loop of the mixer over the steps \<open>a\<close> to \<open>b\<close>.\<close>

lemma mix_fips:
  assumes "\<And>x y z. f x y z = fips_f t x y z" "v = fips_k t" "w ! (t mod 16) = fips_w m t" "fips_rounds m t r0 = r"
  shows "mix f v t w r = fips_rounds m (Suc t) r0"
  using assms by (cases r) (simp add: mix_def rol_rotl ac_simps)

lemma fold_plain:
  "n \<le> 16 \<Longrightarrow> length m = 16 \<Longrightarrow> fold mix_plain [0..<n] (r, m) = (fips_rounds m n r, m)"
proof (induction n)
  case (Suc n)
  have w: "m ! (n mod 16) = fips_w m n" using Suc.prems by (simp add: fips_w.simps)
  have "mix (\<lambda>b c d. d XOR (b AND (c XOR d))) 0x5a827999 n m (fips_rounds m n r) = fips_rounds m (Suc n) r"
    by (rule mix_fips [OF _ _ w refl]) (use Suc.prems in \<open>simp_all add: fips_f_def fips_k_def choose_eq\<close>)
  with Suc show ?case by (simp add: mix_plain_def)
qed simp

lemma fold_expand:
  assumes f: "\<And>t x y z. a \<le> t \<Longrightarrow> t < b \<Longrightarrow> f x y z = fips_f t x y z"
    and v: "\<And>t. a \<le> t \<Longrightarrow> t < b \<Longrightarrow> v = fips_k t"
    and a: "16 \<le> a" and w: "ring m a w"
  shows "a + n \<le> b \<Longrightarrow> \<exists>w'. fold (mix_expand f v) [a..<a + n] (fips_rounds m a r, w) = (fips_rounds m (a + n) r, w')
    \<and> ring m (a + n) w'"
proof (induction n)
  case (Suc n)
  then obtain w' where w': "fold (mix_expand f v) [a..<a + n] (fips_rounds m a r, w) = (fips_rounds m (a + n) r, w')"
    "ring m (a + n) w'" by auto
  note e = ring_expand [OF w'(2)]
  have "mix f v (a + n) (expand (a + n) w') (fips_rounds m (a + n) r) = fips_rounds m (Suc (a + n)) r"
    by (rule mix_fips [OF _ _ _ refl]) (use Suc.prems a f v e(2) in auto)
  then have "mix_expand f v (a + n) (fips_rounds m (a + n) r, w') = (fips_rounds m (Suc (a + n)) r, expand (a + n) w')"
    by (simp only: mix_expand_def prod.case Let_def)
  then show ?case using w' e(1) a by (simp del: fips_rounds.simps(2))
qed (use w in simp)

lemma sha1mix_fips:
  assumes m: "length m = 16"
  shows "fst (sha1mix (r, m)) = add_regs r (fips_rounds m 80 r)" "length (snd (sha1mix (r, m))) = 16"
proof -
  obtain w1 where 1: "fold (mix_expand (\<lambda>b c d. d XOR (b AND (c XOR d))) 0x5a827999) [16..<20] (fips_rounds m 16 r, m)
      = (fips_rounds m 20 r, w1)" "ring m 20 w1"
    using fold_expand [of 16 20 "\<lambda>b c d. d XOR (b AND (c XOR d))" "0x5a827999" m m 4 r] ring_start [OF m]
    by (auto simp: fips_f_def fips_k_def choose_eq)
  obtain w2 where 2: "fold (mix_expand (\<lambda>b c d. b XOR c XOR d) 0x6ed9eba1) [20..<40] (fips_rounds m 20 r, w1)
      = (fips_rounds m 40 r, w2)" "ring m 40 w2"
    using fold_expand [of 20 40 "\<lambda>b c d. b XOR c XOR d" "0x6ed9eba1" m w1 20 r] 1(2)
    by (auto simp: fips_f_def fips_k_def)
  obtain w3 where 3: "fold (mix_expand (\<lambda>b c d. (b AND c) OR (d AND (b OR c))) 0x8f1bbcdc) [40..<60] (fips_rounds m 40 r, w2)
      = (fips_rounds m 60 r, w3)" "ring m 60 w3"
    using fold_expand [of 40 60 "\<lambda>b c d. (b AND c) OR (d AND (b OR c))" "0x8f1bbcdc" m w2 20 r] 2(2)
    by (auto simp: fips_f_def fips_k_def majority_eq)
  obtain w4 where 4: "fold (mix_expand (\<lambda>b c d. b XOR c XOR d) 0xca62c1d6) [60..<80] (fips_rounds m 60 r, w3)
      = (fips_rounds m 80 r, w4)" "ring m 80 w4"
    using fold_expand [of 60 80 "\<lambda>b c d. b XOR c XOR d" "0xca62c1d6" m w3 20 r] 3(2)
    by (auto simp: fips_f_def fips_k_def)
  have p: "fold mix_plain [0..<16] (r, m) = (fips_rounds m 16 r, m)" using fold_plain [of 16 m r] m by simp
  have "sha1mix (r, m) = (add_regs r (fips_rounds m 80 r), w4)"
    unfolding sha1mix_def prod.case Let_def p 1(1) 2(1) 3(1) 4(1) by simp
  then show "fst (sha1mix (r, m)) = add_regs r (fips_rounds m 80 r)" "length (snd (sha1mix (r, m))) = 16"
    using 4(2) by (simp_all add: ring_def)
qed

section \<open>The words of a block\<close>

text \<open>The word \<open>k\<close> of a block.\<close>

definition word_at_byte :: "byte list \<Rightarrow> nat \<Rightarrow> u32" where
  "word_at_byte l k = be_word [l ! (4 * k), l ! (4 * k + 1), l ! (4 * k + 2), l ! (4 * k + 3)]"

lemma be4: "be_word [a, b, c, d] = push_bit 24 (ucast a) OR push_bit 16 (ucast b) OR push_bit 8 (ucast c) OR ucast d"
proof -
  have p: "unat (push_bit k (ucast x) :: u32) = push_bit k (unat x)" if "k \<le> 24" for k and x :: byte
  proof -
    have "unat x * 2 ^ k < 256 * 2 ^ 24"
      using unat_byte [of x] that by (intro mult_less_le_imp_less power_increasing) simp_all
    moreover have "unat (ucast x :: u32) = unat x" using unat_byte [of x] by (simp add: unsigned_ucast_eq take_bit_eq_mod)
    ultimately show ?thesis by (subst unsigned_push_bit_eq) (simp add: take_bit_eq_mod push_bit_eq_mult)
  qed
  have d: "unat (ucast d :: u32) = unat d" using unat_byte [of d] by (simp add: unsigned_ucast_eq take_bit_eq_mod)
  have "unat (push_bit 24 (ucast a) OR push_bit 16 (ucast b) OR push_bit 8 (ucast c) OR ucast d :: u32)
    = push_bit 8 (push_bit 8 (push_bit 8 (unat a) OR unat b) OR unat c) OR unat d"
    by (simp add: unsigned_or_eq p d push_bit_or or.assoc)
  also have "\<dots> = ((unat a * 256 + unat b) * 256 + unat c) * 256 + unat d"
    using or_add [of "unat b" 8 "unat a"] or_add [of "unat c" 8] or_add [of "unat d" 8]
      unat_byte [of b] unat_byte [of c] unat_byte [of d] by simp
  finally have "be_word [a, b, c, d] =
      word_of_nat (unat (push_bit 24 (ucast a) OR push_bit 16 (ucast b) OR push_bit 8 (ucast c) OR ucast d :: u32))"
    by (simp add: be_word_def)
  then show ?thesis by (simp only: of_nat_unat ucast_id)
qed

lemma length_block_words [simp]: "length (block_words l) = 16"
  by (simp add: block_words_def)

lemma block_words_at:
  assumes "length l = 64" "k < 16"
  shows "block_words l ! k = word_at_byte l k"
proof -
  have "take 4 (drop (4 * k) l) = [l ! (4 * k), l ! (4 * k + 1), l ! (4 * k + 2), l ! (4 * k + 3)]"
    using assms by (intro nth_equalityI) (auto simp: nth_Cons' less_Suc_eq numeral_eq_Suc)
  then show ?thesis using assms(2) by (simp add: block_words_def word_at_byte_def)
qed

lemma block_words_eqI:
  assumes "length l = 64" "length ws = 16" "\<And>k. k < 16 \<Longrightarrow> ws ! k = word_at_byte l k"
  shows "ws = block_words l"
  using assms by (intro nth_equalityI) (simp_all add: block_words_at)

lemma load_block_words:
  assumes i: "i mod 64 = 0" "i + 64 \<le> length p" and w: "length w = 16"
  shows "load_block p i w = block_words (take 64 (drop i p))"
proof -
  have ix: "(i + 4 * j) div 4 mod 16 = j" if "j < 16" for j
  proof -
    obtain q where "i = 64 * q" using i(1) by auto
    then have "(i + 4 * j) div 4 = 16 * q + j" by simp
    then show ?thesis using that by simp
  qed
  then have ix': "(j + i div 4) mod 16 = j" if "j < 16" for j using that by (metis add.commute div_mult_self2 zero_neq_numeral)
  have f: "length (fold (\<lambda>j w. w[(i + 4 * j) div 4 mod 16 := load_word p (i + 4 * j)]) [0..<n] w) = 16
      \<and> (\<forall>k < n. fold (\<lambda>j w. w[(i + 4 * j) div 4 mod 16 := load_word p (i + 4 * j)]) [0..<n] w ! k = load_word p (i + 4 * k))"
    if "n \<le> 16" for n
    using that by (induction n) (auto simp: w ix' nth_list_update less_Suc_eq)
  show ?thesis
  proof (rule block_words_eqI)
    show "length (take 64 (drop i p)) = 64" using i by simp
    show "length (load_block p i w) = 16" using f [of 16] by (simp add: load_block_def)
    fix k :: nat assume k: "k < 16"
    have "load_block p i w ! k = load_word p (i + 4 * k)" using f [of 16] k by (simp add: load_block_def)
    also have "\<dots> = word_at_byte (take 64 (drop i p)) k"
      using k i by (simp add: load_word_def word_at_byte_def be4 ac_simps)
    finally show "load_block p i w ! k = word_at_byte (take 64 (drop i p)) k" .
  qed
qed

text \<open>Setting a byte that is zero.\<close>

lemma or_byte_words:
  assumes l: "length l = 64" "l ! (i mod 64) = 0"
  shows "or_byte x i (block_words l) = block_words (l[i mod 64 := x])"
proof (rule block_words_eqI)
  obtain q j where qj: "i mod 64 = j" "i = 64 * q + j" "j < 64"
    using mult_div_mod_eq [of 64 i] mod_less_divisor [of 64 i] by (metis zero_less_numeral)
  have "64 * q + j = 4 * (16 * q) + j" by simp
  then have "i div 4 = 16 * q + j div 4" "i mod 4 = j mod 4"
    unfolding qj(2) by (simp_all only: div_mult_self4 mod_mult_self4 zero_neq_numeral not_False_eq_True)
  moreover have "j div 4 < 16" using qj(3) by simp
  ultimately have j: "i div 4 mod 16 = j div 4" "i mod 4 = j mod 4" by simp_all
  show "length (l[i mod 64 := x]) = 64" using l by simp
  show "length (or_byte x i (block_words l)) = 16" by (simp add: or_byte_def)
  fix k :: nat assume k: "k < 16"
  show "or_byte x i (block_words l) ! k = word_at_byte (l[i mod 64 := x]) k"
  proof (cases "k = j div 4")
    case False
    then have "4 * k \<noteq> j" "4 * k + 1 \<noteq> j" "4 * k + 2 \<noteq> j" "4 * k + 3 \<noteq> j" by auto
    with False k l show ?thesis
      by (simp add: or_byte_def j qj(1) block_words_at word_at_byte_def)
  next
    case True
    obtain r where r: "j mod 4 = r" "j = 4 * k + r" "r < 4" using True by (metis mod_less_divisor mult_div_mod_eq zero_less_numeral)
    have up: "l[j := x] ! (4 * k + d) = (if d = r then x else l ! (4 * k + d))" if "d < 4" for d
      using l k that unfolding r(2) by simp
    have z: "l ! (4 * k + r) = 0" using l(2) unfolding qj(1) r(2) .
    have w: "or_byte x i (block_words l) ! k = word_at_byte l k OR push_bit ((3 - r) * 8) (ucast x)"
      using k l True by (simp add: or_byte_def j r(1) block_words_at)
    from r(3) consider "r = 0" | "r = 1" | "r = 2" | "r = 3" by arith
    then show ?thesis unfolding w qj(1)
      by cases (use up [of 0] up [of 1] up [of 2] up [of 3] z in \<open>simp_all add: word_at_byte_def be4 ac_simps\<close>)
  qed
qed

section \<open>The message\<close>

lemma fips_hash_block:
  assumes "length b = 64"
  shows "fips_hash r (b @ rest) = fips_hash (fst (sha1mix (r, block_words b))) rest"
proof -
  obtain x xs where x: "b @ rest = x # xs" using assms by (cases b) auto
  have "take 64 (b @ rest) = b" "drop 64 (b @ rest) = rest" using assms by simp_all
  then show ?thesis using sha1mix_fips(1) [of "block_words b" r] x by simp
qed

lemma sha1_blocks_fips:
  "i mod 64 = 0 \<Longrightarrow> i \<le> length p - length p mod 64 \<Longrightarrow> length w = 16 \<Longrightarrow>
   fips_hash r (drop i p @ t) = fips_hash (fst (sha1_blocks p i (r, w))) (drop (length p - length p mod 64) p @ t)"
proof (induction "length p - i" arbitrary: i r w rule: less_induct)
  case less
  let ?e = "length p - length p mod 64"
  show ?case
  proof (cases "i < ?e")
    case False
    with less.prems show ?thesis by (subst sha1_blocks.simps) simp
  next
    case True
    have "64 dvd ?e" by (simp add: dvd_minus_mod)
    moreover have "64 dvd i" using less.prems(1) by auto
    ultimately have "64 dvd ?e - i" by (rule dvd_diff_nat)
    then have e: "i + 64 \<le> ?e" using True dvd_imp_le [of 64 "?e - i"] by linarith
    then have n: "i + 64 \<le> length p" by linarith
    let ?b = "take 64 (drop i p)"
    obtain r' w' where m: "sha1mix (r, block_words ?b) = (r', w')" by fastforce
    have w': "length w' = 16" using sha1mix_fips(2) [of "block_words ?b" r] m by simp
    have f: "?b @ drop (i + 64) p = drop i p"
      using append_take_drop_id [of 64 "drop i p"] by (simp add: add.commute)
    have "fips_hash r (?b @ (drop (i + 64) p @ t)) = fips_hash r' (drop (i + 64) p @ t)"
      using fips_hash_block [of ?b r "drop (i + 64) p @ t"] n m by simp
    then have "fips_hash r (drop i p @ t) = fips_hash r' (drop (i + 64) p @ t)"
      unfolding append_assoc [symmetric] f .
    also have "\<dots> = fips_hash (fst (sha1_blocks p (i + 64) (r', w'))) (drop ?e p @ t)"
      using less.hyps [of "i + 64" w' r'] less.prems(1) e n w' by simp
    finally show ?thesis using True m load_block_words [OF less.prems(1) n less.prems(3)]
      by (subst sha1_blocks.simps) simp
  qed
qed

text \<open>The words of what is left behind the whole blocks.\<close>

lemma tail_words:
  assumes m: "length p - q \<le> 63" "q \<le> length p" "q mod 64 = 0"
  shows "j \<le> length p - q \<Longrightarrow>
    fold (\<lambda>i. or_byte (p ! i) i) [q..<q + j] (replicate 16 0) = block_words (take j (drop q p) @ replicate (64 - j) 0)"
proof (induction j)
  case 0
  show ?case by (intro block_words_eqI) (auto simp: word_at_byte_def be4)
next
  case (Suc j)
  let ?l = "take j (drop q p) @ replicate (64 - j) 0"
  obtain k where "q = 64 * k" using m(3) by auto
  then have j: "(q + j) mod 64 = j" using Suc.prems m(1) by simp
  have l: "length (take j (drop q p)) = j" using Suc.prems m by simp
  have "64 - j = Suc (63 - j)" using Suc.prems m by simp
  then have r: "replicate (64 - j) (0 :: byte) = 0 # replicate (63 - j) 0" by simp
  have "?l[j := p ! (q + j)] = take (Suc j) (drop q p) @ replicate (63 - j) 0"
    using l Suc.prems m by (simp add: r list_update_append take_Suc_conv_app_nth)
  then have "or_byte (p ! (q + j)) (q + j) (block_words ?l) = block_words (take (Suc j) (drop q p) @ replicate (63 - j) 0)"
    using or_byte_words [of ?l "q + j" "p ! (q + j)"] l j Suc.prems m by (simp add: nth_append)
  then show ?case using Suc by simp
qed


lemma list4: "length z = 4 \<Longrightarrow> [z ! 0, z ! 1, z ! 2, z ! 3] = z"
  by (auto simp: length_Suc_conv eval_nat_numeral)

lemma be_word_rev: "be_word (rev l) = word_of_nat (le_nat l)"
proof -
  have "foldl (\<lambda>v b. v * 256 + unat b) 0 (rev l) = le_nat l" by (induction l) simp_all
  then show ?thesis by (simp add: be_word_def)
qed

text \<open>The block that ends with the length in bits.\<close>

lemma length_block:
  assumes l: "length l = 56" and n: "n < 2 ^ 29"
  shows "block_words (l @ rev (le_bytes 8 (n * 8))) = (block_words (l @ replicate 8 0))[15 := word_of_nat (n * 8)]"
proof -
  have e: "rev (le_bytes 8 (n * 8)) = replicate 4 0 @ rev (le_bytes 4 (n * 8))"
    using le_bytes_add [of 4 4 "n * 8"] n by (simp add: le_bytes_0)
  let ?z = "rev (le_bytes 4 (n * 8))"
  have z: "le_nat (le_bytes 4 (n * 8)) = n * 8" using n by (simp add: le_nat_le_bytes)
  have len: "length (l @ replicate 4 0 @ ?z) = 64" using l by simp
  show ?thesis unfolding e
  proof (rule block_words_eqI [symmetric, OF len])
    fix k :: nat assume k: "k < 16"
    show "(block_words (l @ replicate 8 0))[15 := word_of_nat (n * 8)] ! k = word_at_byte (l @ replicate 4 0 @ ?z) k"
    proof (cases "k = 15")
      case True
      have "[?z ! 0, ?z ! 1, ?z ! 2, ?z ! 3] = ?z" by (rule list4) simp
      then have "word_at_byte (l @ replicate 4 0 @ ?z) 15 = be_word ?z" using l by (simp add: word_at_byte_def nth_append)
      then show ?thesis using True by (simp add: be_word_rev z)
    next
      case False
      have "(l @ replicate 8 0) ! i = (l @ replicate 4 0 @ ?z) ! i" if "i < 60" for i
        using that l by (auto simp: nth_append)
      then show ?thesis using False k l by (simp add: block_words_at word_at_byte_def)
    qed
  qed simp
qed

text \<open>What the code makes of the rest of the message and the marker behind it.\<close>

lemma tail_block:
  assumes m: "m = length p mod 64"
  shows "or_byte 0x80 (length p) (fold (\<lambda>i. or_byte (p ! i) i) [length p - m..<length p] (replicate 16 0)) =
    block_words (drop (length p - m) p @ 0x80 # replicate (63 - m) 0)"
proof -
  let ?n = "length p" and ?q = "length p - m"
  let ?rest = "drop ?q p"
  have m63: "m \<le> 63" and mn: "m \<le> ?n" using m by simp_all
  have q: "?q mod 64 = 0" unfolding m by simp
  have rl: "length ?rest = m" using mn by simp
  have w: "fold (\<lambda>i. or_byte (p ! i) i) [?q..<?n] (replicate 16 0) = block_words (?rest @ replicate (64 - m) 0)"
    using tail_words [of p ?q m] m63 mn q rl by simp
  have "64 - m = Suc (63 - m)" using m63 by simp
  then have "(?rest @ replicate (64 - m) 0)[m := 0x80] = ?rest @ 0x80 # replicate (63 - m) 0"
    using rl by (simp add: list_update_append)
  then show ?thesis unfolding w
    using or_byte_words [of "?rest @ replicate (64 - m) 0" ?n "0x80"] rl m m63 by (simp add: nth_append)
qed

lemma tail_fips:
  assumes m: "m = length p mod 64" "m \<noteq> 56" and n: "length p < 2 ^ 29"
  shows "fips_hash r (drop (length p - m) p @ fips_pad (length p)) = sha1_tail p r"
proof -
  let ?n = "length p" and ?q = "length p - m"
  let ?rest = "drop ?q p"
  have m63: "m \<le> 63" and mn: "m \<le> ?n" using m(1) by simp_all
  have rl: "length ?rest = m" using mn by simp
  note w = tail_block [OF m(1)]
  let ?len = "rev (le_bytes 8 (?n * 8))"
  have pad: "(55 - int ?n) mod 64 = (55 - int m) mod 64" unfolding m(1) by (simp add: zmod_int mod_diff_right_eq)
  show ?thesis
  proof (cases "m > 56")
    case False
    with m(2) have m55: "m \<le> 55" by simp
    then have "(55 - int m) mod 64 = 55 - int m" by simp
    then have "nat ((55 - int ?n) mod 64) = 55 - m" unfolding pad using m55 by (simp add: nat_diff_distrib)
    then have p: "?rest @ fips_pad ?n = (?rest @ 0x80 # replicate (55 - m) 0) @ ?len" by (simp add: fips_pad_def)
    let ?l = "?rest @ 0x80 # replicate (55 - m) (0 :: byte)"
    have l: "length ?l = 56" using rl m55 by simp
    have "?l @ replicate 8 0 = ?rest @ 0x80 # replicate (63 - m) 0"
      using m55 by (simp add: replicate_add [symmetric])
    then have "block_words (?l @ ?len) = (block_words (?rest @ 0x80 # replicate (63 - m) 0))[15 := word_of_nat (?n * 8)]"
      using length_block [OF l n] by simp
    moreover have "fips_hash r ((?l @ ?len) @ []) = fips_hash (fst (sha1mix (r, block_words (?l @ ?len)))) []"
      by (rule fips_hash_block) (use l in simp)
    ultimately show ?thesis unfolding p sha1_tail_def Let_def m(1) [symmetric] w using False by simp
  next
    case True
    then have "(55 - int m) mod 64 = 119 - int m" using m63 by (simp add: mod_pos_geq flip: mod_add_self2 [of "55 - int m" 64])
    then have "nat ((55 - int ?n) mod 64) = (63 - m) + 56" unfolding pad using m63 by (simp add: nat_diff_distrib)
    then have p: "?rest @ fips_pad ?n = (?rest @ 0x80 # replicate (63 - m) 0) @ (replicate 56 0 @ ?len)"
      by (simp add: fips_pad_def replicate_add)
    let ?b = "?rest @ 0x80 # replicate (63 - m) (0 :: byte)"
    have z: "block_words (replicate 64 0) = replicate 16 0"
      by (intro block_words_eqI [symmetric]) (auto simp: word_at_byte_def be4)
    have "block_words (replicate 56 0 @ ?len) = (replicate 16 0)[15 := word_of_nat (?n * 8)]"
      using length_block [of "replicate 56 0" ?n] n z by (simp add: replicate_add [symmetric])
    moreover have "fips_hash r (?b @ (replicate 56 0 @ ?len)) = fips_hash (fst (sha1mix (r, block_words ?b))) (replicate 56 0 @ ?len)"
      by (rule fips_hash_block) (use rl m63 in simp)
    moreover have "fips_hash r' ((replicate 56 0 @ ?len) @ []) = fips_hash (fst (sha1mix (r', block_words (replicate 56 0 @ ?len)))) []" for r'
      by (rule fips_hash_block) simp
    ultimately show ?thesis unfolding p sha1_tail_def Let_def m(1) [symmetric] w using True by simp
  qed
qed

lemma sha1_fips:
  assumes "length p < 2 ^ 29" "length p mod 64 \<noteq> 56" "length junk = 16"
  shows "sha1 junk p = fips_sha1 p"
proof -
  have "fips_hash sha1_init (drop 0 p @ fips_pad (length p)) =
    fips_hash (fst (sha1_blocks p 0 (sha1_init, junk))) (drop (length p - length p mod 64) p @ fips_pad (length p))"
    by (rule sha1_blocks_fips) (use assms in simp_all)
  also have "\<dots> = sha1_tail p (fst (sha1_blocks p 0 (sha1_init, junk)))"
    by (rule tail_fips) (use assms in simp_all)
  finally show ?thesis by (simp add: sha1_def fips_sha1_def)
qed

section \<open>Properties\<close>

text \<open>C31: The digest is SHA-1 of FIPS 180, for every message below 512 MB whose length is not 56 bytes more
  than a multiple of 64.\<close>

theorem sha1_is_fips180:
  assumes "length p < 2 ^ 29" "length p mod 64 \<noteq> 56" "length junk = 16"
  shows "sha1 junk p = fips_sha1 p"
  using assms by (rule sha1_fips)

lemma sha1_is_fips180_witness: "sha1 (replicate 16 0) (map of_char ''abc'') = fips_sha1 (map of_char ''abc'')"
  by (rule sha1_is_fips180) simp_all

text \<open>When the length is 56 bytes more than a multiple of 64, the digest is not that of the padded message:
  the marker is put in the word that should hold the high half of the length and the length behind it in
  the same block, where the standard takes a further block, so that 64 bytes of padding are missing.\<close>

theorem sha1_misses_a_block:
  assumes "length p mod 64 = 56" "length p < 2 ^ 29" "length junk = 16"
  shows "sha1 junk p = regs_bytes (fips_hash sha1_init (p @ [0x80, 0, 0, 0] @ rev (le_bytes 4 (length p * 8))))
    \<and> length ([0x80, 0, 0, 0] @ rev (le_bytes 4 (length p * 8))) + 64 = length (fips_pad (length p))"
proof -
  let ?n = "length p" and ?q = "length p - 56"
  let ?rest = "drop ?q p" and ?z = "rev (le_bytes 4 (length p * 8))"
  have mn: "56 \<le> ?n" using mod_less_eq_dividend [of ?n 64] assms(1) by simp
  then have rl: "length ?rest = 56" by simp
  have z: "le_nat (le_bytes 4 (?n * 8)) = ?n * 8" using assms(2) by (simp add: le_nat_le_bytes)
  let ?l = "?rest @ [0x80, 0, 0, 0 :: byte]"
  have len: "length (?l @ ?z) = 64" using rl by simp
  have words: "(block_words (?rest @ 0x80 # replicate 7 0))[15 := word_of_nat (?n * 8)] = block_words (?l @ ?z)"
  proof (rule block_words_eqI [OF len])
    fix k :: nat assume k: "k < 16"
    show "(block_words (?rest @ 0x80 # replicate 7 0))[15 := word_of_nat (?n * 8)] ! k = word_at_byte (?l @ ?z) k"
    proof (cases "k = 15")
      case True
      have "[?z ! 0, ?z ! 1, ?z ! 2, ?z ! 3] = ?z" by (rule list4) simp
      then have "word_at_byte (?l @ ?z) 15 = be_word ?z" using rl by (simp add: word_at_byte_def nth_append)
      then show ?thesis using True by (simp add: be_word_rev z)
    next
      case False
      have "?rest @ 0x80 # replicate 7 0 = ?l @ replicate 4 0" by (simp add: eval_nat_numeral)
      moreover have "length ?l = 60" using rl by simp
      ultimately have "(?rest @ 0x80 # replicate 7 0) ! i = (?l @ ?z) ! i" if "i < 60" for i
        using that by (simp only: nth_append if_True)
      then show ?thesis using False k rl by (simp add: block_words_at word_at_byte_def)
    qed
  qed simp
  have t: "sha1_tail p r = fips_hash r (?rest @ ([0x80, 0, 0, 0] @ ?z))" for r
  proof -
    have "fips_hash r ((?l @ ?z) @ []) = fips_hash (fst (sha1mix (r, block_words (?l @ ?z)))) []"
      by (rule fips_hash_block [OF len])
    then show ?thesis
      using tail_block [of 56 p] assms(1) words by (simp add: sha1_tail_def Let_def)
  qed
  have "fips_hash sha1_init (drop 0 p @ ([0x80, 0, 0, 0] @ ?z)) =
    fips_hash (fst (sha1_blocks p 0 (sha1_init, junk))) (drop (?n - ?n mod 64) p @ ([0x80, 0, 0, 0] @ ?z))"
    by (rule sha1_blocks_fips) (use assms in simp_all)
  then have "sha1 junk p = regs_bytes (fips_hash sha1_init (p @ [0x80, 0, 0, 0] @ ?z))"
    using t assms(1) by (simp add: sha1_def)
  moreover have "(55 - int ?n) mod 64 = 63"
  proof -
    have "(55 - int ?n) mod 64 = (55 - int ?n mod 64) mod 64" by (simp add: mod_diff_right_eq)
    also have "int ?n mod 64 = 56" using assms(1) of_nat_mod [of ?n 64, where 'a = int] by simp
    finally show ?thesis by simp
  qed
  ultimately show ?thesis by (simp add: fips_pad_def)
qed

lemma sha1_misses_a_block_witness:
  "sha1 (replicate 16 0) (replicate 56 97) =
    regs_bytes (fips_hash sha1_init (replicate 56 97 @ [0x80, 0, 0, 0] @ rev (le_bytes 4 448)))"
  using sha1_misses_a_block [of "replicate 56 97" "replicate 16 0"] by simp

end
