(* ===== verification/Websocket.thy ===== *)
theory Websocket
  imports Service_Api Base64 Sha1
begin

text \<open>
  Frames and the opening handshake of a websocket (\<open>websocket.c\<close>). A pointer into the input is an offset
  into the array \<open>m\<close> of its bytes; reading outside the array, a failed assertion and the use of a null
  pointer are \<open>None\<close>. What \<open>printf\<close> shows is left out.
\<close>

section \<open>Constants\<close>

definition connectionField :: "byte list" where "connectionField = bytes_of ''Connection: ''"
definition upgrade_text :: "byte list" where "upgrade_text = bytes_of ''upgrade''"
definition upgrade2 :: "byte list" where "upgrade2 = bytes_of ''Upgrade''"
definition upgradeField :: "byte list" where "upgradeField = bytes_of ''Upgrade: ''"
definition websocket :: "byte list" where "websocket = bytes_of ''websocket''"
definition hostField :: "byte list" where "hostField = bytes_of ''Host: ''"
definition originField :: "byte list" where "originField = bytes_of ''Origin: ''"
definition keyField :: "byte list" where "keyField = bytes_of ''Sec-WebSocket-Key: ''"
definition protocolField :: "byte list" where "protocolField = bytes_of ''Sec-WebSocket-Protocol: ''"
definition versionField :: "byte list" where "versionField = bytes_of ''Sec-WebSocket-Version: ''"
definition version :: "byte list" where "version = bytes_of ''13''"
definition secret :: "byte list" where "secret = bytes_of ''258EAFA5-E914-47DA-95CA-C5AB0DC85B11''"
definition rn :: "byte list" where "rn = [13, 10]"

datatype wsFrameType =
  WS_EMPTY_FRAME | WS_ERROR_FRAME | WS_INCOMPLETE_FRAME | WS_TEXT_FRAME | WS_BINARY_FRAME
| WS_PING_FRAME | WS_PONG_FRAME | WS_OPENING_FRAME | WS_CLOSING_FRAME

fun frame_code :: "wsFrameType \<Rightarrow> nat" where
  "frame_code WS_EMPTY_FRAME = 0xF0"
| "frame_code WS_ERROR_FRAME = 0xF1"
| "frame_code WS_INCOMPLETE_FRAME = 0xF2"
| "frame_code WS_TEXT_FRAME = 0x01"
| "frame_code WS_BINARY_FRAME = 0x02"
| "frame_code WS_PING_FRAME = 0x09"
| "frame_code WS_PONG_FRAME = 0x0A"
| "frame_code WS_OPENING_FRAME = 0xF3"
| "frame_code WS_CLOSING_FRAME = 0x08"

datatype wsState = WS_STATE_OPENING | WS_STATE_NORMAL | WS_STATE_CLOSING

record handshake =
  hs_host :: "byte list option"
  hs_origin :: "byte list option"
  hs_key :: "byte list option"
  hs_resource :: "byte list option"
  hs_frameType :: wsFrameType

definition nullHandshake :: handshake where
  "nullHandshake = \<lparr>hs_host = None, hs_origin = None, hs_key = None, hs_resource = None, hs_frameType = WS_EMPTY_FRAME\<rparr>"

section \<open>Frames\<close>

text \<open>\<open>htonl\<close> on a little-endian machine, and the 64-bit one of the code.\<close>

definition htonl :: "u32 \<Rightarrow> u32" where
  "htonl x = word_of_nat (le_nat (rev (le_bytes 4 (unat x))))"

definition htonll :: "u64 \<Rightarrow> u64" where
  "htonll v = push_bit 32 (ucast (htonl (ucast v))) + ucast (htonl (ucast (drop_bit 32 v)))"

definition htons :: "nat \<Rightarrow> byte list" where
  "htons n = rev (le_bytes 2 n)"

text \<open>The header and then the data; \<open>cap\<close> is the size of the output.\<close>

definition wsMakeFrame :: "byte list \<Rightarrow> nat \<Rightarrow> wsFrameType \<Rightarrow> byte list option" where
  "wsMakeFrame data cap frameType =
     (if cap = 0 \<or> frame_code frameType \<ge> 0x10 then None
      else
        let n = length data;
            out = (0x80 OR word_of_nat (frame_code frameType)) #
              (if n \<le> 125 then [word_of_nat n]
               else if n \<le> 0xFFFF then 126 # htons n
               else 127 # le_bytes 8 (unat (htonll (word_of_nat n)))) @ data in
        if length out \<le> cap then Some out else None)"

text \<open>The length of the payload, the bytes of its field behind the second byte, and the type of the frame.\<close>

definition getPayloadLength :: "byte list \<Rightarrow> nat \<Rightarrow> wsFrameType \<Rightarrow> nat \<times> nat \<times> wsFrameType" where
  "getPayloadLength m n frameType =
     (let payloadLength = unat (m ! 1 AND 0x7F) in
      if payloadLength = 0x7E \<and> n < 4 \<or> payloadLength = 0x7F \<and> n < 10 then (0, 0, WS_INCOMPLETE_FRAME)
      else if payloadLength = 0x7F \<and> m ! 3 AND 0x80 \<noteq> 0 then (0, 0, WS_ERROR_FRAME)
      else if payloadLength = 0x7E then (unat (m ! 2) * 256 + unat (m ! 3), 2, frameType)
      else if payloadLength = 0x7F then (0, 0, WS_ERROR_FRAME)
      else (payloadLength, 0, frameType))"

definition opcode_type :: "byte \<Rightarrow> wsFrameType option" where
  "opcode_type b =
     (if b = 0x01 then Some WS_TEXT_FRAME
      else if b = 0x02 then Some WS_BINARY_FRAME
      else if b = 0x08 then Some WS_CLOSING_FRAME
      else if b = 0x09 then Some WS_PING_FRAME
      else if b = 0x0A then Some WS_PONG_FRAME else None)"

text \<open>The loop that unmasks the data, with its index.\<close>

fun unmask :: "nat \<Rightarrow> byte list \<Rightarrow> byte list \<Rightarrow> byte list" where
  "unmask i key [] = []"
| "unmask i key (b # bs) = (b XOR key ! (i mod 4)) # unmask (Suc i) key bs"

text \<open>The type of the frame; its length, where the data is and how much, if they are set; and the input changed in place.\<close>

record ws_input =
  wi_type :: wsFrameType
  wi_read :: "nat option"
  wi_data :: "(nat \<times> nat) option"
  wi_frame :: "byte list"

definition wsParseInputFrame :: "byte list \<Rightarrow> nat \<Rightarrow> ws_input option" where
  "wsParseInputFrame m n =
     (let result = (\<lambda>t. \<lparr>wi_type = t, wi_read = None, wi_data = None, wi_frame = m\<rparr>) in
      if n = 0 \<or> n > length m then None
      else if n < 2 then Some (result WS_INCOMPLETE_FRAME)
      else if m ! 0 AND 0x70 \<noteq> 0 then Some (result WS_ERROR_FRAME)
      else if m ! 0 AND 0x80 \<noteq> 0x80 then Some (result WS_ERROR_FRAME)
      else if m ! 1 AND 0x80 \<noteq> 0x80 then Some (result WS_ERROR_FRAME)
      else
        case opcode_type (m ! 0 AND 0x0F) of
          None \<Rightarrow> Some (result WS_ERROR_FRAME)
        | Some frameType \<Rightarrow>
            (case getPayloadLength m n frameType of (payloadLength, extra, frameType) \<Rightarrow>
               if payloadLength > 0 then
                 if payloadLength + 6 + extra > n then Some (result WS_INCOMPLETE_FRAME)
                 else
                   let key = take 4 (drop (2 + extra) m); d = 2 + extra + 4 in
                   Some \<lparr>wi_type = frameType, wi_read = Some (payloadLength + 2 + extra + 4),
                         wi_data = Some (d, payloadLength),
                         wi_frame = take d m @ unmask 0 key (take payloadLength (drop d m)) @ drop (d + payloadLength) m\<rparr>
               else Some (result frameType)))"

section \<open>Strings\<close>

text \<open>The bytes at the front of an array are those of \<open>s\<close>, which has no NUL (\<open>strncmp\<close>).\<close>

fun strncmp_eq :: "byte list \<Rightarrow> byte list \<Rightarrow> bool option" where
  "strncmp_eq bs [] = Some True"
| "strncmp_eq [] (c # s) = None"
| "strncmp_eq (b # bs) (c # s) = (if b = c then strncmp_eq bs s else Some False)"

text \<open>\<open>strstr\<close>: the offset of the first occurrence before the NUL.\<close>

fun strstr :: "byte list \<Rightarrow> byte list \<Rightarrow> nat option option" where
  "strstr [] s = None"
| "strstr (b # bs) s = do {
     eq \<leftarrow> strncmp_eq (b # bs) s;
     if eq then Some (Some 0)
     else if b = 0 then Some None
     else map_option (map_option Suc) (strstr bs s) }"

text \<open>\<open>_strnstr\<close>: every occurrence of the first byte before the NUL is tried, up to the length \<open>len1\<close>.\<close>

fun strnstr :: "nat \<Rightarrow> byte list \<Rightarrow> nat \<Rightarrow> byte list \<Rightarrow> nat option option" where
  "strnstr p [] len1 s = None"
| "strnstr p (b # bs) len1 s =
     (if b = hd s then
        if p + length s > len1 then Some None
        else do {
          eq \<leftarrow> strncmp_eq (b # bs) s;
          if eq then Some (Some p) else strnstr (Suc p) bs len1 s }
      else if b = 0 then Some None
      else strnstr (Suc p) bs len1 s)"

definition to_lower :: "byte \<Rightarrow> byte" where
  "to_lower b = (if 65 \<le> b \<and> b \<le> 90 then b + 32 else b)"

section \<open>The handshake\<close>

text \<open>The value up to the end of the line; its length is kept in one byte.\<close>

definition getUptoLinefeed :: "byte list \<Rightarrow> byte list option" where
  "getUptoLinefeed bs = do {
     r \<leftarrow> strstr bs rn;
     d \<leftarrow> r;
     if d mod 256 = 0 then None else Some (take (d mod 256) bs) }"

record ws_lines_state =
  wl_hs :: handshake
  wl_connection :: bool
  wl_upgrade :: bool
  wl_subprotocol :: bool
  wl_mismatch :: bool

text \<open>The field at the front of a line: the state after it, and the length of its name.\<close>

definition ws_field :: "byte list \<Rightarrow> ws_lines_state \<Rightarrow> (nat \<times> ws_lines_state) option" where
  "ws_field bs st = do {
     host \<leftarrow> memcmp_eq bs hostField (length hostField);
     if host then do {
       v \<leftarrow> getUptoLinefeed (drop (length hostField) bs);
       Some (length hostField, st\<lparr>wl_hs := (wl_hs st)\<lparr>hs_host := Some v\<rparr>\<rparr>) }
     else do {
     origin \<leftarrow> memcmp_eq bs originField (length originField);
     if origin then do {
       v \<leftarrow> getUptoLinefeed (drop (length originField) bs);
       Some (length originField, st\<lparr>wl_hs := (wl_hs st)\<lparr>hs_origin := Some v\<rparr>\<rparr>) }
     else do {
     protocol \<leftarrow> memcmp_eq bs protocolField (length protocolField);
     if protocol then Some (length protocolField, st\<lparr>wl_subprotocol := True\<rparr>)
     else do {
     key \<leftarrow> memcmp_eq bs keyField (length keyField);
     if key then do {
       v \<leftarrow> getUptoLinefeed (drop (length keyField) bs);
       Some (length keyField, st\<lparr>wl_hs := (wl_hs st)\<lparr>hs_key := Some v\<rparr>\<rparr>) }
     else do {
     ver \<leftarrow> memcmp_eq bs versionField (length versionField);
     if ver then do {
       v \<leftarrow> getUptoLinefeed (drop (length versionField) bs);
       eq \<leftarrow> memcmp_eq (v @ [0]) version (length version);
       Some (length versionField, if eq then st else st\<lparr>wl_mismatch := True\<rparr>) }
     else do {
     connection \<leftarrow> memcmp_eq bs connectionField (length connectionField);
     if connection then do {
       v \<leftarrow> getUptoLinefeed (drop (length connectionField) bs);
       r \<leftarrow> strstr (map to_lower v @ [0]) upgrade_text;
       Some (length connectionField, if r \<noteq> None then st\<lparr>wl_connection := True\<rparr> else st) }
     else do {
     upgrade \<leftarrow> memcmp_eq bs upgradeField (length upgradeField);
     if upgrade then do {
       v \<leftarrow> getUptoLinefeed (drop (length upgradeField) bs);
       eq \<leftarrow> memcmp_eq (map to_lower v @ [0]) websocket (length websocket);
       Some (length upgradeField, if eq then st\<lparr>wl_upgrade := True\<rparr> else st) }
     else Some (0, st) }}}}}}}"

text \<open>One round of the loop over the lines: the offset of the next line.\<close>

definition ws_line :: "byte list \<Rightarrow> nat \<Rightarrow> ws_lines_state \<Rightarrow> (nat \<times> ws_lines_state) option" where
  "ws_line m p st = do {
     (k, st) \<leftarrow> ws_field (drop p m) st;
     r \<leftarrow> strstr (drop (p + k) m) rn;
     d \<leftarrow> r;
     Some (p + k + d + 2, st) }"

lemma ws_line_advances: "ws_line m p st = Some (p', st') \<Longrightarrow> p < p'"
  by (auto simp: ws_line_def bind_eq_Some_conv)

function ws_lines :: "byte list \<Rightarrow> nat \<Rightarrow> nat \<Rightarrow> ws_lines_state \<Rightarrow> ws_lines_state option" where
  "ws_lines m n p st =
     (if p < n then
        if p \<ge> length m then None
        else if m ! p = 13 then Some st
        else if p + 1 \<ge> length m then None
        else if m ! (p + 1) = 10 then Some st
        else
          (case ws_line m p st of
             None \<Rightarrow> None
           | Some (p, st) \<Rightarrow> ws_lines m n p st)
      else Some st)"
  by pat_completeness auto
termination by (relation "measure (\<lambda>(m, n, p, st). n - p)") (auto dest: ws_line_advances)

declare ws_lines.simps [simp del]

text \<open>
  \<open>sscanf (inputPtr, "GET %s HTTP/1.1\r\n", resource)\<close>: the word behind \<open>GET\<close>, which must fit the
  \<open>size\<close> bytes of the resource. \<open>Some None\<close> is a failed match, which leaves the bytes
  of the resource uninitialised.
\<close>

definition scan_resource :: "byte list \<Rightarrow> nat \<Rightarrow> byte list option option" where
  "scan_resource m sz =
     (let r = dropWhile isspace (drop 3 m); w = takeWhile (\<lambda>b. \<not> isspace b \<and> b \<noteq> 0) r in
      if length w = length r then None
      else if w = [] then Some None
      else if length w + 1 > sz then None
      else Some (Some w))"

definition wsParseHandshake :: "byte list \<Rightarrow> nat \<Rightarrow> handshake \<Rightarrow> (wsFrameType \<times> handshake) option" where
  "wsParseHandshake m n hs = do {
     crlf \<leftarrow> strnstr 0 m n [13, 10, 13, 10];
     if crlf = None then Some (WS_INCOMPLETE_FRAME, hs)
     else do {
     get \<leftarrow> memcmp_eq m (bytes_of ''GET '') 4;
     if \<not> get then Some (WS_ERROR_FRAME, hs)
     else do {
     r \<leftarrow> strchr m 32;
     case r of None \<Rightarrow> Some (WS_ERROR_FRAME, hs)
     | Some first \<Rightarrow> do {
     r \<leftarrow> strchr (drop (first + 1) m) 32;
     case r of None \<Rightarrow> Some (WS_ERROR_FRAME, hs)
     | Some sz \<Rightarrow> do {
     w \<leftarrow> scan_resource m (sz + 1);
     case w of None \<Rightarrow> Some (WS_ERROR_FRAME, hs\<lparr>hs_resource := Some []\<rparr>)
     | Some w \<Rightarrow> do {
     r \<leftarrow> strstr m rn;
     d \<leftarrow> r;
     st \<leftarrow> ws_lines m n (d + 2) \<lparr>wl_hs = hs\<lparr>hs_resource := Some w\<rparr>, wl_connection = False, wl_upgrade = False,
              wl_subprotocol = False, wl_mismatch = False\<rparr>;
     let hs = wl_hs st;
     let t = (if hs_host hs = None \<or> hs_key hs = None \<or> \<not> wl_connection st \<or> \<not> wl_upgrade st \<or> wl_subprotocol st \<or> wl_mismatch st
              then WS_INCOMPLETE_FRAME else WS_OPENING_FRAME);
     Some (t, hs\<lparr>hs_frameType := t\<rparr>) }}}}}}"

text \<open>
  The answer. \<open>junk\<close> is the uninitialised array of the digest. The NUL behind the encoded key is written
  to the array of the key and the secret.
\<close>

definition wsGetHandshakeAnswer :: "u32 list \<Rightarrow> handshake \<Rightarrow> nat \<Rightarrow> byte list option" where
  "wsGetHandshakeAnswer junk hs cap =
     (if cap = 0 \<or> hs_frameType hs \<noteq> WS_OPENING_FRAME then None
      else do {
        key \<leftarrow> hs_key hs;
        let responseKey = key @ secret;
        let (code, n) = base64 (length responseKey) (sha1 junk responseKey);
        if n \<ge> length responseKey then None
        else do {
          let out = bytes_of ''HTTP/1.1 101 Switching Protocols'' @ rn @ upgradeField @ websocket @ rn
                @ connectionField @ upgrade2 @ rn @ bytes_of ''Sec-WebSocket-Accept: '' @ code @ rn @ rn;
          if length out < cap then Some out else None } })"

end
