(* ===== verification/Websocket_Frame.thy ===== *)
theory Websocket_Frame
  imports Websocket
begin

text \<open>
  The frames of RFC 6455 and the code for them: what \<open>wsMakeFrame\<close> writes is the frame of a server, and
  \<open>wsParseInputFrame\<close> takes the frame of a client apart.
\<close>

section \<open>Frames of the standard\<close>

text \<open>The length of the payload with the masking bit, in network order.\<close>

definition rfc_length :: "byte \<Rightarrow> nat \<Rightarrow> byte list" where
  "rfc_length msk n =
     (if n \<le> 125 then [msk OR word_of_nat n]
      else if n \<le> 0xFFFF then (msk OR 126) # rev (le_bytes 2 n)
      else (msk OR 127) # rev (le_bytes 8 n))"

definition server_frame :: "wsFrameType \<Rightarrow> byte list \<Rightarrow> byte list" where
  "server_frame t d = (0x80 OR word_of_nat (frame_code t)) # rfc_length 0 (length d) @ d"

definition client_frame :: "wsFrameType \<Rightarrow> byte list \<Rightarrow> byte list \<Rightarrow> byte list" where
  "client_frame t key d = (0x80 OR word_of_nat (frame_code t)) # rfc_length 0x80 (length d) @ key @ unmask 0 key d"

definition data_type :: "wsFrameType \<Rightarrow> bool" where
  "data_type t \<longleftrightarrow> t \<in> {WS_TEXT_FRAME, WS_BINARY_FRAME, WS_PING_FRAME, WS_PONG_FRAME, WS_CLOSING_FRAME}"

section \<open>Lemmas\<close>

lemma length_unmask [simp]: "length (unmask i key bs) = length bs"
  by (induction bs arbitrary: i) simp_all

lemma unmask_unmask [simp]: "unmask i key (unmask i key bs) = bs"
  by (induction bs arbitrary: i) (simp_all add: xor.assoc)

lemma mask_bit:
  "(0x80 OR w) AND 0x80 = 0x80" "(0x80 OR w) AND 0x7F = w AND 0x7F" for w :: byte
  by (simp_all add: bit.conj_disj_distrib2)

lemma low_bits: "n < 128 \<Longrightarrow> unat ((word_of_nat n :: byte) AND 0x7F) = n"
proof -
  assume n: "n < 128"
  have "(word_of_nat n :: byte) AND 0x7F = take_bit 7 (word_of_nat n)" by (simp add: take_bit_eq_mask mask_eq_decr_exp)
  then show ?thesis using n by (simp only: unsigned_take_bit_eq) (simp add: unat_of_nat take_bit_eq_mod)
qed

lemma type_bits:
  assumes "data_type t"
  shows "(0x80 OR word_of_nat (frame_code t)) AND 0x70 = (0 :: byte)"
    "(0x80 OR word_of_nat (frame_code t)) AND 0x80 = (0x80 :: byte)"
    "opcode_type ((0x80 OR word_of_nat (frame_code t)) AND 0x0F) = Some t"
  using assms by (auto simp: data_type_def opcode_type_def)

lemma two_bytes: "n \<le> 0xFFFF \<Longrightarrow> rev (le_bytes 2 n) = [word_of_nat (n div 256), word_of_nat n]"
  by (simp add: numeral_2_eq_2)

lemma two_bytes_value: "n \<le> 0xFFFF \<Longrightarrow> unat (word_of_nat (n div 256) :: byte) * 256 + unat (word_of_nat n :: byte) = n"
proof -
  assume "n \<le> 0xFFFF"
  then have "n div 256 < 256" by (simp add: less_mult_imp_div_less)
  then show ?thesis by (simp add: unat_of_nat)
qed

text \<open>The head of a client's frame, before its key.\<close>

lemma client_frame_head:
  assumes d: "0 < length d" "length d \<le> 0xFFFF"
  obtains ext where "rfc_length 0x80 (length d) = (0x80 OR (if length d \<le> 125 then word_of_nat (length d) else 126)) # ext"
    "length ext = (if length d \<le> 125 then 0 else 2)"
    "length d > 125 \<Longrightarrow> ext = [word_of_nat (length d div 256), word_of_nat (length d)]"
proof (cases "length d \<le> 125")
  case True
  then show ?thesis by (intro that [of "[]"]) (simp_all add: rfc_length_def)
next
  case False
  then show ?thesis using d by (intro that [of "rev (le_bytes 2 (length d))"]) (simp_all add: rfc_length_def two_bytes)
qed

lemma payload_length:
  assumes d: "0 < length d" "length d \<le> 0xFFFF"
    and m: "m = b0 # rfc_length 0x80 (length d) @ more'" and n: "(if length d \<le> 125 then 2 else 4) \<le> n"
  shows "getPayloadLength m n t = (length d, if length d \<le> 125 then 0 else 2, t)"
proof (cases "length d \<le> 125")
  case True
  then have "m ! 1 = 0x80 OR word_of_nat (length d)" using m by (simp add: rfc_length_def)
  then have "unat (m ! 1 AND 0x7F) = length d" using True by (simp add: mask_bit low_bits)
  then show ?thesis using True by (simp add: getPayloadLength_def)
next
  case False
  then have m': "m ! 1 = 0x80 OR 126" "m ! 2 = word_of_nat (length d div 256)" "m ! 3 = word_of_nat (length d)"
    using m d by (simp_all add: rfc_length_def two_bytes)
  have "unat (m ! 1 AND 0x7F) = 126" unfolding m'(1) mask_bit by simp
  then show ?thesis using False n two_bytes_value [OF d(2)] m' by (simp add: getPayloadLength_def)
qed

lemma parse_client_frame:
  assumes t: "data_type t" and d: "0 < length d" "length d \<le> 0xFFFF" and k: "length key = 4"
    and n: "length (client_frame t key d) \<le> n" "n \<le> length (client_frame t key d @ rest)"
  shows "wsParseInputFrame (client_frame t key d @ rest) n =
    Some \<lparr>wi_type = t, wi_read = Some (length (client_frame t key d)),
      wi_data = Some (length (client_frame t key d) - length d, length d),
      wi_frame = take (length (client_frame t key d) - length d) (client_frame t key d) @ d @ rest\<rparr>"
proof -
  let ?b0 = "0x80 OR word_of_nat (frame_code t) :: byte"
  define e where "e = (if length d \<le> 125 then 0 else 2 :: nat)"
  obtain ext where ext: "rfc_length 0x80 (length d) = (0x80 OR (if length d \<le> 125 then word_of_nat (length d) else 126)) # ext"
    "length ext = e" using client_frame_head [OF d] unfolding e_def by blast
  let ?f = "client_frame t key d" and ?m = "client_frame t key d @ rest"
  define h where "h = ?b0 # rfc_length 0x80 (length d)"
  have h: "length h = 2 + e" "h ! 0 = ?b0" "h ! 1 AND 0x80 = 0x80" using ext by (simp_all add: h_def mask_bit)
  have f: "?f = h @ key @ unmask 0 key d" by (simp add: client_frame_def h_def)
  have l: "length ?f = 6 + e + length d" using f h k by simp
  have m0: "?m ! 0 = ?b0" "?m ! 1 AND 0x80 = 0x80" using h f by (simp_all add: nth_append)
  have "getPayloadLength ?m n t = (length d, if length d \<le> 125 then 0 else 2, t)"
  proof (rule payload_length [OF d])
    show "?m = ?b0 # rfc_length 0x80 (length d) @ (key @ unmask 0 key d @ rest)" by (simp add: client_frame_def)
    show "(if length d \<le> 125 then 2 else 4) \<le> n" using l n(1) by (simp add: e_def split: if_splits)
  qed
  then have p: "getPayloadLength ?m n t = (length d, e, t)" by (simp add: e_def)
  have parts: "take 4 (drop (2 + e) ?m) = key" "take (2 + e + 4) ?m = h @ key" "drop (2 + e + 4) ?m = unmask 0 key d @ rest"
    "drop (2 + e + 4 + length d) ?m = rest" "take (6 + e) ?f = h @ key"
    using h(1) k l f by simp_all
  have g: "n \<noteq> 0" "\<not> n > length ?m" "\<not> n < 2" "length d > 0" "\<not> length d + 6 + e > n" using n l d by auto
  show ?thesis
    using g m0 type_bits [OF t]
    by (simp only: wsParseInputFrame_def Let_def p parts prod.case option.case if_False if_True simp_thms
          l) (simp add: parts)
qed

text \<open>A part of a client's frame.\<close>

lemma parse_part:
  assumes t: "data_type t" and d: "0 < length d" "length d \<le> 0xFFFF" and k: "length key = 4"
    and n: "0 < n" "n < length (client_frame t key d)" "n \<le> length m" "take n m = take n (client_frame t key d)"
  shows "wsParseInputFrame m n = Some \<lparr>wi_type = WS_INCOMPLETE_FRAME, wi_read = None, wi_data = None, wi_frame = m\<rparr>"
proof (cases "n < 2")
  case True
  with n show ?thesis by (simp add: wsParseInputFrame_def)
next
  case n2: False
  let ?f = "client_frame t key d"
  define e where "e = (if length d \<le> 125 then 0 else 2 :: nat)"
  obtain ext where ext: "rfc_length 0x80 (length d) = (0x80 OR (if length d \<le> 125 then word_of_nat (length d) else 126)) # ext"
    "length ext = e" "length d > 125 \<Longrightarrow> ext = [word_of_nat (length d div 256), word_of_nat (length d)]"
    using client_frame_head [OF d] unfolding e_def by metis
  have at: "m ! i = ?f ! i" if "i < n" for i using n(4) that by (metis nth_take)
  have f: "?f ! 0 = 0x80 OR word_of_nat (frame_code t)" "?f ! 1 = 0x80 OR (if length d \<le> 125 then word_of_nat (length d) else 126)"
    "length d > 125 \<Longrightarrow> ?f ! 2 = word_of_nat (length d div 256) \<and> ?f ! 3 = word_of_nat (length d)"
    using ext by (simp_all add: client_frame_def numeral_2_eq_2 numeral_3_eq_3)
  have l: "length ?f = 6 + e + length d" using ext k by (simp add: client_frame_def)
  have m0: "m ! 0 = 0x80 OR word_of_nat (frame_code t)" "m ! 1 AND 0x80 = 0x80"
    using at [of 0] at [of 1] n2 f by (simp_all add: mask_bit)
  have p: "getPayloadLength m n t = (0, 0, WS_INCOMPLETE_FRAME) \<or> getPayloadLength m n t = (length d, e, t)"
  proof (cases "length d \<le> 125")
    case True
    then have "unat (m ! 1 AND 0x7F) = length d" using at [of 1] n2 f by (simp add: mask_bit low_bits)
    then show ?thesis using True by (simp add: getPayloadLength_def e_def)
  next
    case False
    then have "m ! 1 AND 0x7F = 126 AND 0x7F" using at [of 1] n2 f by (simp only: mask_bit) (simp add: mask_bit)
    then have "unat (m ! 1 AND 0x7F) = 126" by simp
    then show ?thesis using False at [of 2] at [of 3] f(3) two_bytes_value [OF d(2)] by (simp add: getPayloadLength_def e_def)
  qed
  have g: "n \<noteq> 0" "\<not> n > length m" "\<not> n < 2" "length d > 0" "length d + 6 + e > n" using n n2 l d by auto
  from p show ?thesis
    by (rule disjE) (use g m0 type_bits [OF t] in \<open>simp_all add: wsParseInputFrame_def Let_def\<close>)
qed

text \<open>The frame that the server makes.\<close>

lemma htonll_bytes: "n < 2 ^ 64 \<Longrightarrow> le_bytes 8 (unat (htonll (word_of_nat n))) = rev (le_bytes 8 n)"
proof -
  assume n: "n < 2 ^ 64"
  have h: "unat (htonl x) = le_nat (rev (le_bytes 4 (unat x)))" for x
    using le_nat_bound [of "rev (le_bytes 4 (unat x))"] by (simp add: htonl_def unat_of_nat)
  have b: "le_bytes 4 (unat (htonl x)) = rev (le_bytes 4 (unat x))" for x
    unfolding h using le_bytes_le_nat [of "rev (le_bytes 4 (unat x))"] by simp
  define v where "v = (word_of_nat n :: u64)"
  define hi where "hi = (ucast (drop_bit 32 v) :: u32)"
  define lo where "lo = (ucast v :: u32)"
  have v: "unat v = n" unfolding v_def using n by (simp add: unat_of_nat)
  have un: "unat lo = n mod 2 ^ 32" "unat hi = n div 2 ^ 32"
    unfolding lo_def hi_def using n
    by (simp_all add: unsigned_ucast_eq take_bit_eq_mod unat_drop v less_mult_imp_div_less)
  have lt: "unat (htonl x) < 2 ^ 32" for x using unsigned_less [where w = "htonl x" and 'a = nat] by simp
  have sum: "unat (htonll v) = unat (htonl lo) * 2 ^ 32 + unat (htonl hi)"
  proof -
    have "unat (push_bit 32 (ucast (htonl lo)) :: u64) = unat (htonl lo) * 2 ^ 32"
      using lt [of lo] by (subst unsigned_push_bit_eq) (simp add: push_bit_eq_mult take_bit_eq_mod unsigned_ucast_eq)
    moreover have "unat (ucast (htonl hi) :: u64) = unat (htonl hi)" using lt [of hi] by (simp add: unsigned_ucast_eq take_bit_eq_mod)
    moreover have "unat (htonl lo) * 2 ^ 32 + unat (htonl hi) < 2 ^ 64" using lt [of lo] lt [of hi] by simp
    ultimately show ?thesis by (simp add: htonll_def lo_def [symmetric] hi_def [symmetric] unat_word_ariths)
  qed
  have "le_bytes 8 (unat (htonll v)) = le_bytes 4 (unat (htonll v)) @ le_bytes 4 (unat (htonll v) div 2 ^ 32)"
    using le_bytes_add [of 4 4 "unat (htonll v)"] by simp
  also have "le_bytes 4 (unat (htonll v)) = le_bytes 4 (unat (htonl hi))"
    unfolding sum using le_bytes_mod [of 4 "unat (htonl lo) * 2 ^ 32 + unat (htonl hi)"] lt [of hi] by simp
  also have "unat (htonll v) div 2 ^ 32 = unat (htonl lo)" unfolding sum using lt [of hi] by simp
  also have "le_bytes 4 (unat (htonl hi)) @ le_bytes 4 (unat (htonl lo)) = rev (le_bytes 4 (unat lo) @ le_bytes 4 (unat hi))"
    unfolding b by simp
  also have "le_bytes 4 (unat lo) @ le_bytes 4 (unat hi) = le_bytes 8 n"
    unfolding un using le_bytes_mod [of 4 n] le_bytes_add [of 4 4 n] by simp
  finally show ?thesis unfolding v_def .
qed

lemma make_server_frame:
  assumes "data_type t" "length d < 2 ^ 64" "length (server_frame t d) \<le> cap"
  shows "wsMakeFrame d cap t = Some (server_frame t d)"
proof -
  have c: "\<not> (cap = 0 \<or> frame_code t \<ge> 0x10)" using assms(1,3) by (auto simp: data_type_def server_frame_def)
  have z: "0 OR w = w" for w :: byte by simp
  show ?thesis
    using assms(3) htonll_bytes [OF assms(2)] c
    by (auto simp: wsMakeFrame_def server_frame_def rfc_length_def htons_def Let_def z split: if_splits)
qed

section \<open>Properties\<close>



end
