(* ===== verification/Websocket_Handshake.thy ===== *)
theory Websocket_Handshake
  imports Websocket_Frame "HOL-Library.Sublist"
begin

text \<open>
  What the opening handshake of a websocket promises: a request, as the list of its header lines, is
  accepted exactly when it has the fields that the protocol asks for, and is answered with the digest of its
  key. The parser works on the bytes of the request with the functions of the C library; the lemmas relate
  those to prefixes and sublists.
\<close>

section \<open>Requests\<close>

text \<open>A request for a resource, with its header lines.\<close>

definition request :: "byte list \<Rightarrow> byte list list \<Rightarrow> byte list" where
  "request resource headers =
     bytes_of ''GET '' @ resource @ bytes_of '' HTTP/1.1'' @ rn @ concat (map (\<lambda>l. l @ rn) headers) @ rn"

definition resource_ok :: "byte list \<Rightarrow> bool" where
  "resource_ok r \<longleftrightarrow> r \<noteq> [] \<and> list_all (\<lambda>b. \<not> isspace b \<and> b \<noteq> 0) r"

text \<open>The values of a field.\<close>

definition field_values :: "byte list \<Rightarrow> byte list list \<Rightarrow> byte list list" where
  "field_values f headers = map (drop (length f)) (filter (prefix f) headers)"

definition value_ok :: "byte list \<Rightarrow> byte list \<Rightarrow> bool" where
  "value_ok l f \<longleftrightarrow> (prefix f l \<longrightarrow> length f < length l \<and> length l < length f + 256)"

definition header_ok :: "byte list \<Rightarrow> bool" where
  "header_ok l \<longleftrightarrow> l \<noteq> [] \<and> list_all (\<lambda>b. b \<noteq> 0 \<and> b \<noteq> 10 \<and> b \<noteq> 13) l
     \<and> list_all (value_ok l) [hostField, originField, keyField, versionField, connectionField, upgradeField]"

text \<open>A request to open a websocket: what the protocol asks of its fields.\<close>

definition opens :: "byte list list \<Rightarrow> bool" where
  "opens headers \<longleftrightarrow> field_values hostField headers \<noteq> [] \<and> field_values keyField headers \<noteq> []
     \<and> list_ex (\<lambda>v. sublist upgrade_text (map to_lower v)) (field_values connectionField headers)
     \<and> list_ex (\<lambda>v. prefix websocket (map to_lower v)) (field_values upgradeField headers)
     \<and> field_values protocolField headers = [] \<and> list_all (prefix version) (field_values versionField headers)"

section \<open>The functions of the C library\<close>

text \<open>A comparison with \<open>s\<close> stops at a byte that \<open>s\<close> does not have.\<close>

lemma strncmp_eq_stop: "z \<notin> set s \<Longrightarrow> strncmp_eq (w @ z # r) s = Some (prefix s w)"
proof (induction s arbitrary: w)
  case (Cons c s)
  then show ?case by (cases w) auto
qed simp

lemma memcmp_eq_stop: "z \<notin> set s \<Longrightarrow> memcmp_eq (w @ z # r) s (length s) = Some (prefix s w)"
proof (induction s arbitrary: w)
  case (Cons c s)
  then show ?case by (cases w) auto
qed simp

lemma strncmp_eq_long: "length s \<le> length bs \<Longrightarrow> strncmp_eq bs s \<noteq> None"
  by (induction bs s rule: strncmp_eq.induct) auto

lemma strstr_line: "13 \<notin> set w \<Longrightarrow> 0 \<notin> set w \<Longrightarrow> strstr (w @ rn @ r) rn = Some (Some (length w))"
  by (induction w) (auto simp: rn_def)

lemma strstr_text:
  "0 \<notin> set w \<Longrightarrow> 0 \<notin> set s \<Longrightarrow> s \<noteq> [] \<Longrightarrow> \<exists>x. strstr (w @ [0]) s = Some x \<and> (x \<noteq> None \<longleftrightarrow> sublist s w)"
proof (induction w)
  case Nil
  then show ?case using strncmp_eq_stop [of 0 s "[]" "[]"] by simp
next
  case (Cons b w)
  then obtain x where x: "strstr (w @ [0]) s = Some x" "x \<noteq> None \<longleftrightarrow> sublist s w" by auto
  have "strncmp_eq ((b # w) @ 0 # []) s = Some (prefix s (b # w))" by (rule strncmp_eq_stop) (use Cons.prems in simp)
  then have "strstr ((b # w) @ [0]) s = (if prefix s (b # w) then Some (Some 0) else map_option (map_option Suc) (strstr (w @ [0]) s))"
    using Cons.prems(1) by simp
  then show ?case using x by (auto simp: sublist_Cons_right)
qed

lemma strchr_first: "c \<notin> set w \<Longrightarrow> 0 \<notin> set w \<Longrightarrow> strchr (w @ c # r) c = Some (Some (length w))"
  by (induction w) auto

lemma strnstr_finds:
  "0 \<notin> set w \<Longrightarrow> p + length w + length s \<le> n \<Longrightarrow> s \<noteq> [] \<Longrightarrow> \<exists>q. strnstr p (w @ s @ r) n s = Some (Some q)"
proof (induction w arbitrary: p)
  case Nil
  have "strncmp_eq (s @ r) s = Some True"
  proof (induction s)
    case (Cons c s)
    then show ?case by simp
  qed simp
  with Nil show ?case by (cases s) auto
next
  case (Cons b w)
  have "strncmp_eq (b # w @ s @ r) s \<noteq> None" by (rule strncmp_eq_long) simp
  moreover have "\<exists>q. strnstr (Suc p) (w @ s @ r) n s = Some (Some q)" using Cons by simp
  ultimately show ?case using Cons.prems by auto
qed

lemma to_lower_nul: "to_lower b = 0 \<longleftrightarrow> b = 0"
proof -
  have "b = -32" if "b + 32 = 0" using that by (simp add: eq_neg_iff_add_eq_0)
  then show ?thesis by (auto simp: to_lower_def)
qed

section \<open>One header\<close>

text \<open>What a line changes: every field is looked at on its own.\<close>

definition read_header :: "byte list \<Rightarrow> ws_lines_state \<Rightarrow> ws_lines_state" where
  "read_header l st = st\<lparr>
     wl_hs := (wl_hs st)\<lparr>
       hs_host := (if prefix hostField l then Some (drop (length hostField) l) else hs_host (wl_hs st)),
       hs_origin := (if prefix originField l then Some (drop (length originField) l) else hs_origin (wl_hs st)),
       hs_key := (if prefix keyField l then Some (drop (length keyField) l) else hs_key (wl_hs st))\<rparr>,
     wl_connection := wl_connection st \<or>
       prefix connectionField l \<and> sublist upgrade_text (map to_lower (drop (length connectionField) l)),
     wl_upgrade := wl_upgrade st \<or> prefix upgradeField l \<and> prefix websocket (map to_lower (drop (length upgradeField) l)),
     wl_subprotocol := wl_subprotocol st \<or> prefix protocolField l,
     wl_mismatch := wl_mismatch st \<or> prefix versionField l \<and> \<not> prefix version (drop (length versionField) l)\<rparr>"

definition ws_fields :: "byte list list" where
  "ws_fields = [hostField, originField, protocolField, keyField, versionField, connectionField, upgradeField]"

lemma fields_in:
  "hostField \<in> set ws_fields" "originField \<in> set ws_fields" "protocolField \<in> set ws_fields" "keyField \<in> set ws_fields"
  "versionField \<in> set ws_fields" "connectionField \<in> set ws_fields" "upgradeField \<in> set ws_fields"
  by (simp_all add: ws_fields_def)

lemma fields_text: "list_all (\<lambda>f. 13 \<notin> set f) ws_fields" "0 \<notin> set upgrade_text" "upgrade_text \<noteq> []" "0 \<notin> set websocket"
  "0 \<notin> set version"
  by code_simp+

lemma fields_apart: "f \<in> set ws_fields \<Longrightarrow> g \<in> set ws_fields \<Longrightarrow> prefix f g \<Longrightarrow> f = g"
proof -
  have "list_all (\<lambda>f. list_all (\<lambda>g. prefix f g \<longrightarrow> f = g) ws_fields) ws_fields" by code_simp
  then show "f \<in> set ws_fields \<Longrightarrow> g \<in> set ws_fields \<Longrightarrow> prefix f g \<Longrightarrow> f = g" by (auto simp: list_all_iff)
qed

lemma fields_once: "prefix f l \<Longrightarrow> prefix g l \<Longrightarrow> f \<in> set ws_fields \<Longrightarrow> g \<in> set ws_fields \<Longrightarrow> f = g"
  using prefix_same_cases [of f l g] fields_apart by blast

lemma fields_distinct: "distinct ws_fields"
  by code_simp

lemma field_test: "f \<in> set ws_fields \<Longrightarrow> memcmp_eq (l @ rn @ r) f (length f) = Some (prefix f l)"
  using fields_text(1) memcmp_eq_stop [of 13 f l "10 # r"] by (auto simp: rn_def list_all_iff)

lemma value_read:
  assumes "header_ok l" "prefix f l" "f \<in> set [hostField, originField, keyField, versionField, connectionField, upgradeField]"
  shows "getUptoLinefeed (drop (length f) (l @ rn @ r)) = Some (drop (length f) l)"
proof -
  let ?v = "drop (length f) l"
  have "value_ok l f" using assms by (auto simp: header_ok_def)
  then have v: "0 < length ?v" "length ?v < 256" "length f \<le> length l" using assms(2) by (auto simp: value_ok_def)
  have "13 \<notin> set ?v" "0 \<notin> set ?v" using assms(1) set_drop_subset [of "length f" l] by (auto simp: header_ok_def list_all_iff)
  from strstr_line [OF this, of r] v show ?thesis by (simp add: getUptoLinefeed_def)
qed

lemma lower_no_nul: "0 \<notin> set v \<Longrightarrow> 0 \<notin> set (map to_lower v)"
  using to_lower_nul by auto

lemma ws_field_header:
  assumes l: "header_ok l"
  shows "\<exists>k \<le> length l. ws_field (l @ rn @ r) st = Some (k, read_header l st)"
proof -
  note test = fields_in [THEN field_test, of l r]
  have only: "\<not> prefix g l" if "prefix f l" "f \<in> set ws_fields" "g \<in> set ws_fields" "f \<noteq> g" for f g
    using that fields_once by blast
  note ne = fields_distinct [unfolded ws_fields_def, simplified]
  have k: "length f \<le> length l" if "prefix f l" for f using that by (rule prefix_length_le)
  have nul: "0 \<notin> set (drop i l)" for i using l set_drop_subset [of i l] by (auto simp: header_ok_def list_all_iff)
  have conn: "\<exists>x. strstr (map to_lower (drop i l) @ [0]) upgrade_text = Some x
      \<and> (x \<noteq> None \<longleftrightarrow> sublist upgrade_text (map to_lower (drop i l)))" for i
    by (rule strstr_text [OF lower_no_nul [OF nul] fields_text(2,3)])
  have ver: "memcmp_eq (drop i l @ [0]) version (length version) = Some (prefix version (drop i l))" for i
    using memcmp_eq_stop [OF fields_text(5)] by simp
  have web: "memcmp_eq (map to_lower (drop i l) @ [0]) websocket (length websocket) = Some (prefix websocket (map to_lower (drop i l)))" for i
    using memcmp_eq_stop [OF fields_text(4)] by simp
  consider (field) f where "f \<in> set ws_fields" "prefix f l" | (other) "\<forall>f \<in> set ws_fields. \<not> prefix f l" by blast
  then show ?thesis
  proof cases
    case other
    then show ?thesis unfolding ws_field_def by (simp add: test ws_fields_def read_header_def)
  next
    case (field f)
    have no: "\<not> prefix g l" if "g \<in> set ws_fields" "g \<noteq> f" for g using only [OF field(2,1) that(1)] that(2) by blast
    note nos = fields_in [THEN no]
    from field(1) consider "f = hostField" | "f = originField" | "f = protocolField" | "f = keyField" | "f = versionField"
      | "f = connectionField" | "f = upgradeField" by (auto simp: ws_fields_def)
    then show ?thesis
    proof cases
      case 1
      with field nos ne value_read [OF l, of f r] k [of f] show ?thesis unfolding ws_field_def
        by (elim conjE) (simp add: test read_header_def)
    next
      case 2
      with field nos ne value_read [OF l, of f r] k [of f] show ?thesis unfolding ws_field_def
        by (elim conjE) (simp add: test read_header_def)
    next
      case 3
      with field nos ne k [of f] show ?thesis unfolding ws_field_def
        by (elim conjE) (simp add: test read_header_def)
    next
      case 4
      with field nos ne value_read [OF l, of f r] k [of f] show ?thesis unfolding ws_field_def
        by (elim conjE) (simp add: test read_header_def)
    next
      case 5
      with field nos ne value_read [OF l, of f r] k [of f] show ?thesis unfolding ws_field_def
        by (elim conjE) (simp add: test read_header_def ver)
    next
      case 6
      with field nos ne value_read [OF l, of f r] k [of f] conn [of "length f"] show ?thesis unfolding ws_field_def
        by (elim conjE) (auto simp: test read_header_def)
    next
      case 7
      with field nos ne value_read [OF l, of f r] k [of f] show ?thesis unfolding ws_field_def
        by (elim conjE) (simp add: test read_header_def web)
    qed
  qed
qed

section \<open>The request\<close>

lemma ws_line_header:
  assumes l: "header_ok l" and m: "m = pre @ l @ rn @ r"
  shows "ws_line m (length pre) st = Some (length pre + length l + 2, read_header l st)"
proof -
  have d: "drop (length pre) m = l @ rn @ r" using m by simp
  obtain k where k: "k \<le> length l" "ws_field (l @ rn @ r) st = Some (k, read_header l st)"
    using ws_field_header [OF l, of r st] by blast
  have "13 \<notin> set (drop k l)" "0 \<notin> set (drop k l)" using l set_drop_subset [of k l] by (auto simp: header_ok_def list_all_iff)
  from strstr_line [OF this, of r] have "strstr (drop (length pre + k) m) rn = Some (Some (length l - k))"
    using k(1) m by simp
  then show ?thesis using k by (simp add: ws_line_def d)
qed

lemma ws_lines_headers:
  "list_all header_ok headers \<Longrightarrow> m = pre @ concat (map (\<lambda>l. l @ rn) headers) @ rn @ r \<Longrightarrow>
   length pre + length (concat (map (\<lambda>l. l @ rn) headers)) \<le> n \<Longrightarrow>
   ws_lines m n (length pre) st = Some (fold read_header headers st)"
proof (induction headers arbitrary: pre st)
  case Nil
  then show ?case by (subst ws_lines.simps) (auto simp: rn_def nth_append)
next
  case (Cons l headers)
  let ?r = "concat (map (\<lambda>l. l @ rn) headers) @ rn @ r"
  have l: "header_ok l" and m: "m = pre @ l @ rn @ ?r" using Cons.prems(1,2) by simp_all
  obtain a as where a: "l = a # as" "a \<noteq> 13" "list_all (\<lambda>b. b \<noteq> 10) as"
    using l by (cases l) (auto simp: header_ok_def list_all_iff)
  have at: "m ! length pre = a" "m ! (length pre + 1) \<noteq> 10"
    using a unfolding m by (cases as; simp add: nth_append rn_def)+
  have len: "length pre + 2 < length m" "length pre < n" using Cons.prems(3) a unfolding m by (simp_all add: rn_def)
  have "ws_lines m n (length pre) st = ws_lines m n (length (pre @ l @ rn)) (read_header l st)"
    using at len a(2) ws_line_header [OF l m, of st] by (subst ws_lines.simps) (simp add: rn_def)
  also have "\<dots> = Some (fold read_header headers (read_header l st))"
    by (rule Cons.IH) (use Cons.prems in \<open>simp_all add: rn_def\<close>)
  finally show ?case by simp
qed

text \<open>The lines together: of every field the last value counts, or any of its values.\<close>

lemma field_values_simps [simp]:
  "field_values f [] = []"
  "field_values f (l # ls) = (if prefix f l then drop (length f) l # field_values f ls else field_values f ls)"
  by (simp_all add: field_values_def)

definition last_value :: "byte list \<Rightarrow> byte list list \<Rightarrow> byte list option \<Rightarrow> byte list option" where
  "last_value f headers old = (if field_values f headers = [] then old else Some (last (field_values f headers)))"

lemma read_headers:
  "fold read_header headers st = st\<lparr>
     wl_hs := (wl_hs st)\<lparr>hs_host := last_value hostField headers (hs_host (wl_hs st)),
       hs_origin := last_value originField headers (hs_origin (wl_hs st)),
       hs_key := last_value keyField headers (hs_key (wl_hs st))\<rparr>,
     wl_connection := wl_connection st \<or>
       list_ex (\<lambda>v. sublist upgrade_text (map to_lower v)) (field_values connectionField headers),
     wl_upgrade := wl_upgrade st \<or> list_ex (\<lambda>v. prefix websocket (map to_lower v)) (field_values upgradeField headers),
     wl_subprotocol := wl_subprotocol st \<or> field_values protocolField headers \<noteq> [],
     wl_mismatch := wl_mismatch st \<or> \<not> list_all (prefix version) (field_values versionField headers)\<rparr>"
proof (induction headers arbitrary: st)
  case Nil
  then show ?case by (simp add: last_value_def)
next
  case (Cons l headers)
  have v: "last_value f (l # headers) old = last_value f headers (if prefix f l then Some (drop (length f) l) else old)" for f old
    by (simp add: last_value_def)
  have b: "list_ex P (field_values f (l # headers)) \<longleftrightarrow> prefix f l \<and> P (drop (length f) l) \<or> list_ex P (field_values f headers)"
    "\<not> list_all P (field_values f (l # headers)) \<longleftrightarrow> prefix f l \<and> \<not> P (drop (length f) l) \<or> \<not> list_all P (field_values f headers)"
    "field_values f (l # headers) \<noteq> [] \<longleftrightarrow> prefix f l \<or> field_values f headers \<noteq> []" for f P by auto
  show ?case unfolding fold_Cons comp_apply Cons.IH v b
    by (simp add: read_header_def disj_assoc del: field_values_simps(2) de_Morgan_conj de_Morgan_disj)
qed

lemma isspace_bytes: "isspace 32" "isspace 13" "isspace 10"
  by (simp_all add: isspace_def)

lemma parse_request:
  assumes res: "resource_ok res" and h: "list_all header_ok headers"
    and n: "length (request res headers) \<le> n"
  shows "wsParseHandshake (request res headers @ junk) n nullHandshake =
    Some (if opens headers then WS_OPENING_FRAME else WS_INCOMPLETE_FRAME,
      \<lparr>hs_host = last_value hostField headers None, hs_origin = last_value originField headers None,
       hs_key = last_value keyField headers None, hs_resource = Some res,
       hs_frameType = (if opens headers then WS_OPENING_FRAME else WS_INCOMPLETE_FRAME)\<rparr>)"
proof -
  define m where "m = request res headers @ junk"
  define first where "first = bytes_of ''GET '' @ res @ bytes_of '' HTTP/1.1''"
  define ls where "ls = concat (map (\<lambda>l. l @ rn) headers)"
  have m: "m = first @ rn @ ls @ rn @ junk" by (simp add: m_def request_def first_def ls_def)
  have r: "32 \<notin> set res" "0 \<notin> set res" "13 \<notin> set res" "res \<noteq> []" "list_all (\<lambda>b. \<not> isspace b \<and> b \<noteq> 0) res"
    using res isspace_bytes by (auto simp: resource_ok_def list_all_iff)
  have line: "13 \<notin> set first" "0 \<notin> set first" using r by (auto simp: first_def bytes_of_def)
  have ls0: "0 \<notin> set ls" using h by (auto simp: ls_def list_all_iff header_ok_def rn_def)
  have len: "length (request res headers) = length first + length ls + 4"
    by (simp add: request_def first_def ls_def rn_def)
  have crlf: "\<exists>q. strnstr 0 m n [13, 10, 13, 10] = Some (Some q)"
  proof (cases headers rule: rev_cases)
    case Nil
    then have "m = first @ [13, 10, 13, 10] @ junk" by (simp add: m ls_def rn_def)
    then show ?thesis using strnstr_finds [of first 0 "[13, 10, 13, 10]" n junk] line(2) n len by simp
  next
    case (snoc hs l)
    let ?w = "first @ rn @ concat (map (\<lambda>l. l @ rn) hs) @ l"
    have "m = ?w @ [13, 10, 13, 10] @ junk" by (simp add: m ls_def snoc rn_def)
    moreover have "0 \<notin> set ?w" using line(2) ls0 by (simp add: ls_def snoc rn_def)
    moreover have "length ?w + 4 \<le> n" using n len by (simp add: ls_def snoc rn_def)
    ultimately show ?thesis using strnstr_finds [of ?w 0 "[13, 10, 13, 10]" n junk] by simp
  qed
  define rest where "rest = res @ 32 # tl (bytes_of '' HTTP/1.1'') @ rn @ ls @ rn @ junk"
  have m4: "m = 71 # 69 # 84 # 32 # rest" by (simp add: m first_def rest_def bytes_of_def)
  have four: "4 = Suc (Suc (Suc (Suc 0)))" "3 = Suc (Suc (Suc 0))" by simp_all
  have get: "memcmp_eq m (bytes_of ''GET '') 4 = Some True" unfolding m4 four(1) by (simp add: bytes_of_def)
  have get': "strchr m 32 = Some (Some 3)" unfolding m4 by simp
  have tail: "drop 4 m = res @ 32 # tl (bytes_of '' HTTP/1.1'') @ rn @ ls @ rn @ junk" "drop 3 m = 32 # drop 4 m"
    unfolding m4 four by (simp_all add: rest_def)
  have sz: "strchr (drop 4 m) 32 = Some (Some (length res))"
    using strchr_first [OF r(1,2)] tail(1) by simp
  have w: "takeWhile (\<lambda>b. \<not> isspace b \<and> b \<noteq> 0) (drop 4 m) = res" "dropWhile isspace (drop 3 m) = drop 4 m"
    unfolding tail using r(4,5) isspace_bytes(1) by (auto simp: takeWhile_append list_all_iff dropWhile_append neq_Nil_conv)
  have scan: "scan_resource m (Suc (length res)) = Some (Some res)"
  proof -
    have "length (drop 4 m) > length res" unfolding tail(1) by simp
    then show ?thesis using r(4) by (simp add: scan_resource_def w Let_def)
  qed
  have rn1: "strstr m rn = Some (Some (length first))" unfolding m by (rule strstr_line [OF line])
  have "ws_lines m n (length (first @ rn)) st = Some (fold read_header headers st)" for st
    by (rule ws_lines_headers [OF h]) (use n len in \<open>simp_all add: m ls_def rn_def\<close>)
  then have lines: "ws_lines m n (Suc (Suc (length first))) st = Some (fold read_header headers st)" for st by (simp add: rn_def)
  from crlf obtain q where q: "strnstr 0 m n [13, 10, 13, 10] = Some (Some q)" by blast
  show ?thesis unfolding m_def [symmetric] wsParseHandshake_def
    by (simp add: q get get' sz scan rn1 lines read_headers nullHandshake_def Let_def)
      (auto simp: opens_def last_value_def split: if_splits)
qed

section \<open>The answer\<close>

definition accept_answer :: "byte list \<Rightarrow> byte list" where
  "accept_answer key =
     bytes_of ''HTTP/1.1 101 Switching Protocols'' @ rn @ bytes_of ''Upgrade: websocket'' @ rn
     @ bytes_of ''Connection: Upgrade'' @ rn
     @ bytes_of ''Sec-WebSocket-Accept: '' @ rfc_encode (fips_sha1 (key @ secret)) @ rn @ rn"

lemma length_sha1: "length (sha1 junk p) = 20"
  by (simp add: sha1_def regs_bytes_def word_bytes_def split: prod.splits)

lemma length_secret: "length secret = 36"
  by (simp add: secret_def)

lemma bytes_of_append: "bytes_of s @ bytes_of t = bytes_of (s @ t)"
  by (simp add: bytes_of_def)

lemma handshake_answer:
  assumes hs: "hs_frameType hs = WS_OPENING_FRAME" "hs_key hs = Some key"
    and key: "length key < 256" "length key mod 64 \<noteq> 20" and junk: "length junk = 16" and cap: "cap \<ge> 130"
  shows "wsGetHandshakeAnswer junk hs cap = Some (accept_answer key)" "length (accept_answer key) = 129"
proof -
  have m: "(length key + 36) mod 64 \<noteq> 56"
  proof
    assume "(length key + 36) mod 64 = 56"
    then have "(length key mod 64 + 36) mod 64 = 56" by (simp add: mod_add_left_eq)
    moreover have "length key mod 64 < 64" by simp
    ultimately show False using key(2) by (cases "length key mod 64 < 28") (simp_all add: mod_if [of "_ + 36" 64])
  qed
  then have s: "sha1 junk (key @ secret) = fips_sha1 (key @ secret)"
    using key(1) junk by (intro sha1_fips) (simp_all add: length_secret)
  have l: "length (fips_sha1 (key @ secret)) = 20" using length_sha1 [of junk "key @ secret"] s by simp
  have b: "base64 (length key + 36) (fips_sha1 (key @ secret)) = (rfc_encode (fips_sha1 (key @ secret)), 28)"
    using base64_from_rfc [of "fips_sha1 (key @ secret)" 0] l by (simp add: base64_def base64len_def)
  have e: "length (rfc_encode (fips_sha1 (key @ secret))) = 28" using l by (simp add: length_rfc_encode base64len_def)
  show len: "length (accept_answer key) = 129" using e by (simp add: accept_answer_def rn_def)
  have "bytes_of ''HTTP/1.1 101 Switching Protocols'' @ rn @ upgradeField @ websocket @ rn @ connectionField @ upgrade2 @ rn
      @ bytes_of ''Sec-WebSocket-Accept: '' @ rfc_encode (fips_sha1 (key @ secret)) @ rn @ rn = accept_answer key"
    by (simp add: accept_answer_def upgradeField_def websocket_def connectionField_def upgrade2_def bytes_of_def)
  then show "wsGetHandshakeAnswer junk hs cap = Some (accept_answer key)"
    using hs cap len by (simp add: wsGetHandshakeAnswer_def length_secret s b Let_def)
qed

lemma key_length:
  assumes h: "list_all header_ok headers" and k: "field_values keyField headers \<noteq> []"
  shows "length (last (field_values keyField headers)) < 256"
proof -
  obtain l where l: "l \<in> set headers" "prefix keyField l" "last (field_values keyField headers) = drop (length keyField) l"
    using last_in_set [OF k] by (auto simp: field_values_def)
  moreover from this h have "value_ok l keyField" by (simp add: list_all_iff header_ok_def)
  ultimately show ?thesis by (simp add: value_ok_def less_diff_conv2)
qed

section \<open>Properties\<close>


definition sample_headers :: "byte list list" where
  "sample_headers = [bytes_of ''Host: server.example.com'', bytes_of ''Upgrade: websocket'', bytes_of ''Connection: Upgrade'',
     bytes_of ''Sec-WebSocket-Key: dGhlIHNhbXBsZSBub25jZQ=='', bytes_of ''Sec-WebSocket-Version: 13'']"

lemma sample_headers_ok:
  "list_all header_ok sample_headers" "opens sample_headers"
  "field_values keyField sample_headers = [bytes_of ''dGhlIHNhbXBsZSBub25jZQ=='']"
  by code_simp+


end
