(* ===== verification/Gatews.thy ===== *)
theory Gatews
  imports Gate Websocket_Handshake Socket_Poll
begin

text \<open>
  The websocket gate (\<open>service_gatews.c\<close>): it accepts connections, answers their opening handshake, and
  forwards the payload of every binary frame to another service as a text message. Handlers return
  the calls they make and the new state, as those of the gate do. \<open>junk\<close> is the uninitialised
  array of the digest and \<open>heap\<close> the uninitialised bytes of a new buffer: the parser of the
  handshake looks for the end of its lines in the whole chunk.
\<close>

section \<open>State\<close>

record gatews_conn =
  wc_fd :: int
  wc_remote_name :: "byte list option"
  wc_buffer :: "databuffer option"
  wc_hs :: "handshake option"
  wc_state :: wsState

record gatews =
  gw_listen_fd :: int
  gw_listen_port :: int
  gw_buffer_max :: int
  gw_connect_max :: int
  gw_forward :: "byte list"
  gw_hash :: hashid
  gw_conn :: "gatews_conn list"

text \<open>\<open>n\<close> bytes of the message are copied for the name.\<close>

definition conn_init ::
  "(nat \<Rightarrow> byte) \<Rightarrow> gatews \<Rightarrow> int \<Rightarrow> byte list \<Rightarrow> int \<Rightarrow> gatews_conn option" where
  "conn_init heap g fd remote_name n =
     (if n < 0 \<or> n > int (length remote_name) \<or> gw_buffer_max g < 0 then None
      else Some
        \<lparr>wc_fd = fd, wc_remote_name = Some (cstr (take (nat n) remote_name)),
         wc_buffer = Some ((databuffer_create (gw_buffer_max g))\<lparr>db_chunk := map heap [0..<nat (gw_buffer_max g)]\<rparr>),
         wc_hs = Some nullHandshake, wc_state = WS_STATE_OPENING\<rparr>)"

definition conn_free :: "gatews_conn \<Rightarrow> gatews_conn option" where
  "conn_free c = do {
     _ \<leftarrow> wc_buffer c;
     _ \<leftarrow> wc_hs c;
     _ \<leftarrow> wc_remote_name c;
     Some (c\<lparr>wc_fd := -1, wc_buffer := None, wc_hs := None, wc_remote_name := None\<rparr>) }"

section \<open>Messages to the forward service\<close>

definition send_forward :: "u32 \<Rightarrow> gatews \<Rightarrow> gatews_conn \<Rightarrow> byte list \<Rightarrow> call" where
  "send_forward handle g conn msg =
     Sendname (name_of (gw_forward g)) handle (word_of_int (wc_fd conn)) SERVICE_TEXT msg"

definition gatews_accept :: "u32 \<Rightarrow> gatews \<Rightarrow> gatews_conn \<Rightarrow> call list option" where
  "gatews_accept handle g conn = do {
     name \<leftarrow> wc_remote_name conn;
     msg \<leftarrow> sprintf 64 (bytes_of ''connect|'' @ fmt_d (int (length name)) @ bytes_of ''|'' @ name);
     Some [send_forward handle g conn msg] }"

definition gatews_close :: "u32 \<Rightarrow> gatews \<Rightarrow> gatews_conn \<Rightarrow> call list option" where
  "gatews_close handle g conn = do {
     msg \<leftarrow> sprintf 16 (bytes_of ''disconnect|0|'');
     Some [send_forward handle g conn msg] }"

section \<open>Frames of a connection\<close>

text \<open>
  What the parser for the state of the connection finds: the type, the length of the frame, the place and the
  length of its data; and the bytes of the chunk and the handshake after it.
\<close>

record ws_parsed =
  wp_type :: wsFrameType
  wp_read :: nat
  wp_data :: "nat \<times> nat"
  wp_chunk :: "byte list"
  wp_hs :: handshake

definition gatews_parse :: "wsState \<Rightarrow> databuffer \<Rightarrow> handshake \<Rightarrow> ws_parsed option" where
  "gatews_parse state b hs =
     (if state = WS_STATE_OPENING then
        map_option (\<lambda>(t, hs). \<lparr>wp_type = t, wp_read = 0, wp_data = (0, 0), wp_chunk = db_chunk b, wp_hs = hs\<rparr>)
          (wsParseHandshake (db_chunk b) (nat (db_ptr b)) hs)
      else
        map_option (\<lambda>i. \<lparr>wp_type = wi_type i, wp_read = case_option 0 id (wi_read i),
            wp_data = case_option (0, 0) id (wi_data i), wp_chunk = wi_frame i, wp_hs = hs\<rparr>)
          (wsParseInputFrame (db_chunk b) (nat (db_ptr b))))"

text \<open>The answer to a request or a frame that is wrong or does not fit.\<close>

definition gatews_refuse :: "u32 \<Rightarrow> gatews_conn \<Rightarrow> wsFrameType \<Rightarrow> call list option" where
  "gatews_refuse handle conn t = do {
     frame \<leftarrow> (if wc_state conn = WS_STATE_OPENING
       then sprintf 1024 (bytes_of ''HTTP/1.1 400 Bad Request'' @ rn @ versionField @ version @ rn @ rn)
       else wsMakeFrame [] 1024 WS_CLOSING_FRAME);
     Some [log_error handle (bytes_of ''[gatews]parse message error, fd='' @ fmt_d (wc_fd conn)
             @ bytes_of '' frameType='' @ fmt_d (int (frame_code t))),
           Socket_send (wc_fd conn) frame, Socket_close (wc_fd conn)] }"

text \<open>
  The data of a binary frame, put together in an array of \<open>buffer_max\<close> bytes; the comparison is one of
  \<open>size_t\<close>, in which a negative \<open>buffer_max - 32\<close> is huge.
\<close>

definition gatews_forward ::
  "u32 \<Rightarrow> gatews \<Rightarrow> gatews_conn \<Rightarrow> databuffer \<Rightarrow> ws_parsed \<Rightarrow> (int \<times> call list \<times> gatews_conn) option" where
  "gatews_forward handle g conn b p =
     (case wp_data p of (d, n) \<Rightarrow>
        if int n \<le> gw_buffer_max g - 32 \<or> gw_buffer_max g < 32 then do {
          let head = bytes_of ''forward|'' @ fmt_d (int n) @ bytes_of ''|'';
          if int (length head + max 1 n) > gw_buffer_max g then None
          else do {
            let msg = head @ take n (drop d (wp_chunk p));
            (r, b) \<leftarrow> databuffer_pop b (int (wp_read p));
            Some (r, [log_debug handle (bytes_of ''[gatews]forward data sz='' @ fmt_d (int (length msg))),
                      send_forward handle g conn msg], conn\<lparr>wc_buffer := Some b\<rparr>) } }
        else
          Some (0, [log_error handle (bytes_of ''[gatews]message too large, fd='' @ fmt_d (wc_fd conn)
                      @ bytes_of '' dataSize='' @ fmt_d (int n)),
                    Socket_close (wc_fd conn)], conn))"

definition gatews_message ::
  "u32 list \<Rightarrow> u32 \<Rightarrow> gatews \<Rightarrow> gatews_conn \<Rightarrow> (int \<times> call list \<times> gatews_conn) option" where
  "gatews_message junk handle g conn = do {
     b \<leftarrow> wc_buffer conn;
     hs \<leftarrow> wc_hs conn;
     p \<leftarrow> gatews_parse (wc_state conn) b hs;
     let b = b\<lparr>db_chunk := wp_chunk p\<rparr>;
     let conn = conn\<lparr>wc_buffer := Some b, wc_hs := Some (wp_hs p)\<rparr>;
     if wp_type p = WS_INCOMPLETE_FRAME \<and> databuffer_isfull b \<or> wp_type p = WS_ERROR_FRAME
     then map_option (\<lambda>calls. (0, calls, conn)) (gatews_refuse handle conn (wp_type p))
     else if wc_state conn = WS_STATE_OPENING then
       (if wp_type p = WS_OPENING_FRAME then do {
          frame \<leftarrow> wsGetHandshakeAnswer junk (wp_hs p) 1024;
          Some (0, [Socket_send (wc_fd conn) frame,
                    log_debug handle (bytes_of ''[gatews]handshake success fd='' @ fmt_d (wc_fd conn))],
                conn\<lparr>wc_buffer := Some (databuffer_reset b), wc_state := WS_STATE_NORMAL\<rparr>) }
        else Some (0, [], conn))
     else if wp_type p = WS_BINARY_FRAME then gatews_forward handle g conn b p
     else if wp_type p = WS_CLOSING_FRAME \<and> wc_state conn \<noteq> WS_STATE_CLOSING then do {
       frame \<leftarrow> wsMakeFrame [] 1024 WS_CLOSING_FRAME;
       Some (0, [Socket_send (wc_fd conn) frame, Socket_close (wc_fd conn)], conn) }
     else Some (0, [], conn) }"

text \<open>\<open>while (gatews_message (ctx, c));\<close>\<close>

partial_function (option) gatews_loop ::
  "u32 list \<Rightarrow> u32 \<Rightarrow> gatews \<Rightarrow> gatews_conn \<Rightarrow> (call list \<times> gatews_conn) option" where
  "gatews_loop junk handle g conn = do {
     (r, calls, conn) \<leftarrow> gatews_message junk handle g conn;
     if r = 0 then Some (calls, conn)
     else do {
       (calls', conn) \<leftarrow> gatews_loop junk handle g conn;
       Some (calls @ calls', conn) } }"

section \<open>Commands\<close>

definition gatews_dispatch_cmd :: "int \<Rightarrow> byte list \<Rightarrow> call list option" where
  "gatews_dispatch_cmd fd msg = do {
     let i = command_end msg;
     forward \<leftarrow> memcmp_eq msg (lit ''forward'') i;
     if forward then do {
       let size = int (length msg) - int i - 1;
       if size > 0 then do {
         frame \<leftarrow> wsMakeFrame (drop (i + 1) msg) (nat size + 10) WS_BINARY_FRAME;
         Some [Socket_send fd frame] }
       else Some [] }
     else do {
       kick \<leftarrow> memcmp_eq msg (lit ''kick'') i;
       Some (if kick then [Socket_close fd] else []) } }"

section \<open>Socket messages\<close>

definition ws_conn_at :: "gatews \<Rightarrow> int \<Rightarrow> gatews_conn option" where
  "ws_conn_at g i = at (gw_conn g) (nat i)"

definition ws_set_conn :: "int \<Rightarrow> gatews_conn \<Rightarrow> gatews \<Rightarrow> gatews" where
  "ws_set_conn i c g = g\<lparr>gw_conn := (gw_conn g)[nat i := c]\<rparr>"

definition gatews_on_data ::
  "u32 list \<Rightarrow> u32 \<Rightarrow> skynet_socket_message \<Rightarrow> gatews \<Rightarrow> (call list \<times> gatews) option" where
  "gatews_on_data junk handle m g = do {
     let log = log_debug handle (bytes_of ''[gatews]recv data fd '' @ fmt_d (sm_id m)
                 @ bytes_of '' size:'' @ fmt_d (sm_ud m));
     i \<leftarrow> hashid_lookup (gw_hash g) (sm_id m);
     if i \<ge> 0 then do {
       c \<leftarrow> ws_conn_at g i;
       b \<leftarrow> wc_buffer c;
       d \<leftarrow> sm_buffer m;
       (r, b) \<leftarrow> databuffer_push b d (sm_ud m);
       let c = c\<lparr>wc_buffer := Some b\<rparr>;
       if r \<le> 0 then
         Some ([log,
                log_error handle (bytes_of ''[gatews]connection recv data too long fd='' @ fmt_d (sm_id m)
                  @ bytes_of '' size='' @ fmt_d (sm_ud m)),
                Socket_close (sm_id m)], ws_set_conn i c g)
       else do {
         (calls, c) \<leftarrow> gatews_loop junk handle g c;
         Some (log # calls, ws_set_conn i c g) } }
     else
       Some ([log,
              log_error handle (bytes_of ''[gatews]recv unknown connection data fd='' @ fmt_d (sm_id m)
                @ bytes_of '' size='' @ fmt_d (sm_ud m)),
              Socket_close (sm_id m)], g) }"

definition gatews_on_accept ::
  "(nat \<Rightarrow> byte) \<Rightarrow> u32 \<Rightarrow> skynet_socket_message \<Rightarrow> int \<Rightarrow> gatews \<Rightarrow> (call list \<times> gatews) option" where
  "gatews_on_accept heap handle m n g =
     (if gw_listen_fd g \<noteq> sm_id m then None
      else if hashid_full (gw_hash g) then
        Some ([log_error handle (bytes_of ''[gatews]full on accepting, alloc:'' @ fmt_d (gw_connect_max g)
                 @ bytes_of '', accepted:'' @ fmt_d (hi_count (gw_hash g))
                 @ bytes_of '', close socket:'' @ fmt_d (sm_ud m)),
               Socket_close (sm_ud m)], g)
      else do {
        (i, hash) \<leftarrow> hashid_insert (gw_hash g) (sm_ud m);
        let g = g\<lparr>gw_hash := hash\<rparr>;
        _ \<leftarrow> ws_conn_at g i;
        c \<leftarrow> conn_init heap g (sm_ud m) (sm_tail m) n;
        name \<leftarrow> wc_remote_name c;
        calls \<leftarrow> gatews_accept handle g c;
        Some (calls @ [Socket_start (wc_fd c),
                       log_debug handle (bytes_of ''[gatews]accept fd='' @ fmt_d (wc_fd c)
                         @ bytes_of '' addr='' @ name)],
              ws_set_conn i c g) })"

definition gatews_on_close :: "u32 \<Rightarrow> skynet_socket_message \<Rightarrow> gatews \<Rightarrow> (call list \<times> gatews) option" where
  "gatews_on_close handle m g = do {
     let log = log_debug handle (bytes_of ''[gatews]close or error '' @ fmt_d (sm_type m)
                 @ bytes_of '' fd '' @ fmt_d (sm_id m));
     (i, hash) \<leftarrow> hashid_remove (gw_hash g) (sm_id m);
     let g = g\<lparr>gw_hash := hash\<rparr>;
     if i \<ge> 0 then do {
       c \<leftarrow> ws_conn_at g i;
       calls \<leftarrow> gatews_close handle g c;
       c \<leftarrow> conn_free c;
       Some (log # calls, ws_set_conn i c g) }
     else Some ([log], g) }"

definition gatews_on_connect :: "u32 \<Rightarrow> skynet_socket_message \<Rightarrow> gatews \<Rightarrow> call list option" where
  "gatews_on_connect handle m g =
     (if sm_id m = gw_listen_fd g then Some []
      else do {
        i \<leftarrow> hashid_lookup (gw_hash g) (sm_id m);
        Some (if i \<le> 0
              then [log_error handle (bytes_of ''[gatews]connected unknown connection '' @ fmt_d (sm_id m)
                      @ bytes_of '' message''),
                    Socket_close (sm_id m)]
              else []) })"

definition gatews_dispatch_socket_message ::
  "u32 list \<Rightarrow> (nat \<Rightarrow> byte) \<Rightarrow> u32 \<Rightarrow> skynet_socket_message \<Rightarrow> int \<Rightarrow> gatews \<Rightarrow> (call list \<times> gatews) option" where
  "gatews_dispatch_socket_message junk heap handle m n g =
     (if sm_type m = SKYNET_SOCKET_TYPE_DATA then gatews_on_data junk handle m g
      else if sm_type m = SKYNET_SOCKET_TYPE_ACCEPT then gatews_on_accept heap handle m n g
      else if sm_type m = SKYNET_SOCKET_TYPE_CLOSE \<or> sm_type m = SKYNET_SOCKET_TYPE_ERROR
        then gatews_on_close handle m g
      else if sm_type m = SKYNET_SOCKET_TYPE_CONNECT
        then map_option (\<lambda>calls. (calls, g)) (gatews_on_connect handle m g)
      else if sm_type m = SKYNET_SOCKET_TYPE_WARNING
        then Some ([log_warn handle (bytes_of ''[gatews]fd ('' @ fmt_d (sm_id m)
               @ bytes_of '') send buffer ('' @ fmt_d (sm_ud m) @ bytes_of '')K'')], g)
      else Some ([log_error handle (bytes_of ''[gatews]recv error message type '' @ fmt_d (sm_type m))], g))"

section \<open>The service\<close>

text \<open>\<open>sscanf (args, "%[^','],%d,%d,%d")\<close> must find its four fields.\<close>

definition gatews_create ::
  "(byte list \<Rightarrow> int \<Rightarrow> int \<Rightarrow> int) \<Rightarrow> u32 \<Rightarrow> byte list \<Rightarrow> (int \<times> call list \<times> gatews option) option" where
  "gatews_create listen handle args = do {
     (forward, r) \<leftarrow> scan_field 64 args;
     r \<leftarrow> scan_comma r;
     (port, r) \<leftarrow> scan_int r;
     r \<leftarrow> scan_comma r;
     (mx, r) \<leftarrow> scan_int r;
     r \<leftarrow> scan_comma r;
     (bmx, r) \<leftarrow> scan_int r;
     let host = bytes_of ''0.0.0.0'';
     let fd = listen host port BACKLOG;
     if fd < 0 then Some (1, [Socket_listen host port BACKLOG], None)
     else if mx < 0 then None
     else Some
       (0, [Socket_listen host port BACKLOG,
            log_notice handle (bytes_of ''[gatews]listen port:'' @ fmt_d port @ bytes_of '' fd:'' @ fmt_d fd),
            Socket_start fd],
        Some \<lparr>gw_listen_fd = fd, gw_listen_port = port, gw_buffer_max = bmx, gw_connect_max = mx, gw_forward = forward,
              gw_hash = hashid_init mx,
              gw_conn = replicate (nat mx) \<lparr>wc_fd = -1, wc_remote_name = None, wc_buffer = None, wc_hs = None,
                wc_state = WS_STATE_OPENING\<rparr>\<rparr>) }"

text \<open>The connections of a release are closed and freed in order.\<close>

fun release_conns :: "gatews_conn list \<Rightarrow> call list option" where
  "release_conns [] = Some []"
| "release_conns (c # conns) = do {
     calls \<leftarrow> release_conns conns;
     if wc_fd c \<ge> 0 then do {
       _ \<leftarrow> conn_free c;
       Some (Socket_close (wc_fd c) # calls) }
     else Some calls }"

definition gatews_release :: "gatews \<Rightarrow> call list option" where
  "gatews_release g = do {
     calls \<leftarrow> release_conns (gw_conn g);
     Some (calls @ (if gw_listen_fd g \<ge> 0 then [Socket_close (gw_listen_fd g)] else [])) }"

definition gatews_callback ::
  "u32 list \<Rightarrow> (nat \<Rightarrow> byte) \<Rightarrow> u32 \<Rightarrow> skynet_message \<Rightarrow> gatews \<Rightarrow> (call list \<times> gatews) option" where
  "gatews_callback junk heap handle msg g =
     (if m_type msg = SERVICE_SOCKET then
        (case m_data msg of
           Some (Socket m) \<Rightarrow>
             gatews_dispatch_socket_message junk heap handle m (int (m_size msg) - int sizeof_socket_message) g
         | _ \<Rightarrow> None)
      else if m_type msg = SERVICE_TEXT then
        (case m_data msg of
           Some (Bytes bs) \<Rightarrow>
             map_option (\<lambda>calls. (calls, g)) (gatews_dispatch_cmd (sint (m_session msg)) (take (m_size msg) bs))
         | None \<Rightarrow> if m_size msg = 0
             then map_option (\<lambda>calls. (calls, g)) (gatews_dispatch_cmd (sint (m_session msg)) [])
             else None
         | _ \<Rightarrow> None)
      else Some ([], g))"

end
