(* ===== verification/Gatews_Stream.thy ===== *)
theory Gatews_Stream
  imports Gatews
begin

text \<open>
  What the websocket gate promises of a connection: its opening handshake is answered, then the
  payloads of its binary frames reach the forward service in order, however the stream is cut. The buffer
  of an open connection is a \<open>packet_buffer\<close> whose packets are the frames of the client.
\<close>

section \<open>An open connection\<close>

type_synonym ws_packet = "byte list \<times> byte list"

text \<open>A packet is a masking key and a payload.\<close>

definition packet_bytes :: "ws_packet \<Rightarrow> byte list" where
  "packet_bytes p = client_frame WS_BINARY_FRAME (fst p) (snd p)"

definition ws_packet_good :: "gatews \<Rightarrow> ws_packet \<Rightarrow> bool" where
  "ws_packet_good g p \<longleftrightarrow> length (fst p) = 4 \<and> 0 < length (snd p) \<and> length (snd p) \<le> 0xFFFF
     \<and> int (length (snd p)) \<le> gw_buffer_max g - 32"

definition payload_text :: "byte list \<Rightarrow> byte list" where
  "payload_text d = bytes_of ''forward|'' @ fmt_d (int (length d)) @ bytes_of ''|'' @ d"

definition text_call :: "u32 \<Rightarrow> gatews \<Rightarrow> int \<Rightarrow> byte list \<Rightarrow> call" where
  "text_call handle g fd = Sendname (name_of (gw_forward g)) handle (word_of_int fd) SERVICE_TEXT"

definition conn_live :: "gatews \<Rightarrow> int \<Rightarrow> gatews_conn \<Rightarrow> bool" where
  "conn_live g fd c \<longleftrightarrow> wc_state c = WS_STATE_NORMAL \<and> wc_fd c = fd \<and> wc_hs c \<noteq> None
     \<and> (case wc_buffer c of Some b \<Rightarrow> db_ok b \<and> db_sz b = gw_buffer_max g | None \<Rightarrow> False)"

definition conn_bytes :: "gatews_conn \<Rightarrow> byte list" where
  "conn_bytes c = (case wc_buffer c of Some b \<Rightarrow> db_contents b | None \<Rightarrow> [])"

lemma conn_liveE:
  assumes "conn_live g fd c"
  obtains b hs where "wc_buffer c = Some b" "wc_hs c = Some hs" "wc_state c = WS_STATE_NORMAL" "wc_fd c = fd"
    "db_ok b" "db_sz b = gw_buffer_max g" "conn_bytes c = db_contents b"
  using assms by (auto simp: conn_live_def conn_bytes_def split: option.splits)

lemma chunk_split: "db_chunk b = db_contents b @ drop (nat (db_ptr b)) (db_chunk b)"
  by (simp add: db_contents_def)

lemma nat_ptr: "db_ok b \<Longrightarrow> nat (db_ptr b) = length (db_contents b)"
  using length_db_contents by fastforce

lemma binary_data: "data_type WS_BINARY_FRAME"
  by (simp add: data_type_def)

lemma payload_fits:
  assumes "n \<le> 0xFFFF" "int n \<le> mx - 32"
  shows "int (length (bytes_of ''forward|'' @ fmt_d (int n) @ bytes_of ''|'') + max 1 n) \<le> mx"
proof -
  have "length (fmt_d (int n)) \<le> 5" using assms by (intro length_fmt_d) simp_all
  then show ?thesis using assms by simp
qed

text \<open>One round of the loop on a whole frame, and on a part of one.\<close>

lemma gatews_message_frame:
  assumes live: "conn_live g fd c" and p: "ws_packet_good g p" and c: "conn_bytes c = packet_bytes p @ rest"
  obtains log c' where
    "gatews_message junk handle g c =
       Some (int (length rest), [log_debug handle log, text_call handle g fd (payload_text (snd p))], c')"
    "conn_live g fd c'" "conn_bytes c' = rest"
proof -
  obtain b hs where b: "wc_buffer c = Some b" "wc_hs c = Some hs" "wc_state c = WS_STATE_NORMAL" "wc_fd c = fd"
    "db_ok b" "db_sz b = gw_buffer_max g" "db_contents b = packet_bytes p @ rest"
    using live c by (auto elim: conn_liveE)
  obtain key d where kd: "p = (key, d)" by (cases p)
  have d: "0 < length d" "length d \<le> 0xFFFF" "length key = 4" "int (length d) \<le> gw_buffer_max g - 32"
    using p by (simp_all add: ws_packet_good_def kd)
  let ?f = "client_frame WS_BINARY_FRAME key d"
  have fb: "packet_bytes p = ?f" by (simp add: packet_bytes_def kd)
  define h where "h = length ?f - length d"
  have lf: "length d \<le> length ?f" by (simp add: client_frame_def)
  obtain tail where m: "db_chunk b = ?f @ rest @ tail" using chunk_split [of b] b(7) fb by (metis append.assoc)
  define x where "x = take h ?f @ d @ rest @ tail"
  have n: "nat (db_ptr b) = length ?f + length rest" using nat_ptr [OF b(5)] b(7) fb by simp
  have parse: "wsParseInputFrame (db_chunk b) (nat (db_ptr b)) =
      Some \<lparr>wi_type = WS_BINARY_FRAME, wi_read = Some (length ?f), wi_data = Some (h, length d), wi_frame = x\<rparr>"
    unfolding n unfolding m h_def x_def by (rule parse_client_frame [OF binary_data d(1-3)]) simp_all
  have lx: "length x = length (db_chunk b)" using lf unfolding m x_def h_def by simp
  define b1 where "b1 = b\<lparr>db_chunk := x\<rparr>"
  have ok1: "db_ok b1" using b(5) lx by (auto simp: b1_def db_ok_def)
  have c1: "db_contents b1 = take h ?f @ d @ rest"
    using n lf by (simp add: b1_def db_contents_def x_def h_def)
  have sz: "int (length ?f) \<le> db_ptr b1" using n db_okD(1) [OF b(5)] by (simp add: b1_def)
  obtain b2 where b2: "databuffer_pop b1 (int (length ?f)) = Some (db_ptr b1 - int (length ?f), b2)" "db_ok b2"
    "db_contents b2 = drop (nat (int (length ?f))) (db_contents b1)" "db_sz b2 = db_sz b1"
    using databuffer_pop_contents [OF ok1 _ sz] by auto
  have r: "db_contents b2 = rest" "db_ptr b1 - int (length ?f) = int (length rest)"
    unfolding b2(3) c1 using n lf db_okD(1) [OF b(5)] by (simp_all add: h_def b1_def)
  have data: "take (length d) (drop h x) = d" using lf by (simp add: x_def h_def)
  let ?c = "c\<lparr>wc_buffer := Some b2, wc_hs := Some hs\<rparr>"
  have "gatews_message junk handle g c = Some (int (length rest),
      [log_debug handle (bytes_of ''[gatews]forward data sz='' @ fmt_d (int (length (payload_text d)))),
       text_call handle g fd (payload_text d)], ?c)"
    using payload_fits [OF d(2,4)] d(4) b b2(1) r(2) data
    by (simp add: gatews_message_def gatews_parse_def parse gatews_forward_def Let_def b1_def
        payload_text_def text_call_def send_forward_def)
  moreover have "conn_live g fd ?c" "conn_bytes ?c = rest"
    using b b2 r by (simp_all add: conn_live_def conn_bytes_def b1_def)
  ultimately show ?thesis using that by (simp add: kd)
qed

lemma gatews_message_part:
  assumes live: "conn_live g fd c" and c: "conn_bytes c \<noteq> []"
    "partial_frame packet_bytes (ws_packet_good g) (conn_bytes c)"
  shows "gatews_message junk handle g c = Some (0, [], c)"
proof -
  obtain b hs where b: "wc_buffer c = Some b" "wc_hs c = Some hs" "wc_state c = WS_STATE_NORMAL" "wc_fd c = fd"
    "db_ok b" "db_sz b = gw_buffer_max g" "conn_bytes c = db_contents b"
    using live by (auto elim: conn_liveE)
  obtain key d ys where kd: "ws_packet_good g (key, d)" "client_frame WS_BINARY_FRAME key d = db_contents b @ ys" "ys \<noteq> []"
    using c b(7) by (auto simp: partial_frame_def packet_bytes_def)
  have d: "0 < length d" "length d \<le> 0xFFFF" "length key = 4" "int (length d) \<le> gw_buffer_max g - 32"
    using kd(1) by (simp_all add: ws_packet_good_def)
  note n = nat_ptr [OF b(5)]
  have parse: "wsParseInputFrame (db_chunk b) (nat (db_ptr b)) =
      Some \<lparr>wi_type = WS_INCOMPLETE_FRAME, wi_read = None, wi_data = None, wi_frame = db_chunk b\<rparr>"
    unfolding n
  proof (rule parse_part [OF binary_data d(1-3)])
    show "0 < length (db_contents b)" using c(1) b(7) by simp
    show "length (db_contents b) < length (client_frame WS_BINARY_FRAME key d)" using kd(2,3) by simp
    show "length (db_contents b) \<le> length (db_chunk b)" by (simp add: db_contents_def)
    show "take (length (db_contents b)) (db_chunk b) = take (length (db_contents b)) (client_frame WS_BINARY_FRAME key d)"
      unfolding kd(2) using n by (simp add: db_contents_def)
  qed
  have "length (client_frame WS_BINARY_FRAME key d) \<le> length d + 8"
    using d(2,3) by (simp add: client_frame_def rfc_length_def)
  then have "db_ptr b < db_sz b" using kd(2,3) d(4) b(6) length_db_contents [OF b(5)] by (cases ys) simp_all
  then show ?thesis using b by (simp add: gatews_message_def gatews_parse_def parse databuffer_isfull_def Let_def)
qed

section \<open>The loop\<close>

text \<open>The calls that are not log lines.\<close>

fun is_log :: "call \<Rightarrow> bool" where
  "is_log (Logger h lev t) = True"
| "is_log _ = False"

definition visible :: "call list \<Rightarrow> call list" where
  "visible calls = filter (\<lambda>c. \<not> is_log c) calls"

lemma visible_simps [simp]:
  "visible [] = []" "visible (a @ b) = visible a @ visible b" "visible (Logger h lev t # calls) = visible calls"
  "visible (text_call handle g fd d # calls) = text_call handle g fd d # visible calls"
  "visible (Socket_start fd # calls) = Socket_start fd # visible calls"
  "visible (Socket_send fd d # calls) = Socket_send fd d # visible calls"
  by (simp_all add: visible_def text_call_def)

definition packet_text :: "u32 \<Rightarrow> gatews \<Rightarrow> int \<Rightarrow> ws_packet \<Rightarrow> call" where
  "packet_text handle g fd p = text_call handle g fd (payload_text (snd p))"

definition ws_push :: "byte list \<Rightarrow> gatews_conn \<Rightarrow> gatews_conn option" where
  "ws_push d c = do {
     b \<leftarrow> wc_buffer c;
     b \<leftarrow> push_chunk d b;
     Some (c\<lparr>wc_buffer := Some b\<rparr>) }"

definition ws_take :: "u32 list \<Rightarrow> u32 \<Rightarrow> gatews \<Rightarrow> gatews_conn \<Rightarrow> (call list \<times> gatews_conn) option" where
  "ws_take junk handle g c =
     (if conn_bytes c = [] then Some ([], c)
      else map_option (\<lambda>(calls, c). (visible calls, c)) (gatews_loop junk handle g c))"

lemma packet_bytes_Nil: "packet_bytes p \<noteq> []"
  by (simp add: packet_bytes_def client_frame_def)

lemma gatews_loop_frames:
  "conn_live g fd c \<Longrightarrow> list_all (ws_packet_good g) ps \<Longrightarrow> conn_bytes c = frames packet_bytes ps @ rest \<Longrightarrow>
   partial_frame packet_bytes (ws_packet_good g) rest \<Longrightarrow> conn_bytes c \<noteq> [] \<Longrightarrow>
   \<exists>calls c'. gatews_loop junk handle g c = Some (calls, c') \<and> visible calls = map (packet_text handle g fd) ps
     \<and> conn_live g fd c' \<and> conn_bytes c' = rest"
proof (induction ps arbitrary: c)
  case Nil
  then have "gatews_message junk handle g c = Some (0, [], c)" by (intro gatews_message_part) simp_all
  with Nil show ?case by (subst gatews_loop.simps) simp
next
  case (Cons p ps)
  have p: "ws_packet_good g p" "conn_bytes c = packet_bytes p @ (frames packet_bytes ps @ rest)" using Cons.prems by simp_all
  obtain log c1 where c1: "gatews_message junk handle g c = Some (int (length (frames packet_bytes ps @ rest)),
      [log_debug handle log, text_call handle g fd (payload_text (snd p))], c1)"
    "conn_live g fd c1" "conn_bytes c1 = frames packet_bytes ps @ rest"
    by (rule gatews_message_frame [OF Cons.prems(1) p]) blast
  show ?case
  proof (cases "frames packet_bytes ps @ rest = []")
    case True
    then have "ps = []" by (cases ps) (auto simp: packet_bytes_Nil)
    with True c1 show ?thesis by (subst gatews_loop.simps) (simp add: packet_text_def)
  next
    case False
    with Cons.IH [OF c1(2) _ c1(3)] Cons.prems(2,4) c1(3) obtain calls c' where
      "gatews_loop junk handle g c1 = Some (calls, c')" "visible calls = map (packet_text handle g fd) ps"
      "conn_live g fd c'" "conn_bytes c' = rest" by auto
    moreover from False have "int (length (frames packet_bytes ps @ rest)) \<noteq> 0" by (simp only: of_nat_eq_0_iff length_0_conv not_False_eq_True)
    ultimately show ?thesis using c1(1) by (subst gatews_loop.simps) (simp add: packet_text_def False del: length_append append_is_Nil_conv)
  qed
qed

interpretation ws: packet_buffer conn_bytes "\<lambda>c. nat (gw_buffer_max g)" ws_push "ws_take junk handle g"
  packet_bytes "ws_packet_good g" "packet_text handle g fd" "conn_live g fd"
  for g junk handle fd
proof unfold_locales
  fix c and d :: "byte list"
  assume live: "conn_live g fd c" and l: "length (conn_bytes c) + length d \<le> nat (gw_buffer_max g)"
  obtain b hs where b: "wc_buffer c = Some b" "wc_hs c = Some hs" "wc_state c = WS_STATE_NORMAL" "wc_fd c = fd"
    "db_ok b" "db_sz b = gw_buffer_max g" "conn_bytes c = db_contents b"
    using live by (auto elim: conn_liveE)
  have "\<exists>b'. push_chunk d b = Some b' \<and> db_ok b' \<and> db_contents b' = db_contents b @ d \<and> nat (db_sz b') = nat (db_sz b)"
    by (rule stream.app_contents [OF b(5)]) (use l b in simp)
  then obtain b' where b': "push_chunk d b = Some b'" "db_ok b'" "db_contents b' = db_contents b @ d" "nat (db_sz b') = nat (db_sz b)"
    by blast
  have "db_sz b' = db_sz b" using b'(2,4) b(5) by (auto simp: db_ok_def)
  then show "\<exists>c'. ws_push d c = Some c' \<and> conn_live g fd c' \<and> conn_bytes c' = conn_bytes c @ d
      \<and> nat (gw_buffer_max g) = nat (gw_buffer_max g)"
    using b b' by (simp add: ws_push_def conn_live_def conn_bytes_def)
next
  fix c ps rest
  assume a: "conn_live g fd c" "list_all (ws_packet_good g) ps" "conn_bytes c = frames packet_bytes ps @ rest"
    "partial_frame packet_bytes (ws_packet_good g) rest"
  show "\<exists>c'. ws_take junk handle g c = Some (map (packet_text handle g fd) ps, c') \<and> conn_live g fd c'
      \<and> conn_bytes c' = rest \<and> nat (gw_buffer_max g) = nat (gw_buffer_max g)"
  proof (cases "conn_bytes c = []")
    case True
    then have "ps = []" "rest = []" using a(3) by (cases ps; auto simp: packet_bytes_Nil)+
    with True a(1) show ?thesis by (simp add: ws_take_def)
  next
    case False
    from gatews_loop_frames [OF a False, of junk handle] False show ?thesis by (auto simp: ws_take_def)
  qed
qed

text \<open>The loop looks only at where the gate sends to and at the size of its buffers.\<close>

lemma gatews_message_cong:
  assumes "gw_forward g' = gw_forward g" "gw_buffer_max g' = gw_buffer_max g"
  shows "gatews_message junk handle g' = gatews_message junk handle g"
proof -
  have "gatews_forward handle g' = gatews_forward handle g"
    by (intro ext) (simp only: gatews_forward_def send_forward_def assms)
  then show ?thesis by (intro ext) (simp only: gatews_message_def)
qed

lemma gatews_loop_cong1:
  assumes m: "gatews_message junk handle g' = gatews_message junk handle g"
    and l: "gatews_loop junk handle g c = Some y"
  shows "gatews_loop junk handle g' c = Some y"
proof -
  have "j = junk \<longrightarrow> h = handle \<longrightarrow> x = g \<longrightarrow> gatews_loop junk handle g' c = Some y"
    if "gatews_loop j h x c = Some y" for j h x c y
    using _ that
  proof (rule gatews_loop.raw_induct [where P = "\<lambda>j h x c y. j = junk \<longrightarrow> h = handle \<longrightarrow> x = g \<longrightarrow> gatews_loop junk handle g' c = Some y"])
    fix loop j h x c y
    assume IH: "\<And>j h x c y. loop j h x c = Some y \<Longrightarrow>
        j = junk \<longrightarrow> h = handle \<longrightarrow> x = g \<longrightarrow> gatews_loop junk handle g' c = Some y"
      and e: "gatews_message j h x c \<bind> (\<lambda>(r, calls, conn).
         if r = 0 then Some (calls, conn)
         else loop j h x conn \<bind> (\<lambda>(calls', conn). Some (calls @ calls', conn))) = Some y"
    show "j = junk \<longrightarrow> h = handle \<longrightarrow> x = g \<longrightarrow> gatews_loop junk handle g' c = Some y"
    proof (intro impI)
      assume eq: "j = junk" "h = handle" "x = g"
      from e obtain r calls c1 where r: "gatews_message junk handle g c = Some (r, calls, c1)"
        "(if r = 0 then Some (calls, c1)
          else loop junk handle g c1 \<bind> (\<lambda>(calls', conn). Some (calls @ calls', conn))) = Some y"
        unfolding eq by (auto simp: bind_eq_Some_conv)
      then show "gatews_loop junk handle g' c = Some y"
        using IH [of junk handle g c1] by (subst gatews_loop.simps) (auto simp: m bind_eq_Some_conv split: if_split_asm)
    qed
  qed
  then show ?thesis using l by blast
qed

lemma gatews_loop_cong:
  assumes "gw_forward g' = gw_forward g" "gw_buffer_max g' = gw_buffer_max g"
  shows "gatews_loop junk handle g' c = gatews_loop junk handle g c"
proof -
  note m = gatews_message_cong [OF assms, of junk handle]
  show ?thesis
    using gatews_loop_cong1 [OF m, of c] gatews_loop_cong1 [OF m [symmetric], of c]
    by (cases "gatews_loop junk handle g c"; cases "gatews_loop junk handle g' c") auto
qed

section \<open>Messages of a connection\<close>

text \<open>A message as the socket server's results become one.\<close>

definition socket_event :: "skynet_socket_message \<Rightarrow> skynet_message" where
  "socket_event m = \<lparr>m_type = SERVICE_SOCKET, m_data = Some (Socket m), m_size = sizeof_socket_message + length (sm_tail m),
     m_source = 0, m_session = 0\<rparr>"

fun gatews_run ::
  "u32 list \<Rightarrow> (nat \<Rightarrow> byte) \<Rightarrow> u32 \<Rightarrow> skynet_message list \<Rightarrow> gatews \<Rightarrow> (call list \<times> gatews) option" where
  "gatews_run junk heap handle [] g = Some ([], g)"
| "gatews_run junk heap handle (m # ms) g = do {
     (c1, g) \<leftarrow> gatews_callback junk heap handle m g;
     (c2, g) \<leftarrow> gatews_run junk heap handle ms g;
     Some (c1 @ c2, g) }"

definition conn_slot :: "gatews \<Rightarrow> int \<Rightarrow> nat \<Rightarrow> bool" where
  "conn_slot g fd i \<longleftrightarrow> hashid_ok (gw_hash g) \<and> 0 \<le> fd \<and> slot_of (gw_hash g) fd = Some i \<and> i < length (gw_conn g)"

lemma callback_dispatch:
  "gatews_callback junk heap handle (socket_event m) g =
     gatews_dispatch_socket_message junk heap handle m (int (length (sm_tail m))) g"
  by (simp add: gatews_callback_def socket_event_def)

lemma callback_data:
  assumes s: "conn_slot g fd i" and b: "wc_buffer (gw_conn g ! i) = Some b" and d: "d \<noteq> []"
    and push: "push_chunk d b = Some b1"
    and loop: "gatews_loop junk handle g ((gw_conn g ! i)\<lparr>wc_buffer := Some b1\<rparr>) = Some (calls, c)"
  shows "\<exists>log. gatews_callback junk heap handle (socket_event (data_message fd d)) g =
    Some (log_debug handle log # calls, ws_set_conn (int i) c g)"
proof -
  have l: "hashid_lookup (gw_hash g) fd = Some (int i)"
    using s hashid_lookup_slot [of "gw_hash g" fd] by (simp add: conn_slot_def)
  from push obtain r where r: "databuffer_push b d (int (length d)) = Some (r, b1)" "\<not> r < 0"
    by (auto simp: push_chunk_def bind_eq_Some_conv split: if_splits)
  then have "r = int (length d)" by (auto simp: databuffer_push_def bind_eq_Some_conv split: if_splits)
  then have "\<not> r \<le> 0" using d by simp
  then show ?thesis using l s b r(1) loop
    by (simp add: callback_dispatch gatews_dispatch_socket_message_def gatews_on_data_def data_message_def conn_slot_def
        ws_conn_at_def at_def Let_def)
qed

lemma set_conn_slot: "conn_slot g fd i \<Longrightarrow> conn_slot (ws_set_conn (int i) c g) fd i"
  "conn_slot g fd i \<Longrightarrow> gw_conn (ws_set_conn (int i) c g) ! i = c"
  "gw_forward (ws_set_conn (int i) c g) = gw_forward g" "gw_buffer_max (ws_set_conn (int i) c g) = gw_buffer_max g"
  by (simp_all add: conn_slot_def ws_set_conn_def)

text \<open>The request that opens the connection.\<close>

definition conn_new :: "gatews \<Rightarrow> int \<Rightarrow> gatews_conn \<Rightarrow> bool" where
  "conn_new g fd c \<longleftrightarrow> wc_fd c = fd \<and> wc_hs c = Some nullHandshake \<and> wc_state c = WS_STATE_OPENING
     \<and> (case wc_buffer c of Some b \<Rightarrow> db_ok b \<and> db_sz b = gw_buffer_max g \<and> db_contents b = [] | None \<Rightarrow> False)"

definition opening_ok :: "gatews \<Rightarrow> byte list \<Rightarrow> byte list list \<Rightarrow> bool" where
  "opening_ok g res headers \<longleftrightarrow> resource_ok res \<and> list_all header_ok headers \<and> opens headers
     \<and> length (last (field_values keyField headers)) mod 64 \<noteq> 20
     \<and> int (length (request res headers)) \<le> gw_buffer_max g"

lemma gatews_message_opening:
  assumes c: "conn_new g fd c" and r: "opening_ok g res headers" and junk: "length junk = 16"
    and b: "wc_buffer c = Some b" "push_chunk (request res headers) b = Some b1"
  obtains log c' where "gatews_loop junk handle g (c\<lparr>wc_buffer := Some b1\<rparr>) =
      Some ([Socket_send fd (accept_answer (last (field_values keyField headers))), log_debug handle log], c')"
    "conn_live g fd c'" "conn_bytes c' = []"
proof -
  let ?r = "request res headers"
  from c b(1) have c': "wc_fd c = fd" "wc_hs c = Some nullHandshake" "wc_state c = WS_STATE_OPENING" "db_ok b"
    "db_sz b = gw_buffer_max g" "db_contents b = []" by (simp_all add: conn_new_def)
  have "\<exists>b'. push_chunk ?r b = Some b' \<and> db_ok b' \<and> db_contents b' = db_contents b @ ?r \<and> nat (db_sz b') = nat (db_sz b)"
    by (rule stream.app_contents [OF c'(4)]) (use r c' in \<open>simp add: opening_ok_def le_nat_iff\<close>)
  then have b1: "db_ok b1" "db_contents b1 = ?r" "nat (db_sz b1) = nat (db_sz b)" using b(2) c'(6) by auto
  then have sz: "db_sz b1 = gw_buffer_max g" using c'(4,5) by (auto simp: db_ok_def)
  obtain rest where chunk: "db_chunk b1 = ?r @ rest" using chunk_split [of b1] b1(2) by metis
  have o: "resource_ok res" "list_all header_ok headers" "opens headers" using r by (simp_all add: opening_ok_def)
  note parse = parse_request [OF o(1,2), of "length ?r" rest, OF order.refl]
  have k: "field_values keyField headers \<noteq> []" using o(3) by (simp add: opens_def)
  have key: "length (last (field_values keyField headers)) < 256" by (rule key_length [OF o(2) k])
  note answer = handshake_answer(1) [OF _ _ key _ junk, of _ 1024]
  have kv: "last_value keyField headers None = Some (last (field_values keyField headers))" using k by (simp add: last_value_def)
  have same: "b1\<lparr>db_chunk := ?r @ rest\<rparr> = b1" by (simp flip: chunk)
  have "db_ok (databuffer_reset b1)" "db_contents (databuffer_reset b1) = []" "db_sz (databuffer_reset b1) = gw_buffer_max g"
    using b1(1) sz by (auto simp: databuffer_reset_def db_ok_def db_contents_def)
  then have "\<exists>log c'. gatews_message junk handle g (c\<lparr>wc_buffer := Some b1\<rparr>) =
     Some (0, [Socket_send fd (accept_answer (last (field_values keyField headers))), log_debug handle log], c')
     \<and> conn_live g fd c' \<and> conn_bytes c' = []"
    using r c' parse o(3) kv nat_ptr [OF b1(1)] b1(2)
    by (simp add: gatews_message_def gatews_parse_def opening_ok_def answer Let_def chunk same conn_live_def conn_bytes_def)
  then show ?thesis using that by (subst (asm) gatews_loop.simps) auto
qed

section \<open>Accepting a connection\<close>

definition gatews_ok :: "gatews \<Rightarrow> bool" where
  "gatews_ok g \<longleftrightarrow> hashid_ok (gw_hash g) \<and> length (gw_conn g) = nat (hi_cap (gw_hash g)) \<and> 0 \<le> gw_buffer_max g"

text \<open>A new socket, announced with an address of at most 52 bytes.\<close>

definition accept_ok :: "gatews \<Rightarrow> skynet_socket_message \<Rightarrow> bool" where
  "accept_ok g m \<longleftrightarrow> sm_type m = SKYNET_SOCKET_TYPE_ACCEPT \<and> sm_id m = gw_listen_fd g \<and> 0 \<le> sm_ud m
     \<and> slot_of (gw_hash g) (sm_ud m) = None \<and> length (sm_tail m) \<le> 52"

definition connect_text :: "byte list \<Rightarrow> byte list" where
  "connect_text name = bytes_of ''connect|'' @ fmt_d (int (length name)) @ bytes_of ''|'' @ name"

lemma callback_accept:
  assumes g: "gatews_ok g" "\<not> hashid_full (gw_hash g)" and m: "accept_ok g m"
  obtains calls g' i where "gatews_callback junk heap handle (socket_event m) g = Some (calls, g')"
    "visible calls = [text_call handle g (sm_ud m) (connect_text (cstr (sm_tail m))), Socket_start (sm_ud m)]"
    "conn_slot g' (sm_ud m) i" "conn_new g' (sm_ud m) (gw_conn g' ! i)"
    "gw_forward g' = gw_forward g" "gw_buffer_max g' = gw_buffer_max g"
proof -
  from g m have a: "hashid_ok (gw_hash g)" "length (gw_conn g) = nat (hi_cap (gw_hash g))" "0 \<le> gw_buffer_max g"
    "sm_type m = SKYNET_SOCKET_TYPE_ACCEPT" "sm_id m = gw_listen_fd g" "0 \<le> sm_ud m"
    "slot_of (gw_hash g) (sm_ud m) = None" "length (sm_tail m) \<le> 52" by (auto simp: gatews_ok_def accept_ok_def)
  from hashid_insert_ok [OF a(1,6,7) g(2)] obtain i hash where
    h: "hashid_insert (gw_hash g) (sm_ud m) = Some (int i, hash)" "hashid_ok hash"
    "i < length (hi_id (gw_hash g))" "slot_of hash = (slot_of (gw_hash g))(sm_ud m := Some i)" by blast
  have i: "i < length (gw_conn g)" using h(3) a(1,2) by (simp add: hashid_okD)
  let ?name = "cstr (sm_tail m)" and ?g = "g\<lparr>gw_hash := hash\<rparr>"
  have nm: "length ?name \<le> 52" unfolding cstr_def using length_takeWhile_le a(8) by (rule order.trans)
  have "length (fmt_d (int (length ?name))) \<le> 2" using nm by (intro length_fmt_d) simp_all
  then have spr: "sprintf 64 (connect_text ?name) = Some (connect_text ?name)" using nm by (simp add: sprintf_def connect_text_def)
  obtain c where c: "conn_init heap ?g (sm_ud m) (sm_tail m) (int (length (sm_tail m))) = Some c"
    "wc_remote_name c = Some ?name" "wc_fd c = sm_ud m" "conn_new ?g (sm_ud m) c"
    using a(3) by (auto simp: conn_init_def conn_new_def databuffer_create_def db_ok_def db_contents_def)
  have acc: "gatews_accept handle ?g c = Some [text_call handle g (sm_ud m) (connect_text ?name)]"
    using c(2,3) spr by (simp add: gatews_accept_def send_forward_def text_call_def connect_text_def)
  have "gatews_callback junk heap handle (socket_event m) g =
      Some ([text_call handle g (sm_ud m) (connect_text ?name), Socket_start (sm_ud m),
        log_debug handle (bytes_of ''[gatews]accept fd='' @ fmt_d (sm_ud m) @ bytes_of '' addr='' @ ?name)],
        ws_set_conn (int i) c ?g)"
    using a(4,5) g(2) h(1) i c(1-3) acc
    by (simp add: callback_dispatch gatews_dispatch_socket_message_def gatews_on_accept_def ws_conn_at_def at_def Let_def
        SKYNET_SOCKET_TYPE_ACCEPT_def SKYNET_SOCKET_TYPE_DATA_def)
  moreover have "conn_slot (ws_set_conn (int i) c ?g) (sm_ud m) i" "gw_conn (ws_set_conn (int i) c ?g) ! i = c"
    using h(2,4) a(6) i by (simp_all add: conn_slot_def ws_set_conn_def)
  moreover have "conn_new (ws_set_conn (int i) c ?g) (sm_ud m) c" using c(4)
    by (simp add: conn_new_def ws_set_conn_def split: option.splits)
  ultimately show ?thesis using that by (simp add: set_conn_slot(3,4))
qed

section \<open>The stream\<close>

lemma push_nonempty: "push_chunk d b = Some b' \<Longrightarrow> d \<noteq> [] \<Longrightarrow> db_contents b' \<noteq> []"
  by (cases d) (auto simp: push_chunk_def databuffer_push_def copy_to_def db_contents_def bind_eq_Some_conv split: if_splits)

lemma ws_take_cong:
  "gw_forward g' = gw_forward g \<Longrightarrow> gw_buffer_max g' = gw_buffer_max g \<Longrightarrow> ws_take junk handle g' = ws_take junk handle g"
  using gatews_loop_cong [of g' g junk handle] by (intro ext) (simp add: ws_take_def)

lemma gatews_run_stream:
  "conn_slot g fd i \<Longrightarrow> feed ws_push (ws_take junk handle g) ds (gw_conn g ! i) = Some (out, c') \<Longrightarrow> [] \<notin> set ds \<Longrightarrow>
   \<exists>calls g'. gatews_run junk heap handle (map (\<lambda>d. socket_event (data_message fd d)) ds) g = Some (calls, g')
     \<and> visible calls = out"
proof (induction ds arbitrary: g out)
  case (Cons d ds)
  let ?c = "gw_conn g ! i"
  from Cons.prems(2) obtain c1 ps c2 rs where f: "ws_push d ?c = Some c1" "ws_take junk handle g c1 = Some (ps, c2)"
    "feed ws_push (ws_take junk handle g) ds c2 = Some (rs, c')" "out = ps @ rs" by (auto simp: bind_eq_Some_conv)
  from f(1) obtain b b1 where b: "wc_buffer ?c = Some b" "push_chunk d b = Some b1" "c1 = ?c\<lparr>wc_buffer := Some b1\<rparr>"
    by (auto simp: ws_push_def bind_eq_Some_conv)
  have d: "d \<noteq> []" using Cons.prems(3) by auto
  have "conn_bytes c1 \<noteq> []" using push_nonempty [OF b(2) d] by (simp add: conn_bytes_def b(3))
  with f(2) obtain calls where l: "gatews_loop junk handle g c1 = Some (calls, c2)" "visible calls = ps"
    by (auto simp: ws_take_def)
  from callback_data [OF Cons.prems(1) b(1) d b(2) l(1) [unfolded b(3)], of heap] obtain log where
    cb: "gatews_callback junk heap handle (socket_event (data_message fd d)) g =
      Some (log_debug handle log # calls, ws_set_conn (int i) c2 g)" by blast
  let ?g = "ws_set_conn (int i) c2 g"
  have "feed ws_push (ws_take junk handle ?g) ds (gw_conn ?g ! i) = Some (rs, c')"
    using f(3) set_conn_slot(2) [OF Cons.prems(1)] ws_take_cong [OF set_conn_slot(3,4)] by simp
  from Cons.IH [OF set_conn_slot(1) [OF Cons.prems(1)] this] Cons.prems(3) obtain calls' g' where
    "gatews_run junk heap handle (map (\<lambda>d. socket_event (data_message fd d)) ds) ?g = Some (calls', g')" "visible calls' = rs"
    by auto
  with cb l(2) f(4) show ?case by simp
qed simp

lemma callback_request:
  assumes s: "conn_slot g fd i" and c: "conn_new g fd (gw_conn g ! i)" and r: "opening_ok g res headers"
    and junk: "length junk = 16"
  obtains calls g' where "gatews_callback junk heap handle (socket_event (data_message fd (request res headers))) g = Some (calls, g')"
    "visible calls = [Socket_send fd (accept_answer (last (field_values keyField headers)))]"
    "conn_slot g' fd i" "conn_live g' fd (gw_conn g' ! i)" "conn_bytes (gw_conn g' ! i) = []"
    "gw_forward g' = gw_forward g" "gw_buffer_max g' = gw_buffer_max g"
proof -
  let ?c = "gw_conn g ! i" and ?r = "request res headers"
  from c obtain b where b: "wc_buffer ?c = Some b" "db_ok b" "db_sz b = gw_buffer_max g" "db_contents b = []"
    by (auto simp: conn_new_def split: option.splits)
  have "\<exists>b'. push_chunk ?r b = Some b' \<and> db_ok b' \<and> db_contents b' = db_contents b @ ?r \<and> nat (db_sz b') = nat (db_sz b)"
    by (rule stream.app_contents [OF b(2)]) (use r b in \<open>simp add: opening_ok_def le_nat_iff\<close>)
  then obtain b1 where b1: "push_chunk ?r b = Some b1" by blast
  obtain log c' where l: "gatews_loop junk handle g (?c\<lparr>wc_buffer := Some b1\<rparr>) =
      Some ([Socket_send fd (accept_answer (last (field_values keyField headers))), log_debug handle log], c')"
    "conn_live g fd c'" "conn_bytes c' = []"
    by (rule gatews_message_opening [OF c r junk b(1) b1])
  have "?r \<noteq> []" by (simp add: request_def rn_def)
  from callback_data [OF s b(1) this b1 l(1), of heap] obtain log' where
    "gatews_callback junk heap handle (socket_event (data_message fd ?r)) g =
       Some (log_debug handle log' # [Socket_send fd (accept_answer (last (field_values keyField headers))), log_debug handle log],
         ws_set_conn (int i) c' g)" by blast
  moreover have "conn_live (ws_set_conn (int i) c' g) fd c'"
    using l(2) set_conn_slot(4) by (simp add: conn_live_def split: option.splits)
  ultimately show ?thesis using that set_conn_slot(1,2) [OF s, of c'] set_conn_slot(3,4) l(3) by simp
qed

section \<open>Empty frames\<close>

text \<open>An empty binary frame at the front of the buffer stays there.\<close>

lemma gatews_message_empty:
  assumes live: "conn_live g fd c" and c: "conn_bytes c = 0x82 # 0x80 # rest" and mx: "32 \<le> gw_buffer_max g"
  obtains log c' where
    "gatews_message junk handle g c =
       Some (int (length (conn_bytes c)), [log_debug handle log, text_call handle g fd (payload_text [])], c')"
    "conn_live g fd c'" "conn_bytes c' = conn_bytes c"
proof -
  obtain b hs where b: "wc_buffer c = Some b" "wc_hs c = Some hs" "wc_state c = WS_STATE_NORMAL" "wc_fd c = fd"
    "db_ok b" "db_sz b = gw_buffer_max g" "conn_bytes c = db_contents b"
    using live by (auto elim: conn_liveE)
  obtain tail where m: "db_chunk b = 0x82 # 0x80 # rest @ tail" using chunk_split [of b] b(7) c by (metis append_Cons)
  have n: "nat (db_ptr b) = length rest + 2" using nat_ptr [OF b(5)] c unfolding b(7) by simp
  have parse: "wsParseInputFrame (db_chunk b) (nat (db_ptr b)) =
      Some \<lparr>wi_type = WS_BINARY_FRAME, wi_read = None, wi_data = None, wi_frame = db_chunk b\<rparr>"
    unfolding n m by (simp add: wsParseInputFrame_def opcode_type_def getPayloadLength_def Let_def)
  obtain b2 where b2: "databuffer_pop b 0 = Some (db_ptr b - 0, b2)" "db_ok b2" "db_contents b2 = drop (nat 0) (db_contents b)"
    "db_sz b2 = db_sz b" using databuffer_pop_contents [OF b(5), of 0] db_okD(1) [OF b(5)] by auto
  have head: "int (length (bytes_of ''forward|'' @ fmt_d 0 @ bytes_of ''|'') + max 1 0) \<le> gw_buffer_max g"
    using payload_fits [of 0 "gw_buffer_max g"] mx by simp
  have r: "db_ptr b = int (length (conn_bytes c))" using b(5,7) by simp
  let ?c = "c\<lparr>wc_buffer := Some b2, wc_hs := Some hs\<rparr>"
  have "gatews_message junk handle g c = Some (db_ptr b,
      [log_debug handle (bytes_of ''[gatews]forward data sz='' @ fmt_d (int (length (payload_text [])))),
       text_call handle g fd (payload_text [])], ?c)"
    using head mx b(1-4) b2(1)
    by (simp add: gatews_message_def gatews_parse_def parse gatews_forward_def Let_def
        payload_text_def text_call_def send_forward_def)
  moreover have "conn_live g fd ?c" "conn_bytes ?c = conn_bytes c"
    using b b2 by (simp_all add: conn_live_def conn_bytes_def)
  ultimately show ?thesis using that r by simp
qed

lemma gatews_loop_empty:
  assumes "conn_live g fd c" "conn_bytes c = 0x82 # 0x80 # rest" "32 \<le> gw_buffer_max g"
  shows "gatews_loop junk handle g c = None"
proof -
  have "\<not> (conn_live g fd c \<and> conn_bytes c = 0x82 # 0x80 # rest \<and> 32 \<le> gw_buffer_max g)"
    if "gatews_loop j h g c = Some y" for j h g c y
    using that
  proof (rule gatews_loop.raw_induct [where
        P = "\<lambda>j h g c y. \<not> (conn_live g fd c \<and> conn_bytes c = 0x82 # 0x80 # rest \<and> 32 \<le> gw_buffer_max g)", rotated])
    fix loop j h g c y
    assume IH: "\<And>j h g c y. loop j h g c = Some y \<Longrightarrow>
        \<not> (conn_live g fd c \<and> conn_bytes c = 0x82 # 0x80 # rest \<and> 32 \<le> gw_buffer_max g)"
      and e: "gatews_message j h g c \<bind> (\<lambda>(r, calls, conn).
         if r = 0 then Some (calls, conn)
         else loop j h g conn \<bind> (\<lambda>(calls', conn). Some (calls @ calls', conn))) = Some y"
    show "\<not> (conn_live g fd c \<and> conn_bytes c = 0x82 # 0x80 # rest \<and> 32 \<le> gw_buffer_max g)"
    proof
      assume a: "conn_live g fd c \<and> conn_bytes c = 0x82 # 0x80 # rest \<and> 32 \<le> gw_buffer_max g"
      then obtain log c' where "gatews_message j h g c =
          Some (int (length (conn_bytes c)), [log_debug h log, text_call h g fd (payload_text [])], c')"
        "conn_live g fd c'" "conn_bytes c' = conn_bytes c" by (auto intro: gatews_message_empty [of g fd c rest j h])
      moreover from this(1) a e obtain z where "loop j h g c' = Some z" by (auto simp: bind_eq_Some_conv)
      ultimately show False using IH a by auto
    qed
  qed
  with assms show ?thesis by (cases "gatews_loop junk handle g c") auto
qed

section \<open>Properties\<close>


text \<open>A gate with room for two connections, and an accepted socket.\<close>

definition two_ws :: gatews where
  "two_ws = \<lparr>gw_listen_fd = 3, gw_listen_port = 80, gw_buffer_max = 512, gw_connect_max = 2, gw_forward = bytes_of ''fw'',
     gw_hash = hashid_init 2,
     gw_conn = replicate 2 \<lparr>wc_fd = -1, wc_remote_name = None, wc_buffer = None, wc_hs = None, wc_state = WS_STATE_OPENING\<rparr>\<rparr>"

lemma two_ws_created: "gatews_create (\<lambda>_ _ _. 3) 0x102 (bytes_of ''fw,80,2,512'') =
    Some (0, [Socket_listen (bytes_of ''0.0.0.0'') 80 32,
      log_notice 0x102 (bytes_of ''[gatews]listen port:80 fd:3''), Socket_start 3], Some two_ws)"
  by code_simp

lemma two_ws_ready:
  "gatews_ok two_ws" "\<not> hashid_full (gw_hash two_ws)" "accept_ok two_ws (accept_message 3 5)"
  "opening_ok two_ws (bytes_of ''/chat'') sample_headers"
proof -
  have h: "hashid_ok (hashid_init 2)" "slot_of (hashid_init 2) 5 = None" "hi_cap (hashid_init 2) = 2"
    using hashid_init_ok [of 2] by simp_all
  show "gatews_ok two_ws" using h by (simp add: gatews_ok_def two_ws_def)
  show "\<not> hashid_full (gw_hash two_ws)" by code_simp
  show "accept_ok two_ws (accept_message 3 5)" using h(2) by (simp add: accept_ok_def accept_message_def two_ws_def)
  have "resource_ok (bytes_of ''/chat'')" "length (request (bytes_of ''/chat'') sample_headers) \<le> 512" by code_simp+
  then show "opening_ok two_ws (bytes_of ''/chat'') sample_headers"
    using sample_headers_ok by (simp add: opening_ok_def two_ws_def)
qed


text \<open>C38: A binary frame without a payload hangs the thread of the gate: the round that finds it forwards an
  empty text, takes nothing out of the buffer and asks for another round, so that the loop over the
  messages of the connection never returns.\<close>

theorem empty_binary_frame_hangs:
  assumes "conn_live g fd c" "conn_bytes c = 0x82 # 0x80 # rest" "32 \<le> gw_buffer_max g"
  shows "(\<exists>r log c'. gatews_message junk handle g c = Some (r, [log_debug handle log, text_call handle g fd (payload_text [])], c')
      \<and> 0 < r \<and> conn_live g fd c' \<and> conn_bytes c' = conn_bytes c)
    \<and> gatews_loop junk handle g c = None"
proof (rule conjI)
  obtain log c' where "gatews_message junk handle g c = Some (int (length (conn_bytes c)),
      [log_debug handle log, text_call handle g fd (payload_text [])], c')"
    "conn_live g fd c'" "conn_bytes c' = conn_bytes c" by (rule gatews_message_empty [OF assms])
  moreover have "0 < int (length (conn_bytes c))" using assms(2) by simp
  ultimately show "\<exists>r log c'. gatews_message junk handle g c =
      Some (r, [log_debug handle log, text_call handle g fd (payload_text [])], c')
      \<and> 0 < r \<and> conn_live g fd c' \<and> conn_bytes c' = conn_bytes c" by blast
qed (rule gatews_loop_empty [OF assms])

definition empty_frame_conn :: gatews_conn where
  "empty_frame_conn = \<lparr>wc_fd = 5, wc_remote_name = Some [], wc_buffer = Some \<lparr>db_sz = 512, db_ptr = 6,
     db_chunk = [0x82, 0x80, 1, 2, 3, 4] @ replicate 506 0\<rparr>, wc_hs = Some nullHandshake, wc_state = WS_STATE_NORMAL\<rparr>"

lemma empty_binary_frame_hangs_witness: "gatews_loop (replicate 16 0) 0x102 two_ws empty_frame_conn = None"
proof -
  have "conn_live two_ws 5 empty_frame_conn"
    by (simp add: conn_live_def empty_frame_conn_def two_ws_def db_ok_def)
  moreover have "conn_bytes empty_frame_conn = 0x82 # 0x80 # [1, 2, 3, 4]"
    by code_simp
  ultimately show ?thesis using empty_binary_frame_hangs [of two_ws 5 empty_frame_conn "[1, 2, 3, 4]" "replicate 16 0" "0x102"]
    by (simp add: two_ws_def)
qed

end
