(* ===== verification/Config.thy ===== *)
theory Config
  imports Service_Api "HOL-Library.Sublist"
begin

text \<open>
  The configuration file (\<open>skynet_config.c\<close>): sections of \<open>option=value\<close> lines, read line by line at
  every look-up. The bytes of the file are an argument, \<open>None\<close> when it cannot be opened. A result is the
  log lines and the value, which the caller keeps as it was when there is none. What
  \<open>printf\<close> shows is left out.
\<close>

section \<open>Lines\<close>

text \<open>\<open>fgets\<close> into an array of \<open>n\<close> bytes: the line and the rest of the file.\<close>

definition fgets :: "nat \<Rightarrow> byte list \<Rightarrow> (byte list \<times> byte list) option" where
  "fgets n file =
     (if file = [] then None
      else let k = min (n - 1) (length (takeWhile (\<lambda>b. b \<noteq> 10) file) + 1) in Some (take k file, drop k file))"

text \<open>The loop that copies a line without its blanks and quotes, up to a comment.\<close>

fun config_line :: "byte list \<Rightarrow> byte list" where
  "config_line [] = []"
| "config_line (b # bs) =
     (if b = 0 \<or> b = 35 then []
      else if b = 32 \<or> b = 10 \<or> b = 13 \<or> b = 34 then config_line bs
      else b # config_line bs)"

section \<open>Look-up\<close>

text \<open>
  What a line of the right section means: \<open>None\<close> for the next line, \<open>Some None\<close> for a failure and
  \<open>Some (Some v)\<close> for the value. \<open>strncmp (buff, option, split-buff)\<close> only looks at as many
  characters as the line has before its \<open>=\<close>.
\<close>

definition config_option ::
  "byte list \<Rightarrow> int \<Rightarrow> byte list \<Rightarrow> byte list option option" where
  "config_option opt sz buff =
     (let k = length (takeWhile (\<lambda>b. b \<noteq> 61) buff) in
      if buff \<noteq> [] \<and> hd buff = 91 \<and> last buff = 93 then Some None
      else if k < length buff \<and> int (length buff) - int k < sz then
        (if prefix (take k buff) opt then Some (Some (drop (k + 1) buff)) else None)
      else Some None)"

definition config_fail :: "byte list \<Rightarrow> byte list \<Rightarrow> byte list \<Rightarrow> byte list \<Rightarrow> call" where
  "config_fail file_name sect opt buff =
     log_error 0
       (if buff \<noteq> [] \<and> hd buff = 91 \<and> last buff = 93
        then bytes_of ''[skynet]fail to find '' @ sect @ bytes_of '':'' @ opt @ bytes_of '' in config file: '' @ file_name @ [10]
        else bytes_of ''[skynet]fail to parse config file: '' @ file_name @ [10])"

lemma fgets_shorter: "1 < n \<Longrightarrow> fgets n file = Some (line, file') \<Longrightarrow> length file' < length file"
  by (auto simp: fgets_def Let_def split: if_splits)

function config_parse ::
  "byte list \<Rightarrow> bool \<Rightarrow> byte list \<Rightarrow> byte list \<Rightarrow> int \<Rightarrow> byte list \<Rightarrow> (call list \<times> byte list option) option" where
  "config_parse file_name flag sect opt sz file =
     (case fgets 1024 file of
        None \<Rightarrow> Some ([], None)
      | Some (line, file') \<Rightarrow>
          let buff = config_line line in
          if \<not> flag then do {
            title \<leftarrow> sprintf 1024 (bytes_of ''['' @ sect @ bytes_of '']'');
            config_parse file_name (prefix title buff) sect opt sz file' }
          else
            (case config_option opt sz buff of
               None \<Rightarrow> config_parse file_name flag sect opt sz file'
             | Some None \<Rightarrow> Some ([config_fail file_name sect opt buff], None)
             | Some (Some v) \<Rightarrow> Some ([], Some v)))"
  by pat_completeness auto
termination
  by (relation "measure (\<lambda>(_, _, _, _, _, file). length file)") (auto dest!: fgets_shorter [rotated])

declare config_parse.simps [simp del]

definition skynet_config_string ::
  "byte list \<Rightarrow> byte list option \<Rightarrow> byte list \<Rightarrow> byte list \<Rightarrow> int \<Rightarrow> (call list \<times> byte list option) option" where
  "skynet_config_string file_name file sect opt sz =
     (case file of
        None \<Rightarrow> Some ([log_error 0 (bytes_of ''[skynet]fail to open config file: '' @ file_name @ [10])], None)
      | Some f \<Rightarrow> config_parse file_name False sect opt sz f)"

definition skynet_config_int ::
  "byte list \<Rightarrow> byte list option \<Rightarrow> byte list \<Rightarrow> byte list \<Rightarrow> (call list \<times> int option) option" where
  "skynet_config_int file_name file sect opt = do {
     (calls, r) \<leftarrow> skynet_config_string file_name file sect opt 1024;
     case r of
       None \<Rightarrow> Some (calls, None)
     | Some s \<Rightarrow> do { i \<leftarrow> atoi (s @ [0]); Some (calls, Some i) } }"

section \<open>Files as they are written\<close>

text \<open>The text of a file with its sections, and which names and values can be written.\<close>

type_synonym config_section = "byte list \<times> (byte list \<times> byte list) list"

definition option_text :: "byte list \<times> byte list \<Rightarrow> byte list" where
  "option_text kv = fst kv @ [61] @ snd kv @ [10]"

definition section_text :: "config_section \<Rightarrow> byte list" where
  "section_text s = [91] @ fst s @ [93, 10] @ concat (map option_text (snd s))"

definition plain :: "byte list \<Rightarrow> bool" where
  "plain s \<longleftrightarrow> s \<noteq> [] \<and> list_all (\<lambda>b. b \<notin> {0, 35, 32, 10, 13, 34, 61, 91, 93}) s"

definition plain_option :: "byte list \<times> byte list \<Rightarrow> bool" where
  "plain_option kv \<longleftrightarrow> plain (fst kv) \<and> plain (snd kv) \<and> length (fst kv) + length (snd kv) + 2 < 1024"

definition plain_section :: "config_section \<Rightarrow> bool" where
  "plain_section s \<longleftrightarrow> plain (fst s) \<and> length (fst s) + 3 < 1024 \<and> list_all plain_option (snd s)"

lemma fgets_line: "10 \<notin> set l \<Longrightarrow> length l + 1 < n \<Longrightarrow> fgets n (l @ 10 # r) = Some (l @ [10], r)"
proof -
  assume l: "10 \<notin> set l" "length l + 1 < n"
  then have "takeWhile (\<lambda>b. b \<noteq> 10) (l @ 10 # r) = l" by (subst takeWhile_append2) auto
  then show ?thesis using l(2) by (cases "n = length l + 2") (auto simp: fgets_def Let_def min_def)
qed

lemma config_line_kept:
  "list_all (\<lambda>b. b \<notin> {0, 35, 32, 10, 13, 34}) l \<Longrightarrow> config_line (l @ [10]) = l"
  by (induction l) auto

text \<open>A line of another section, of the right one before it is found, and of the right one.\<close>

lemma parse_skip:
  assumes l: "list_all (\<lambda>b. b \<notin> {0, 35, 32, 10, 13, 34}) l" "length l + 1 < 1024"
    and s: "length sect + 2 < 1024" "\<not> prefix (91 # sect @ [93]) l"
  shows "config_parse file_name False sect opt sz (l @ 10 # r) = config_parse file_name False sect opt sz r"
proof -
  have "10 \<notin> set l" using l(1) by (auto simp: list_all_iff)
  then show ?thesis using s l
    by (subst config_parse.simps) (simp add: fgets_line config_line_kept sprintf_def bytes_of_def Let_def)
qed

lemma parse_title:
  assumes "plain sect" "length sect + 3 < 1024"
  shows "config_parse file_name False sect opt sz ([91] @ sect @ [93, 10] @ r) = config_parse file_name True sect opt sz r"
proof -
  have l: "list_all (\<lambda>b. b \<notin> {0, 35, 32, 10, 13, 34}) (91 # sect @ [93])" "10 \<notin> set (91 # sect @ [93])"
    using assms(1) by (auto simp: plain_def list_all_iff)
  have "fgets 1024 ((91 # sect @ [93]) @ 10 # r) = Some ((91 # sect @ [93]) @ [10], r)"
    by (rule fgets_line [OF l(2)]) (use assms in simp)
  moreover have "config_line ((91 # sect @ [93]) @ [10]) = 91 # sect @ [93]" by (rule config_line_kept [OF l(1)])
  ultimately show ?thesis using assms(2)
    by (subst config_parse.simps) (simp add: sprintf_def bytes_of_def Let_def)
qed

lemma parse_option:
  assumes kv: "plain_option (k, v)" and sz: "int (length v) + 1 < sz"
  shows "config_parse file_name True sect opt sz (option_text (k, v) @ r) =
    (if prefix k opt then Some ([], Some v) else config_parse file_name True sect opt sz r)"
proof -
  let ?l = "k @ [61] @ v"
  have p: "plain k" "plain v" "length ?l + 1 < 1024" using kv by (auto simp: plain_option_def)
  have l: "list_all (\<lambda>b. b \<notin> {0, 35, 32, 10, 13, 34}) ?l" "10 \<notin> set ?l" using p(1,2) by (auto simp: plain_def list_all_iff)
  have k: "takeWhile (\<lambda>b. b \<noteq> 61) ?l = k" using p(1) by (subst takeWhile_append2) (auto simp: plain_def list_all_iff)
  have h: "hd ?l \<noteq> 91" using p(1) by (cases k) (auto simp: plain_def)
  have "config_option opt sz ?l = (if prefix k opt then Some (Some v) else None)"
    using h k sz by (simp add: config_option_def Let_def)
  moreover have "fgets 1024 (?l @ 10 # r) = Some (?l @ [10], r)" by (rule fgets_line [OF l(2) p(3)])
  moreover have "config_line (?l @ [10]) = ?l" by (rule config_line_kept [OF l(1)])
  ultimately show ?thesis
    by (subst config_parse.simps) (simp add: option_text_def Let_def)
qed

section \<open>Properties\<close>

lemma parse_section_skip:
  assumes s: "plain_section (name, kvs)" and t: "plain sect" "length sect + 3 < 1024" "name \<noteq> sect"
  shows "config_parse file_name False sect opt sz (section_text (name, kvs) @ r) = config_parse file_name False sect opt sz r"
proof -
  have no: "\<not> prefix (91 # sect @ [93]) (91 # name @ [93])"
  proof
    assume "prefix (91 # sect @ [93]) (91 # name @ [93])"
    then obtain zs where z: "name @ [93] = sect @ 93 # zs" by (auto simp: prefix_def)
    have "93 \<notin> set name" "93 \<notin> set sect" using s t by (auto simp: plain_section_def plain_def list_all_iff)
    then have "takeWhile (\<lambda>b. b \<noteq> 93) (name @ 93 # []) = name" "takeWhile (\<lambda>b. b \<noteq> 93) (sect @ 93 # zs) = sect"
      by (subst takeWhile_append2; auto)+
    with z t(3) show False by simp
  qed
  have "list_all plain_option kvs \<Longrightarrow>
    config_parse file_name False sect opt sz (concat (map option_text kvs) @ r) = config_parse file_name False sect opt sz r"
  proof (induction kvs)
    case (Cons kv kvs)
    obtain k v where kv: "kv = (k, v)" by (cases kv)
    have p: "plain k" "plain v" "length (k @ [61] @ v) + 1 < 1024" using Cons.prems by (auto simp: plain_option_def kv)
    have l: "list_all (\<lambda>b. b \<notin> {0, 35, 32, 10, 13, 34}) (k @ [61] @ v)" using p(1,2) by (auto simp: plain_def list_all_iff)
    have "\<not> prefix (91 # sect @ [93]) (k @ [61] @ v)" using p(1) by (cases k) (auto simp: plain_def)
    from parse_skip [OF l p(3) _ this] t(2) Cons show ?case by (simp add: option_text_def kv)
  qed simp
  moreover have "list_all (\<lambda>b. b \<notin> {0, 35, 32, 10, 13, 34}) (91 # name @ [93])" "length (91 # name @ [93]) + 1 < 1024"
    using s by (auto simp: plain_section_def plain_def list_all_iff)
  ultimately show ?thesis using s t(2) parse_skip [OF _ _ _ no, of file_name opt sz "concat (map option_text kvs) @ r"]
    by (simp add: section_text_def plain_section_def)
qed

lemma parse_options:
  "list_all plain_option kvs \<Longrightarrow> list_all (\<lambda>kv. int (length (snd kv)) + 1 < sz) kvs \<Longrightarrow>
   list_all (\<lambda>kv. prefix (fst kv) opt \<longrightarrow> fst kv = opt) kvs \<Longrightarrow> map_of kvs opt = Some v \<Longrightarrow>
   config_parse file_name True sect opt sz (concat (map option_text kvs) @ r) = Some ([], Some v)"
proof (induction kvs)
  case (Cons kv kvs)
  obtain k x where kv: "kv = (k, x)" by (cases kv)
  with Cons parse_option [of k x sz file_name sect opt "concat (map option_text kvs) @ r"] show ?case
    by (auto split: if_splits)
qed simp



end
