(* ===== verification/Harbor_Service.thy ===== *)
theory Harbor_Service
  imports Gate Config
begin

text \<open>
  The harbor service (\<open>service_harbor.c\<close>), which links the nodes of a cluster: it sends remote messages to the node
  of their target, and hands the messages that come from other nodes on to local services. It connects to
  every node of the configuration and accepts a connection from each. \<open>connect\<close> and \<open>listen\<close>
  are the answers of the socket server, \<open>conf\<close> is the configuration. The structure of the service is
  not cleared when it is created; \<open>h0\<close> is what its memory holds then.
\<close>

section \<open>State\<close>

definition CLUSTER_ADDR_MAX :: nat where "CLUSTER_ADDR_MAX = 32"
definition SERVICE_NAME_MAX :: nat where "SERVICE_NAME_MAX = 64"
definition HARBOR_CLUSTER_MAX :: nat where "HARBOR_CLUSTER_MAX = 32"
definition REMOTE_SERVICE_MAX :: nat where "REMOTE_SERVICE_MAX = 256"

record harbor_cluster =
  hc_fd :: int
  hc_port :: int
  hc_harbor_id :: int
  hc_addr :: "byte list"

record harbor_remote_service =
  hr_name :: "byte list"
  hr_harbor_id :: int

record harbor =
  ha_harbor_id :: int
  ha_listen_fd :: int
  ha_listen_port :: int
  ha_buffer_size :: int
  ha_remote_service_count :: int
  ha_hash :: hashid
  ha_buffer :: "databuffer option list"
  ha_hcs :: "harbor_cluster list"
  ha_rss :: "harbor_remote_service list"

type_synonym config = "byte list \<times> byte list option"

section \<open>Clusters\<close>

text \<open>A pointer to a cluster is its index.\<close>

fun cluster_from :: "nat \<Rightarrow> int \<Rightarrow> harbor_cluster list \<Rightarrow> nat option" where
  "cluster_from i fd [] = None"
| "cluster_from i fd (c # clusters) = (if hc_fd c = fd then Some i else cluster_from (Suc i) fd clusters)"

definition harbor_get_cluster_fd :: "harbor \<Rightarrow> int \<Rightarrow> nat option" where
  "harbor_get_cluster_fd h fd = cluster_from 0 fd (take HARBOR_CLUSTER_MAX (ha_hcs h))"

definition harbor_get_cluster_id :: "harbor \<Rightarrow> int \<Rightarrow> nat option" where
  "harbor_get_cluster_id h harbor_id =
     (if harbor_id > 0 \<and> harbor_id < int HARBOR_CLUSTER_MAX then Some (nat harbor_id) else None)"

text \<open>\<open>Some None\<close> is the null pointer; an index outside the array is a fault.\<close>

fun cluster_named :: "harbor_remote_service list \<Rightarrow> byte list \<Rightarrow> int option" where
  "cluster_named [] name = None"
| "cluster_named (s # ss) name = (if hr_name s = name then Some (hr_harbor_id s) else cluster_named ss name)"

definition harbor_get_cluster_name :: "harbor \<Rightarrow> byte list \<Rightarrow> nat option option" where
  "harbor_get_cluster_name h name =
     (case cluster_named (take (nat (ha_remote_service_count h)) (ha_rss h)) name of
        None \<Rightarrow> Some None
      | Some i \<Rightarrow> if 0 \<le> i \<and> i < int (length (ha_hcs h)) then Some (Some (nat i)) else None)"

section \<open>Loading the configuration\<close>

definition harbor_load_service ::
  "u32 \<Rightarrow> harbor \<Rightarrow> int \<Rightarrow> byte list \<Rightarrow> (int \<times> call list \<times> harbor) option" where
  "harbor_load_service handle h harbor_id name =
     (if ha_remote_service_count h \<ge> int REMOTE_SERVICE_MAX then
        Some (1, [log_error handle (bytes_of ''[harbor]service name='' @ name @ bytes_of '', max count=''
                    @ fmt_d (ha_remote_service_count h))], h)
      else if ha_remote_service_count h < 0 then None
      else do {
        n \<leftarrow> sprintf SERVICE_NAME_MAX name;
        Some (0, [], h\<lparr>ha_remote_service_count := ha_remote_service_count h + 1,
          ha_rss := (ha_rss h)[nat (ha_remote_service_count h) := \<lparr>hr_name = n, hr_harbor_id = harbor_id\<rparr>]\<rparr>) })"

text \<open>The part of a string before the next comma and the string behind it.\<close>

definition next_comma :: "byte list \<Rightarrow> (byte list \<times> byte list) option" where
  "next_comma p =
     (let w = takeWhile (\<lambda>b. b \<noteq> 44) p in if length w = length p then None else Some (w, drop (length w + 1) p))"

lemma next_comma_shorter: "next_comma p = Some (w, p') \<Longrightarrow> length p' < length p"
  using length_takeWhile_le [of "\<lambda>b. b \<noteq> 44" p] by (auto simp: next_comma_def Let_def split: if_splits)

function load_services ::
  "u32 \<Rightarrow> harbor \<Rightarrow> int \<Rightarrow> byte list \<Rightarrow> (int \<times> call list \<times> harbor) option" where
  "load_services handle h harbor_id p =
     (case next_comma p of
        None \<Rightarrow> harbor_load_service handle h harbor_id p
      | Some (name, p') \<Rightarrow>
          (case harbor_load_service handle h harbor_id name of
             None \<Rightarrow> None
           | Some (r, calls, h) \<Rightarrow>
               if r \<noteq> 0 then Some (1, calls, h)
               else map_option (\<lambda>(r, calls', h). (r, calls @ calls', h)) (load_services handle h harbor_id p')))"
  by pat_completeness auto
termination by (relation "measure (\<lambda>(_, _, _, p). length p)") (auto dest: next_comma_shorter)

declare load_services.simps [simp del]

text \<open>
  The results of the four look-ups are not tested: without a value the variables stay uninitialised. The test of
  \<open>harbor_id\<close> asks for a number that is both negative and large.
\<close>

definition harbor_load_cluster ::
  "(byte list \<Rightarrow> int \<Rightarrow> int) \<Rightarrow> config \<Rightarrow> u32 \<Rightarrow> harbor \<Rightarrow> byte list \<Rightarrow> (int \<times> call list \<times> harbor) option" where
  "harbor_load_cluster connect conf handle h name = do {
     (l1, r) \<leftarrow> skynet_config_int (fst conf) (snd conf) name (bytes_of ''harbor'');
     harbor_id \<leftarrow> r;
     (l2, r) \<leftarrow> skynet_config_int (fst conf) (snd conf) name (bytes_of ''port'');
     port \<leftarrow> r;
     (l3, r) \<leftarrow> skynet_config_string (fst conf) (snd conf) name (bytes_of ''addr'') 1024;
     addr \<leftarrow> r;
     (l4, r) \<leftarrow> skynet_config_string (fst conf) (snd conf) name (bytes_of ''services'') 1024;
     services \<leftarrow> r;
     if harbor_id < 0 \<and> harbor_id \<ge> int HARBOR_CLUSTER_MAX then
       Some (1, [log_error handle (bytes_of ''[harbor]invalid harobr id='' @ fmt_d harbor_id)], h)
     else if harbor_id \<noteq> ha_harbor_id h then
       (if harbor_id < 0 \<or> harbor_id \<ge> int (length (ha_hcs h)) then None
        else do {
          let fd = connect addr port;
          addr' \<leftarrow> sprintf CLUSTER_ADDR_MAX addr;
          let cluster = \<lparr>hc_fd = fd, hc_port = port, hc_harbor_id = harbor_id, hc_addr = addr'\<rparr>;
          (r, calls, h) \<leftarrow> load_services handle (h\<lparr>ha_hcs := (ha_hcs h)[nat harbor_id := cluster]\<rparr>) harbor_id services;
          Some (r, [Socket_connect addr port,
                    log_debug handle (bytes_of ''[harbor]create cluster:'' @ name @ bytes_of '' harbor:'' @ fmt_d harbor_id
                      @ bytes_of '' '' @ addr' @ bytes_of '':'' @ fmt_d port @ bytes_of '' fd:'' @ fmt_d fd)] @ calls, h) })
     else Some (0, [], h) }"

function load_clusters ::
  "(byte list \<Rightarrow> int \<Rightarrow> int) \<Rightarrow> config \<Rightarrow> u32 \<Rightarrow> harbor \<Rightarrow> byte list \<Rightarrow> (int \<times> call list \<times> harbor) option" where
  "load_clusters connect conf handle h p =
     (case next_comma p of
        None \<Rightarrow> harbor_load_cluster connect conf handle h p
      | Some (name, p') \<Rightarrow>
          (case harbor_load_cluster connect conf handle h name of
             None \<Rightarrow> None
           | Some (r, calls, h) \<Rightarrow>
               if r \<noteq> 0 then Some (1, calls, h)
               else map_option (\<lambda>(r, calls', h). (r, calls @ calls', h)) (load_clusters connect conf handle h p')))"
  by pat_completeness auto
termination by (relation "measure (\<lambda>(_, _, _, _, p). length p)") (auto dest: next_comma_shorter)

declare load_clusters.simps [simp del]

definition harbor_load_clusters ::
  "(byte list \<Rightarrow> int \<Rightarrow> int) \<Rightarrow> config \<Rightarrow> u32 \<Rightarrow> harbor \<Rightarrow> (int \<times> call list \<times> harbor) option" where
  "harbor_load_clusters connect conf handle h = do {
     (l, r) \<leftarrow> skynet_config_string (fst conf) (snd conf) (bytes_of ''skynet'') (bytes_of ''cluster_list'') 1024;
     cluster_list \<leftarrow> r;
     load_clusters connect conf handle h cluster_list }"

section \<open>Messages to and from other nodes\<close>

text \<open>An unsigned number or a \<open>size_t\<close> printed with \<open>%d\<close>.\<close>

definition fmt_u :: "nat \<Rightarrow> byte list" where
  "fmt_u n = fmt_d (sint (word_of_nat n :: u32))"

definition remote_log :: "string \<Rightarrow> byte list \<Rightarrow> skynet_remote_message \<Rightarrow> byte list" where
  "remote_log what msg r =
     bytes_of what @ bytes_of '' name='' @ cstr msg @ bytes_of '' handle='' @ fmt_u (unat (rm_handle r))
     @ bytes_of '' source='' @ fmt_u (unat (rm_source r)) @ bytes_of '' session='' @ fmt_u (unat (rm_session r))
     @ bytes_of '' type='' @ fmt_d (rm_type r) @ bytes_of '' size='' @ fmt_u (rm_size r)"

definition harbor_forward_remote_message ::
  "u32 \<Rightarrow> harbor \<Rightarrow> skynet_remote_message \<Rightarrow> call list option" where
  "harbor_forward_remote_message handle h rmsg = do {
     cluster \<leftarrow> (if rm_handle rmsg \<noteq> 0 then Some (harbor_get_cluster_id h (skynet_harbor_id (rm_handle rmsg)))
        else harbor_get_cluster_name h (cstr (header_bytes rmsg)));
     case cluster of
       None \<Rightarrow> Some [log_error handle (bytes_of ''[harbor]find cluster failed'')]
     | Some i \<Rightarrow> do {
         c \<leftarrow> at (ha_hcs h) i;
         let head = skynet_remote_message_header + rm_size rmsg;
         let ulen = head + 4;
         (_, body) \<leftarrow> skynet_remote_message_push rmsg ulen;
         if ulen \<ge> 2 ^ 31 then None
         else Some [Socket_send (hc_fd c) (int_bytes (int head) @ body),
               log_debug handle (bytes_of ''[harbor]send fd='' @ fmt_d (hc_fd c) @ bytes_of '' size='' @ fmt_d (int ulen)
                 @ bytes_of '' head='' @ fmt_d (int head)),
               log_debug handle (remote_log ''[harbor]remote message forward'' (header_bytes rmsg) rmsg)] } }"

text \<open>The loop over the packets of a connection.\<close>

partial_function (option) harbor_forward_local_message ::
  "u32 \<Rightarrow> databuffer \<Rightarrow> (call list \<times> databuffer) option" where
  "harbor_forward_local_message handle b =
     (case databuffer_readpack b of
        (sz, data) \<Rightarrow>
          if sz = 0 then Some ([], b)
          else if sz < 0 then None
          else do {
            i \<leftarrow> data;
            let msg = drop (nat i) (db_chunk b);
            b' \<leftarrow> databuffer_freepack b;
            (calls, b'') \<leftarrow> harbor_forward_local_message handle b';
            Some (log_debug handle (remote_log ''[harbor]local message forward'' msg (read_header msg))
                  # Local_forward (take (nat sz) msg) # calls, b'') })"

definition harbor_cluster_reconnect ::
  "(byte list \<Rightarrow> int \<Rightarrow> int) \<Rightarrow> u32 \<Rightarrow> harbor \<Rightarrow> int \<Rightarrow> (call list \<times> harbor) option" where
  "harbor_cluster_reconnect connect handle h harbor_id =
     (case harbor_get_cluster_id h harbor_id of
        None \<Rightarrow> Some ([], h)
      | Some i \<Rightarrow> do {
          c \<leftarrow> at (ha_hcs h) i;
          let fd = connect (hc_addr c) (hc_port c);
          Some ([Socket_connect (hc_addr c) (hc_port c),
                 log_debug handle (bytes_of ''[harbor]connecting fd='' @ fmt_d fd @ bytes_of '' harbor_id='' @ fmt_d (hc_harbor_id c))],
                h\<lparr>ha_hcs := (ha_hcs h)[i := c\<lparr>hc_fd := fd\<rparr>]\<rparr>) })"

section \<open>The service\<close>

definition harbor_create ::
  "(byte list \<Rightarrow> int \<Rightarrow> int) \<Rightarrow> (byte list \<Rightarrow> int \<Rightarrow> int \<Rightarrow> int) \<Rightarrow> config \<Rightarrow> u32 \<Rightarrow> int \<Rightarrow> byte list \<Rightarrow> harbor
     \<Rightarrow> (int \<times> call list \<times> harbor) option" where
  "harbor_create connect listen conf handle harbor args h0 = do {
     (port, r) \<leftarrow> scan_int args;
     r \<leftarrow> scan_comma r;
     (bsz, _) \<leftarrow> scan_int r;
     let h = h0\<lparr>ha_harbor_id := harbor, ha_listen_port := port, ha_buffer_size := bsz,
                ha_hash := hashid_init (int HARBOR_CLUSTER_MAX)\<rparr>;
     (r, calls, h) \<leftarrow> harbor_load_clusters connect conf handle h;
     if r \<noteq> 0 then Some (1, calls, h)
     else do {
       let host = bytes_of ''0.0.0.0'';
       let fd = listen host port BACKLOG;
       let h = h\<lparr>ha_listen_fd := fd\<rparr>;
       if fd < 0 then Some (1, calls @ [Socket_listen host port BACKLOG], h)
       else Some (0, calls @ [Socket_listen host port BACKLOG, Harbor_start, Socket_start fd,
              log_notice handle (bytes_of ''[harbor]listen port:'' @ fmt_d port @ bytes_of '' fd '' @ fmt_d fd)], h) } }"

definition harbor_release :: "harbor \<Rightarrow> call list" where
  "harbor_release h = [Harbor_exit]"

definition harbor_on_data :: "u32 \<Rightarrow> skynet_socket_message \<Rightarrow> harbor \<Rightarrow> (call list \<times> harbor) option" where
  "harbor_on_data handle m h = do {
     let log = log_debug handle (bytes_of ''[harbor]recv fd='' @ fmt_d (sm_id m) @ bytes_of '' size='' @ fmt_d (sm_ud m));
     i \<leftarrow> hashid_lookup (ha_hash h) (sm_id m);
     if i \<ge> 0 then do {
       slot \<leftarrow> at (ha_buffer h) (nat i);
       b \<leftarrow> slot;
       d \<leftarrow> sm_buffer m;
       (r, b) \<leftarrow> databuffer_push b d (sm_ud m);
       let long = (if r \<le> 0
         then [log_error handle (bytes_of ''[harbor]connection '' @ fmt_d (sm_id m) @ bytes_of '' recv data too long, size:''
                 @ fmt_d (sm_ud m)), Socket_close (sm_id m)]
         else []);
       (calls, b) \<leftarrow> harbor_forward_local_message handle b;
       Some (log # long @ calls, h\<lparr>ha_buffer := (ha_buffer h)[nat i := Some b]\<rparr>) }
     else
       Some ([log, log_error handle (bytes_of ''[harbor]recv unknown connection '' @ fmt_d (sm_id m) @ bytes_of '' message''),
              Socket_close (sm_id m)], h) }"

definition harbor_on_accept :: "u32 \<Rightarrow> skynet_socket_message \<Rightarrow> harbor \<Rightarrow> (call list \<times> harbor) option" where
  "harbor_on_accept handle m h =
     (let addr = cstr (sm_tail m) in
      if hashid_full (ha_hash h) then
        Some ([Socket_close (sm_ud m),
               log_debug handle (bytes_of ''[harbor]accept max fd='' @ fmt_d (sm_ud m) @ bytes_of '' addr='' @ addr)], h)
      else do {
        (i, hash) \<leftarrow> hashid_insert (ha_hash h) (sm_ud m);
        _ \<leftarrow> at (ha_buffer h) (nat i);
        Some ([Socket_start (sm_ud m),
               log_debug handle (bytes_of ''[harbor]accept fd='' @ fmt_d (sm_ud m) @ bytes_of '' addr='' @ addr)],
              h\<lparr>ha_hash := hash, ha_buffer := (ha_buffer h)[nat i := Some (databuffer_create (ha_buffer_size h))]\<rparr>) })"

definition harbor_on_close :: "u32 \<Rightarrow> skynet_socket_message \<Rightarrow> harbor \<Rightarrow> (call list \<times> harbor) option" where
  "harbor_on_close handle m h = do {
     let log = log_debug handle (bytes_of ''[harbor]close fd='' @ fmt_d (sm_id m));
     let (timer, h) = (case harbor_get_cluster_fd h (sm_id m) of
         Some i \<Rightarrow> ([Timer_register handle 0 (int_bytes (hc_harbor_id (ha_hcs h ! i))) 1000],
                     h\<lparr>ha_hcs := (ha_hcs h)[i := (ha_hcs h ! i)\<lparr>hc_fd := 0\<rparr>]\<rparr>)
       | None \<Rightarrow> ([], h));
     (i, hash) \<leftarrow> hashid_remove (ha_hash h) (sm_id m);
     let h = h\<lparr>ha_hash := hash\<rparr>;
     if i \<ge> 0 then do {
       slot \<leftarrow> at (ha_buffer h) (nat i);
       _ \<leftarrow> slot;
       Some (log # timer, h\<lparr>ha_buffer := (ha_buffer h)[nat i := None]\<rparr>) }
     else Some (log # timer, h) }"

definition harbor_dispatch_socket :: "u32 \<Rightarrow> skynet_socket_message \<Rightarrow> harbor \<Rightarrow> (call list \<times> harbor) option" where
  "harbor_dispatch_socket handle m h =
     (if sm_type m = SKYNET_SOCKET_TYPE_DATA then harbor_on_data handle m h
      else if sm_type m = SKYNET_SOCKET_TYPE_ACCEPT then harbor_on_accept handle m h
      else if sm_type m = SKYNET_SOCKET_TYPE_CLOSE \<or> sm_type m = SKYNET_SOCKET_TYPE_ERROR then harbor_on_close handle m h
      else if sm_type m = SKYNET_SOCKET_TYPE_CONNECT then
        Some (if sm_id m = ha_listen_fd h then []
              else [log_debug handle (bytes_of ''[harbor]connected fd='' @ fmt_d (sm_id m))], h)
      else if sm_type m = SKYNET_SOCKET_TYPE_WARNING then
        Some ([log_warn handle (bytes_of ''[harbor]fd ('' @ fmt_d (sm_id m) @ bytes_of '') send buffer ('' @ fmt_d (sm_ud m) @ bytes_of '')K'')], h)
      else Some ([log_error handle (bytes_of ''[harbor]recv error message type '' @ fmt_d (sm_type m))], h))"

definition harbor_callback ::
  "(byte list \<Rightarrow> int \<Rightarrow> int) \<Rightarrow> u32 \<Rightarrow> skynet_message \<Rightarrow> harbor \<Rightarrow> (call list \<times> harbor) option" where
  "harbor_callback connect handle msg h =
     (if m_type msg = SERVICE_REMOTE then
        (case m_data msg of
           Some (Remote r) \<Rightarrow> map_option (\<lambda>calls. (calls, h)) (harbor_forward_remote_message handle h r)
         | _ \<Rightarrow> None)
      else if m_type msg = SERVICE_SOCKET then
        (case m_data msg of Some (Socket m) \<Rightarrow> harbor_dispatch_socket handle m h | _ \<Rightarrow> None)
      else if m_type msg = SERVICE_TIMER then
        (case m_data msg of
           Some (Bytes bs) \<Rightarrow> if length bs < 4 then None else harbor_cluster_reconnect connect handle h (bytes_int bs)
         | _ \<Rightarrow> None)
      else Some ([], h))"

end
