(* ===== verification/Harbor_Stream.thy ===== *)
theory Harbor_Stream
  imports Gatews_Stream Harbor_Service
begin

text \<open>
  What the harbor services of two nodes promise together: the messages that one node sends to another arrive
  once, in order and unchanged, whatever the chunks in which the connection carries their bytes. The buffers are
  those of \<open>Databuffer\<close>, the messages those of \<open>Remote\<close>.
\<close>

section \<open>Messages for another node\<close>

text \<open>
  What a service sends to another node: to a handle, or to a name when the handle is 0. \<open>en_junk\<close> is the
  uninitialised name of a message that goes to a handle.
\<close>

record envelope =
  en_target :: u32
  en_name :: cstring
  en_source :: u32
  en_session :: u32
  en_type :: int
  en_data :: "byte list"
  en_junk :: "byte list"

definition env_message :: "envelope \<Rightarrow> skynet_remote_message" where
  "env_message e = remote_message (if en_target e > 0 then en_junk e else strncpy32 (en_name e))
     (en_target e) (en_source e) (en_session e) (en_type e) (Some (Bytes (en_data e))) (length (en_data e))"

definition env_ok :: "envelope \<Rightarrow> bool" where
  "env_ok e \<longleftrightarrow> - (2 ^ 31) \<le> en_type e \<and> en_type e < 2 ^ 31 \<and> length (en_junk e) = 32
     \<and> skynet_remote_message_header + length (en_data e) + 4 < 2 ^ 31"

definition env_bytes :: "envelope \<Rightarrow> byte list" where
  "env_bytes e = header_bytes (env_message e) @ en_data e"

text \<open>Sending the messages on the receiving node, each to the service it is for.\<close>

fun deliver :: "byte list \<Rightarrow> envelope list \<Rightarrow> 'a world_scheme \<Rightarrow> 'a world_scheme option" where
  "deliver junk [] w = Some w"
| "deliver junk (e # es) w = do {
     w \<leftarrow> (if en_target e > 0
       then skynet_sendhandle junk (en_target e) (en_source e) (en_session e) (en_type e)
              (Some (Bytes (en_data e))) (length (en_data e)) w
       else skynet_sendname (cs (take 32 (chars_of (en_name e)))) (en_source e) (en_session e) (en_type e)
              (Some (Bytes (en_data e))) (length (en_data e)) w);
     deliver junk es w }"

lemma env_arrives:
  assumes "env_ok e"
  shows "length (env_bytes e) = skynet_remote_message_header + length (en_data e)"
    "skynet_local_message_forward junk (env_bytes e) (length (env_bytes e)) w =
       (if en_target e > 0
        then skynet_sendhandle junk (en_target e) (en_source e) (en_session e) (en_type e)
              (Some (Bytes (en_data e))) (length (en_data e)) w
        else skynet_sendname (cs (take 32 (chars_of (en_name e)))) (en_source e) (en_session e) (en_type e)
              (Some (Bytes (en_data e))) (length (en_data e)) w)"
    "skynet_remote_message_push (env_message e) (skynet_remote_message_header + length (en_data e) + 4)
       = Some (length (env_bytes e), env_bytes e)"
proof -
  have "en_type e < 2 ^ 31" "- (2 ^ 31) \<le> en_type e" "length (en_junk e) = 32" "length (en_data e) < 2 ^ 64"
    using assms by (simp_all add: env_ok_def)
  note r = remote_arrives [OF this(2,1,4) refl this(3) env_message_def, folded env_bytes_def]
  show l: "length (env_bytes e) = skynet_remote_message_header + length (en_data e)" by (rule r(1))
  show "skynet_remote_message_push (env_message e) (skynet_remote_message_header + length (en_data e) + 4)
       = Some (length (env_bytes e), env_bytes e)" unfolding l by (rule r(3)) simp
  show "skynet_local_message_forward junk (env_bytes e) (length (env_bytes e)) w =
       (if en_target e > 0
        then skynet_sendhandle junk (en_target e) (en_source e) (en_session e) (en_type e)
              (Some (Bytes (en_data e))) (length (en_data e)) w
        else skynet_sendname (cs (take 32 (chars_of (en_name e)))) (en_source e) (en_session e) (en_type e)
              (Some (Bytes (en_data e))) (length (en_data e)) w)" unfolding l by (rule r(2))
qed

lemma env_packet: "env_ok e \<Longrightarrow> packet_good (env_bytes e)"
  by (simp add: packet_good_def env_arrives env_ok_def skynet_remote_message_header_def sizeof_remote_message_def)

section \<open>Sending\<close>

text \<open>The connection that a message goes to.\<close>

definition fd_for :: "harbor \<Rightarrow> skynet_remote_message \<Rightarrow> int option" where
  "fd_for h r = do {
     cluster \<leftarrow> (if rm_handle r \<noteq> 0 then Some (harbor_get_cluster_id h (skynet_harbor_id (rm_handle r)))
        else harbor_get_cluster_name h (cstr (header_bytes r)));
     i \<leftarrow> cluster;
     map_option hc_fd (at (ha_hcs h) i) }"

definition remote_event :: "envelope \<Rightarrow> skynet_message" where
  "remote_event e = \<lparr>m_type = SERVICE_REMOTE, m_data = Some (Remote (env_message e)), m_size = sizeof_remote_message,
     m_source = en_source e, m_session = en_session e\<rparr>"

fun harbor_run ::
  "(byte list \<Rightarrow> int \<Rightarrow> int) \<Rightarrow> u32 \<Rightarrow> skynet_message list \<Rightarrow> harbor \<Rightarrow> (call list \<times> harbor) option" where
  "harbor_run connect handle [] h = Some ([], h)"
| "harbor_run connect handle (m # ms) h = do {
     (c1, h) \<leftarrow> harbor_callback connect handle m h;
     (c2, h) \<leftarrow> harbor_run connect handle ms h;
     Some (c1 @ c2, h) }"

text \<open>The bytes that a list of calls sends on a connection.\<close>

fun sent_to :: "int \<Rightarrow> call list \<Rightarrow> byte list" where
  "sent_to fd [] = []"
| "sent_to fd (Socket_send f d # calls) = (if f = fd then d @ sent_to fd calls else sent_to fd calls)"
| "sent_to fd (c # calls) = sent_to fd calls"

lemma sent_to_append: "sent_to fd (a @ b) = sent_to fd a @ sent_to fd b"
  by (induction fd a rule: sent_to.induct) simp_all

lemma visible_forward [simp]: "visible (Local_forward d # calls) = Local_forward d # visible calls"
  by (simp add: visible_def)

lemma forward_remote:
  assumes e: "env_ok e" and f: "fd_for h (env_message e) = Some fd"
  obtains l1 l2 where "harbor_forward_remote_message handle h (env_message e) =
    Some [Socket_send fd (packet_frame (env_bytes e)), log_debug handle l1, log_debug handle l2]"
proof -
  from f obtain i c where c: "(if rm_handle (env_message e) \<noteq> 0
      then Some (harbor_get_cluster_id h (skynet_harbor_id (rm_handle (env_message e))))
      else harbor_get_cluster_name h (cstr (header_bytes (env_message e)))) = Some (Some i)"
    "at (ha_hcs h) i = Some c" "hc_fd c = fd" by (auto simp: fd_for_def bind_eq_Some_conv)
  have sz: "rm_size (env_message e) = length (en_data e)" by (simp add: env_message_def remote_message_def)
  have "\<exists>l1 l2. harbor_forward_remote_message handle h (env_message e) =
      Some [Socket_send fd (packet_frame (env_bytes e)), log_debug handle l1, log_debug handle l2]"
    unfolding harbor_forward_remote_message_def c(1) using c(2,3) e
    by (simp add: sz env_arrives(1,3) [OF e] env_ok_def packet_frame_def Let_def)
  then show ?thesis using that by blast
qed

lemma harbor_sends:
  "list_all env_ok es \<Longrightarrow> list_all (\<lambda>e. fd_for h (env_message e) = Some fd) es \<Longrightarrow>
   \<exists>calls. harbor_run connect handle (map remote_event es) h = Some (calls, h)
     \<and> sent_to fd calls = frames packet_frame (map env_bytes es)"
proof (induction es)
  case (Cons e es)
  then have e: "env_ok e" "fd_for h (env_message e) = Some fd" by simp_all
  obtain l1 l2 where "harbor_forward_remote_message handle h (env_message e) =
    Some [Socket_send fd (packet_frame (env_bytes e)), log_debug handle l1, log_debug handle l2]"
    by (rule forward_remote [OF e])
  with Cons show ?case by (auto simp: harbor_callback_def remote_event_def sent_to_append)
qed simp

section \<open>Receiving\<close>

lemma harbor_forward_packs:
  "db_ok b \<Longrightarrow> read_packs b = Some (ps, b') \<Longrightarrow>
   \<exists>calls. harbor_forward_local_message handle b = Some (calls, b') \<and> visible calls = map Local_forward ps \<and> db_ok b'"
proof (induction ps arbitrary: b)
  case Nil
  from Nil.prems(1) have "fst (databuffer_readpack b) = 0 \<and> b' = b"
  proof (cases rule: readpack_cases)
    case (pack sz)
    with Nil.prems(2) show ?thesis by (simp add: read_packs.simps [of b] bind_eq_Some_conv split: prod.splits)
  qed (use Nil.prems(2) in \<open>simp_all add: read_packs.simps [of b]\<close>)
  with Nil.prems(1) show ?case by (subst harbor_forward_local_message.simps) (auto split: prod.splits)
next
  case (Cons p ps)
  from Cons.prems(1) show ?case
  proof (cases rule: readpack_cases)
    case (pack sz)
    from pack Cons.prems(2) obtain b1 where b1: "databuffer_freepack b = Some b1" "read_packs b1 = Some (ps, b')"
      "p = take (nat sz) (drop 4 (db_chunk b))" by (auto simp: read_packs.simps [of b] bind_eq_Some_conv)
    moreover have "db_ok b1" using freepack_ok [OF Cons.prems(1)] pack b1(1) by auto
    ultimately obtain calls where "harbor_forward_local_message handle b1 = Some (calls, b')" "visible calls = map Local_forward ps" "db_ok b'"
      using Cons.IH by blast
    with pack b1 show ?thesis by (subst harbor_forward_local_message.simps) (simp add: Let_def)
  qed (use Cons.prems in \<open>auto simp: read_packs.simps [of b]\<close>)
qed

text \<open>A connection of the harbor with what its buffer holds.\<close>

definition harbor_slot :: "harbor \<Rightarrow> int \<Rightarrow> nat \<Rightarrow> databuffer \<Rightarrow> bool" where
  "harbor_slot h fd i b \<longleftrightarrow> hashid_ok (ha_hash h) \<and> 0 \<le> fd \<and> slot_of (ha_hash h) fd = Some i
     \<and> i < length (ha_buffer h) \<and> ha_buffer h ! i = Some b \<and> db_ok b"

lemma push_chunk_ok: "db_ok b \<Longrightarrow> push_chunk d b = Some b' \<Longrightarrow> db_ok b'"
  using databuffer_push_ok [of b "int (length d)" d]
  by (auto simp: push_chunk_def db_ok_def nat_add_distrib split: if_splits)

lemma harbor_on_chunk:
  assumes s: "harbor_slot h fd i b" and d: "d \<noteq> []" and push: "push_chunk d b = Some b1"
    and packs: "read_packs b1 = Some (ps, b2)"
  obtains calls h' where "harbor_callback connect handle (socket_event (data_message fd d)) h = Some (calls, h')"
    "visible calls = map Local_forward ps" "harbor_slot h' fd i b2"
proof -
  have l: "hashid_lookup (ha_hash h) fd = Some (int i)"
    using s hashid_lookup_slot [of "ha_hash h" fd] by (simp add: harbor_slot_def)
  from push obtain r where r: "databuffer_push b d (int (length d)) = Some (r, b1)" "\<not> r < 0"
    by (auto simp: push_chunk_def bind_eq_Some_conv split: if_splits)
  then have "r = int (length d)" by (auto simp: databuffer_push_def bind_eq_Some_conv split: if_splits)
  then have pos: "\<not> r \<le> 0" using d by simp
  have "db_ok b1" using push_chunk_ok [OF _ push] s by (simp add: harbor_slot_def)
  then obtain calls where c: "harbor_forward_local_message handle b1 = Some (calls, b2)" "visible calls = map Local_forward ps"
    "db_ok b2" using harbor_forward_packs packs by blast
  let ?h = "h\<lparr>ha_buffer := (ha_buffer h)[i := Some b2]\<rparr>"
  have "harbor_slot ?h fd i b2" using s c(3) by (simp add: harbor_slot_def)
  moreover have "\<exists>log. harbor_callback connect handle (socket_event (data_message fd d)) h = Some (log_debug handle log # calls, ?h)"
    using l s r(1) pos c(1)
    by (simp add: harbor_callback_def socket_event_def SERVICE_SOCKET_def SERVICE_REMOTE_def harbor_dispatch_socket_def
        harbor_on_data_def data_message_def harbor_slot_def at_def Let_def)
  ultimately show ?thesis using that c(2) by auto
qed

lemma harbor_run_stream:
  "harbor_slot h fd i b \<Longrightarrow> feed push_chunk read_packs ds b = Some (ps, b') \<Longrightarrow> [] \<notin> set ds \<Longrightarrow>
   \<exists>calls h'. harbor_run connect handle (map (\<lambda>d. socket_event (data_message fd d)) ds) h = Some (calls, h')
     \<and> visible calls = map Local_forward ps"
proof (induction ds arbitrary: h b ps)
  case (Cons d ds)
  from Cons.prems(2) obtain b1 qs b2 rs where f: "push_chunk d b = Some b1" "read_packs b1 = Some (qs, b2)"
    "feed push_chunk read_packs ds b2 = Some (rs, b')" "ps = qs @ rs" by (auto simp: bind_eq_Some_conv)
  have "d \<noteq> []" using Cons.prems(3) by auto
  then obtain calls h1 where c: "harbor_callback connect handle (socket_event (data_message fd d)) h = Some (calls, h1)"
    "visible calls = map Local_forward qs" "harbor_slot h1 fd i b2" by (rule harbor_on_chunk [OF Cons.prems(1) _ f(1,2)])
  from Cons.IH [OF c(3) f(3)] Cons.prems(3) obtain calls' h' where
    "harbor_run connect handle (map (\<lambda>d. socket_event (data_message fd d)) ds) h1 = Some (calls', h')"
    "visible calls' = map Local_forward rs" by auto
  with c(1,2) f(4) show ?case by simp
qed simp

text \<open>Running the calls is sending the messages.\<close>

lemma perform_forwards:
  "list_all env_ok es \<Longrightarrow>
   perform line junk (map (\<lambda>e. Local_forward (env_bytes e)) es) w = map_option (\<lambda>w. (w, [])) (deliver junk es w)"
proof (induction es arbitrary: w)
  case (Cons e es)
  then have e: "env_ok e" by simp
  have es: "list_all env_ok es" using Cons.prems by simp
  note IH = Cons.IH [OF es]
  show ?case unfolding list.map perform.simps perform1.simps deliver.simps env_arrives(2) [OF e]
    by (simp add: IH bind_map_option map_option_bind comp_def)
      (auto split: bind_splits option.splits)
qed simp

section \<open>Properties\<close>


text \<open>Two nodes and a message from one to the other.\<close>

definition node_with :: "hashid \<Rightarrow> harbor" where
  "node_with hash = \<lparr>ha_harbor_id = 1, ha_listen_fd = 3, ha_listen_port = 80, ha_buffer_size = 1024, ha_remote_service_count = 0,
     ha_hash = hash, ha_buffer = replicate 32 (Some (databuffer_create 1024)),
     ha_hcs = replicate 32 \<lparr>hc_fd = 7, hc_port = 80, hc_harbor_id = 2, hc_addr = bytes_of ''10.0.0.2''\<rparr>, ha_rss = []\<rparr>"

definition one_envelope :: envelope where
  "one_envelope = \<lparr>en_target = 0x203, en_name = cs '''', en_source = 0x101, en_session = 7, en_type = 0, en_data = [1, 2],
     en_junk = replicate 32 5\<rparr>"


end
