(* ===== verification/Http_Encode.thy ===== *)
theory Http_Encode
  imports Service_Api Hashid
begin

text \<open>
  The encoding of URLs (\<open>http/http_encode.h\<close>). A pointer into the source is an offset into the array of its bytes;
  reading behind the array, or writing behind the array of the result, whose size is an argument, is
  \<open>None\<close>. A \<open>char\<close> is signed.
\<close>

unbundle bit_operations_syntax

section \<open>Encoding\<close>

definition char_to_hex :: "byte \<Rightarrow> byte" where
  "char_to_hex x = (if x > 9 then x + 55 else x + 48)"

definition is_alpha_number_char :: "byte \<Rightarrow> bool" where
  "is_alpha_number_char c \<longleftrightarrow> 97 \<le> c \<and> c \<le> 122 \<or> 65 \<le> c \<and> c \<le> 90 \<or> 48 \<le> c \<and> c \<le> 57"

text \<open>One round of the loop: the bytes it writes.\<close>

definition encode_char :: "byte \<Rightarrow> byte list" where
  "encode_char ch =
     (if ch = 32 then [43]
      else if is_alpha_number_char ch \<or> strchr (bytes_of ''=!~*'' @ [39, 40, 41, 0]) ch \<noteq> Some None then [ch]
      else [37, char_to_hex (drop_bit 4 ch), char_to_hex (ch mod 16)])"

text \<open>The loop: \<open>dest_len\<close> bounds the characters read, not those written.\<close>

fun encode_loop :: "byte list \<Rightarrow> int \<Rightarrow> int \<Rightarrow> byte list option" where
  "encode_loop [] len dest_len = (if len < dest_len - 4 then None else Some [])"
| "encode_loop (ch # src) len dest_len =
     (if len < dest_len - 4 \<and> ch \<noteq> 0
      then map_option (\<lambda>out. encode_char ch @ out) (encode_loop src (len + 1) dest_len) else Some [])"

text \<open>The array of the result has \<open>n\<close> bytes.\<close>

definition urlencode :: "byte list \<Rightarrow> int \<Rightarrow> nat \<Rightarrow> int \<Rightarrow> byte list option" where
  "urlencode src src_len n dest_len = do {
     out \<leftarrow> encode_loop src 0 dest_len;
     if length out < n then Some (out @ [0]) else None }"

section \<open>Decoding\<close>

definition hex_digit :: "byte \<Rightarrow> byte" where
  "hex_digit p = p - 48 - (if 65 \<le> sint p then 7 else 0) - (if 97 \<le> sint p then 32 else 0)"

function decode_from :: "byte list \<Rightarrow> nat \<Rightarrow> nat \<Rightarrow> byte list option" where
  "decode_from encd i sz =
     (if i < sz then do {
        c \<leftarrow> at encd i;
        if c \<noteq> 37 then map_option ((#) c) (decode_from encd (i + 1) sz)
        else do {
          p0 \<leftarrow> at encd (i + 1);
          p1 \<leftarrow> at encd (i + 2);
          map_option ((#) (hex_digit p0 * 16 + hex_digit p1)) (decode_from encd (i + 3) sz) } }
      else Some [])"
  by pat_completeness auto
termination by (relation "measure (\<lambda>(_, i, sz). sz - i)") auto

declare decode_from.simps [simp del]

text \<open>The decoded bytes; the code returns their number and writes a NUL behind them.\<close>

definition urldecode :: "byte list \<Rightarrow> nat \<Rightarrow> nat \<Rightarrow> byte list option" where
  "urldecode encd sz n = do {
     decd \<leftarrow> decode_from encd 0 sz;
     if length decd < n then Some decd else None }"

section \<open>There and back\<close>

lemma length_decode_from: "decode_from encd i sz = Some decd \<Longrightarrow> length decd \<le> sz - i"
proof (induction encd i sz arbitrary: decd rule: decode_from.induct)
  case (1 encd i sz)
  show ?case
  proof (cases "i < sz")
    case True
    with 1(3) obtain c where c: "at encd i = Some c" by (auto simp: decode_from.simps [of encd i] split: bind_splits)
    show ?thesis
    proof (cases "c = 37")
      case True
      with 1(3) \<open>i < sz\<close> c obtain p0 p1 ds where "at encd (i + 1) = Some p0" "at encd (i + 2) = Some p1"
        "decode_from encd (i + 3) sz = Some ds" "length decd = Suc (length ds)"
        by (auto simp: decode_from.simps [of encd i] split: bind_splits)
      with 1(2) [OF \<open>i < sz\<close> c _ this(1,2), of ds] \<open>i < sz\<close> True show ?thesis by simp
    next
      case False
      with 1(1) [OF True c] 1(3) True c show ?thesis by (auto simp: decode_from.simps [of encd i])
    qed
  qed (use 1(3) in \<open>simp add: decode_from.simps [of encd i]\<close>)
qed

lemma all_bytes: "list_all (\<lambda>n. P (word_of_nat n :: byte)) [0..<256] \<Longrightarrow> P c"
  using unsigned_less [of c] by (auto simp: list_all_iff dest!: bspec [of _ _ "unat c"])

lemma escape_back: "hex_digit (char_to_hex (drop_bit 4 c)) * 16 + hex_digit (char_to_hex (c mod 16)) = c"
  by (rule all_bytes) code_simp

text \<open>The decoder leaves the \<open>+\<close> of a space as it is.\<close>

definition plus_for_space :: "byte \<Rightarrow> byte" where "plus_for_space c = (if c = 32 then 43 else c)"

lemma encode_char_cases:
  "encode_char c = [plus_for_space c] \<and> plus_for_space c \<noteq> 37
   \<or> encode_char c = [37, char_to_hex (drop_bit 4 c), char_to_hex (c mod 16)] \<and> plus_for_space c = c"
proof (cases "c = 37")
  case True
  have "\<not> is_alpha_number_char 37" "strchr (bytes_of ''=!~*'' @ [39, 40, 41, 0]) 37 = Some None" by code_simp+
  with True show ?thesis by (simp add: encode_char_def plus_for_space_def)
qed (simp add: encode_char_def plus_for_space_def)

lemma decode_char:
  assumes "i = length pre" "sz = length pre + length (encode_char c @ r)"
  shows "decode_from (pre @ encode_char c @ r) i sz
    = map_option ((#) (plus_for_space c)) (decode_from (pre @ encode_char c @ r) (i + length (encode_char c)) sz)"
  using encode_char_cases [of c] assms
  by (auto simp: decode_from.simps [of _ "length pre"] at_def nth_append escape_back numeral_3_eq_3)

lemma decode_encoded:
  "decode_from (pre @ concat (map encode_char s)) (length pre) (length pre + length (concat (map encode_char s)))
     = Some (map plus_for_space s)"
proof (induction s arbitrary: pre)
  case (Cons c s)
  from Cons.IH [of "pre @ encode_char c"] show ?case by (simp add: decode_char add.assoc del: length_concat)
qed (simp add: decode_from.simps)

lemma encode_loop_text:
  "0 \<notin> set s \<Longrightarrow> 0 \<le> len \<Longrightarrow> len + int (length s) \<le> dest_len - 4 \<Longrightarrow>
   encode_loop (s @ 0 # rest) len dest_len = Some (concat (map encode_char s))"
  by (induction s arbitrary: len) auto

lemma length_encode_char: "length (encode_char c) \<le> 3"
  by (simp add: encode_char_def)

lemma length_encoded: "length (concat (map encode_char s)) \<le> 3 * length s"
proof (induction s)
  case (Cons c s)
  with length_encode_char [of c] show ?case by (simp del: length_concat)
qed simp

text \<open>C40: An encoded text is decoded again: when the array has room for three bytes per character, the encoder
  writes a string inside it that the decoder turns into the text, a space having become a \<open>+\<close>.\<close>

theorem url_roundtrip:
  assumes "0 \<notin> set s" "int (length s) \<le> dest_len - 4" "3 * length s < n"
  shows "\<exists>out. urlencode (s @ 0 # rest) src_len n dest_len = Some (out @ [0]) \<and> length out < n
    \<and> urldecode out (length out) (length out + 1) = Some (map plus_for_space s)"
proof -
  let ?out = "concat (map encode_char s)"
  have "length ?out < n" using length_encoded [of s] assms(3) by (rule order.strict_trans1)
  moreover have "decode_from ?out 0 (length ?out) = Some (map plus_for_space s)" using decode_encoded [of "[]" s] by simp
  moreover from this have "length s \<le> length ?out" using length_decode_from by fastforce
  ultimately show ?thesis using encode_loop_text [OF assms(1), of 0 dest_len rest] assms(2)
    by (simp add: urlencode_def urldecode_def del: length_concat)
qed

lemma url_roundtrip_witness:
  "\<exists>out. urlencode (bytes_of ''a b%'' @ 0 # []) 4 16 16 = Some (out @ [0]) \<and> length out < 16
    \<and> urldecode out (length out) (length out + 1) = Some (map plus_for_space (bytes_of ''a b%''))"
  by (rule url_roundtrip) (simp_all add: bytes_of_def)

text \<open>The length of the destination bounds the characters that are read: three escapes do not fit into 8 bytes.\<close>

lemma urlencode_overflow: "urlencode (bytes_of ''%%%%'' @ [0]) 4 8 8 = None"
  by code_simp

end
