(* ===== verification/Http_Service.thy ===== *)
theory Http_Service
  imports Gate Socket_Poll Http_Encode
begin

text \<open>
  The HTTP service (\<open>service_http.c\<close>) and the requests it collects (\<open>http/http_proxy.c\<close>): it accepts connections,
  keeps the bytes of each until the parser has seen a whole request, and sends the decoded URL to another
  service. The parser is the one of joyent, which the repository carries as a copy: it is the argument \<open>exec\<close>,
  which gives the callbacks it makes for some bytes, in order, and the number of bytes it has read. It is started
  anew on all bytes of the connection at every chunk.
\<close>

section \<open>The parser's callbacks\<close>

text \<open>A callback with text names it by its offset in the data and its length.\<close>

datatype parser_event =
  On_message_begin
| On_header_field nat nat
| On_header_value nat nat
| On_url nat nat
| On_body nat nat
| On_headers_complete
| On_message_complete

type_synonym http_exec = "int \<Rightarrow> byte list \<Rightarrow> parser_event list \<times> int"

definition HTTP_REQUEST :: int where "HTTP_REQUEST = 0"
definition CHUNK_MAX :: nat where "CHUNK_MAX = 20480"

record http_proxy =
  px_id :: int
  px_type :: int
  px_complete :: bool
  px_chunk :: "byte list"
  px_chunk_ptr :: nat
  px_url :: "byte list option"
  px_url_ptr :: nat
  px_body :: "byte list option"
  px_body_ptr :: nat

text \<open>\<open>%.*s\<close>: at most so many bytes of a string that may lack its NUL.\<close>

definition text_at :: "byte list \<Rightarrow> nat \<Rightarrow> nat \<Rightarrow> byte list option" where
  "text_at m i len = (if i + len \<le> length m \<or> 0 \<in> set (drop i m) then Some (cstr (take len (drop i m))) else None)"

definition on_message_begin :: "http_proxy \<Rightarrow> call list \<times> http_proxy" where
  "on_message_begin p = ([log_debug 0 (bytes_of ''***MESSAGE BEGIN***'')], p)"

definition on_headers_complete :: "http_proxy \<Rightarrow> call list \<times> http_proxy" where
  "on_headers_complete p = ([log_debug 0 (bytes_of ''***HEADERS COMPLETE***'')], p)"

definition on_message_complete :: "http_proxy \<Rightarrow> call list \<times> http_proxy" where
  "on_message_complete p = ([log_debug 0 (bytes_of ''***MESSAGE COMPLETE***'')], p\<lparr>px_complete := True\<rparr>)"

definition on_header_field :: "nat \<Rightarrow> nat \<Rightarrow> http_proxy \<Rightarrow> (call list \<times> http_proxy) option" where
  "on_header_field i len p = do {
     t \<leftarrow> text_at (px_chunk p) i len;
     Some ([log_debug 0 (bytes_of ''Header field: '' @ t)], p) }"

definition on_header_value :: "nat \<Rightarrow> nat \<Rightarrow> http_proxy \<Rightarrow> (call list \<times> http_proxy) option" where
  "on_header_value i len p = do {
     t \<leftarrow> text_at (px_chunk p) i len;
     Some ([log_debug 0 (bytes_of ''Header value: '' @ t)], p) }"

text \<open>The decoder may look behind the URL, into what follows in the chunk.\<close>

definition on_url :: "nat \<Rightarrow> nat \<Rightarrow> http_proxy \<Rightarrow> (call list \<times> http_proxy) option" where
  "on_url i len p = do {
     url \<leftarrow> urldecode (drop i (px_chunk p)) len (len + 1);
     Some ([log_debug 0 (bytes_of ''Url: '' @ cstr url)], p\<lparr>px_url := Some url, px_url_ptr := length url\<rparr>) }"

definition on_body :: "nat \<Rightarrow> nat \<Rightarrow> http_proxy \<Rightarrow> (call list \<times> http_proxy) option" where
  "on_body i len p =
     (if i + len \<le> length (px_chunk p)
      then let body = take len (drop i (px_chunk p)) in
        Some ([log_debug 0 (bytes_of ''Body: '' @ cstr body)], p\<lparr>px_body := Some body, px_body_ptr := len\<rparr>)
      else None)"

fun handle_event :: "parser_event \<Rightarrow> http_proxy \<Rightarrow> (call list \<times> http_proxy) option" where
  "handle_event On_message_begin p = Some (on_message_begin p)"
| "handle_event (On_header_field i len) p = on_header_field i len p"
| "handle_event (On_header_value i len) p = on_header_value i len p"
| "handle_event (On_url i len) p = on_url i len p"
| "handle_event (On_body i len) p = on_body i len p"
| "handle_event On_headers_complete p = Some (on_headers_complete p)"
| "handle_event On_message_complete p = Some (on_message_complete p)"

fun handle_events :: "parser_event list \<Rightarrow> http_proxy \<Rightarrow> (call list \<times> http_proxy) option" where
  "handle_events [] p = Some ([], p)"
| "handle_events (e # es) p = do {
     (calls, p) \<leftarrow> handle_event e p;
     (calls', p) \<leftarrow> handle_events es p;
     Some (calls @ calls', p) }"

section \<open>The proxy\<close>

definition proxy_create :: "int \<Rightarrow> int \<Rightarrow> http_proxy" where
  "proxy_create type fd =
     \<lparr>px_id = fd, px_type = type, px_complete = False, px_chunk = replicate CHUNK_MAX 0, px_chunk_ptr = 0,
      px_url = None, px_url_ptr = 0, px_body = None, px_body_ptr = 0\<rparr>"

definition proxy_reset :: "http_proxy \<Rightarrow> http_proxy" where
  "proxy_reset p =
     (let p = (if px_url p \<noteq> None then p\<lparr>px_url := None, px_url_ptr := 0\<rparr> else p);
          p = (if px_body p \<noteq> None then p\<lparr>px_body := None, px_body_ptr := 0\<rparr> else p) in
      p\<lparr>px_chunk_ptr := 0, px_complete := False\<rparr>)"

text \<open>\<open>sz\<close> is a \<open>size_t\<close>; the sum of the test wraps.\<close>

definition proxy_parse :: "http_exec \<Rightarrow> http_proxy \<Rightarrow> byte list \<Rightarrow> nat \<Rightarrow> (int \<times> call list \<times> http_proxy) option" where
  "proxy_parse exec p message sz =
     (if (px_chunk_ptr p + sz) mod 2 ^ 64 > CHUNK_MAX then
        Some (-1, [log_error 0 (bytes_of ''[HTTP] parse ptr:'' @ fmt_d (int (px_chunk_ptr p))
                     @ bytes_of '' size:'' @ fmt_d (sint (word_of_nat sz :: u32)))], p)
      else if sz > length message \<or> px_chunk_ptr p + sz > length (px_chunk p) then None
      else do {
        let chunk = take (px_chunk_ptr p) (px_chunk p) @ take sz message @ drop (px_chunk_ptr p + sz) (px_chunk p);
        let p = p\<lparr>px_chunk := chunk, px_chunk_ptr := px_chunk_ptr p + sz\<rparr>;
        let (events, hparsed) = exec (px_type p) (take (px_chunk_ptr p) chunk);
        (calls, p) \<leftarrow> handle_events events p;
        Some (if px_complete p then hparsed else 0, calls, p) })"

section \<open>The service\<close>

record http_connection =
  cn_fd :: int
  cn_port :: int
  cn_source :: int
  cn_session :: int
  cn_remote_name :: "byte list option"
  cn_buffer :: "http_proxy option"

record http =
  ht_listen_fd :: int
  ht_listen_port :: int
  ht_connect_max :: int
  ht_forward :: "byte list"
  ht_hash :: hashid
  ht_conn :: "http_connection list"

text \<open>\<open>sz\<close> is an \<open>int\<close> that becomes a \<open>size_t\<close>: a negative one is more than there is.\<close>

definition http_accept :: "http_connection \<Rightarrow> int \<Rightarrow> byte list \<Rightarrow> int \<Rightarrow> http_connection option" where
  "http_accept c fd remote_name sz =
     (if sz < 0 \<or> sz > int (length remote_name) then None
      else Some (c\<lparr>cn_fd := fd, cn_source := 0, cn_session := 0, cn_remote_name := Some (take (nat sz) remote_name),
                  cn_buffer := Some (proxy_create HTTP_REQUEST fd)\<rparr>))"

text \<open>What is freed is not there any more.\<close>

definition http_close :: "http_connection \<Rightarrow> http_connection option" where
  "http_close c = do {
     _ \<leftarrow> cn_buffer c;
     _ \<leftarrow> cn_remote_name c;
     Some (c\<lparr>cn_fd := -1, cn_remote_name := None, cn_buffer := None\<rparr>) }"

text \<open>The message is put together in an array of \<open>MESSAGE_BUFFER_MAX\<close> bytes.\<close>

definition http_response :: "u32 \<Rightarrow> http \<Rightarrow> http_connection \<Rightarrow> (call list \<times> http_connection) option" where
  "http_response handle g c = do {
     p \<leftarrow> cn_buffer c;
     msg \<leftarrow> sprintf (nat MESSAGE_BUFFER_MAX) (bytes_of ''http|'' @ fmt_d (int (px_url_ptr p)) @ bytes_of ''|'');
     let url = (case px_url p of Some url \<Rightarrow> url | None \<Rightarrow> []);
     if px_url_ptr p > length url \<or> int (length msg + px_url_ptr p) > MESSAGE_BUFFER_MAX then None
     else Some ([Sendname (name_of (ht_forward g)) handle (word_of_int (cn_fd c)) SERVICE_TEXT (msg @ take (px_url_ptr p) url)],
                c\<lparr>cn_buffer := Some (proxy_reset p)\<rparr>) }"

definition http_dispatch_cmd :: "byte list \<Rightarrow> call list option" where
  "http_dispatch_cmd msg =
     (let i = command_end msg; param = drop (i + 1) msg in
      if i + 1 \<ge> length msg then Some []
      else do {
        response \<leftarrow> memcmp_eq msg (lit ''response'') i;
        if response then do {
          r \<leftarrow> strchr param 124;
          case r of
            None \<Rightarrow> Some []
          | Some k \<Rightarrow>
              if length param - k - 1 > 0 then do {
                fd \<leftarrow> atoi param;
                Some [Socket_send fd (drop (k + 1) param)] }
              else Some [] }
        else do {
          get \<leftarrow> memcmp_eq msg (lit ''get'') i;
          if get then Some []
          else do {
            _ \<leftarrow> memcmp_eq msg (lit ''post'') i;
            Some [] } } })"

definition http_conn_at :: "http \<Rightarrow> int \<Rightarrow> http_connection option" where
  "http_conn_at g i = at (ht_conn g) (nat i)"

definition set_http_conn :: "int \<Rightarrow> http_connection \<Rightarrow> http \<Rightarrow> http" where
  "set_http_conn i c g = g\<lparr>ht_conn := (ht_conn g)[nat i := c]\<rparr>"

definition http_on_data :: "http_exec \<Rightarrow> u32 \<Rightarrow> skynet_socket_message \<Rightarrow> http \<Rightarrow> (call list \<times> http) option" where
  "http_on_data exec handle m g = do {
     let log = log_debug handle (bytes_of ''[http]recv data fd '' @ fmt_d (sm_id m) @ bytes_of '' size:'' @ fmt_d (sm_ud m));
     i \<leftarrow> hashid_lookup (ht_hash g) (sm_id m);
     if i \<ge> 0 then do {
       c \<leftarrow> http_conn_at g i;
       p \<leftarrow> cn_buffer c;
       d \<leftarrow> sm_buffer m;
       (nparsed, calls, p) \<leftarrow> proxy_parse exec p d (nat (sm_ud m mod 2 ^ 64));
       let c = c\<lparr>cn_buffer := Some p\<rparr>;
       if nparsed < 0 then
         Some (log # calls @ [log_error handle (bytes_of ''[http]connection recv data too long fd='' @ fmt_d (sm_id m)
                 @ bytes_of '' size='' @ fmt_d (sm_ud m)), Socket_close (sm_id m)], set_http_conn i c g)
       else if nparsed > 0 then do {
         (sends, c) \<leftarrow> http_response handle g c;
         Some (log # calls @ sends, set_http_conn i c g) }
       else Some (log # calls, set_http_conn i c g) }
     else
       Some ([log, log_error handle (bytes_of ''[http]recv unknown connection data fd='' @ fmt_d (sm_id m)
                @ bytes_of '' size='' @ fmt_d (sm_ud m)), Socket_close (sm_id m)], g) }"

definition http_on_accept :: "u32 \<Rightarrow> skynet_socket_message \<Rightarrow> int \<Rightarrow> http \<Rightarrow> (call list \<times> http) option" where
  "http_on_accept handle m sz g =
     (if ht_listen_fd g \<noteq> sm_id m then None
      else if hashid_full (ht_hash g) then
        Some ([log_error handle (bytes_of ''[http]full on accepting, alloc:'' @ fmt_d (ht_connect_max g)
                 @ bytes_of '', accepted:'' @ fmt_d (hi_count (ht_hash g))
                 @ bytes_of '', close socket:'' @ fmt_d (sm_ud m)),
               Socket_close (sm_ud m)], g)
      else do {
        (i, hash) \<leftarrow> hashid_insert (ht_hash g) (sm_ud m);
        let g = g\<lparr>ht_hash := hash\<rparr>;
        c \<leftarrow> http_conn_at g i;
        c \<leftarrow> http_accept c (sm_ud m) (sm_tail m) sz;
        Some ([Socket_start (sm_ud m),
               log_debug handle (bytes_of ''[http]accept fd='' @ fmt_d (sm_ud m) @ bytes_of '' addr=''
                 @ cstr (take (nat sz) (sm_tail m)))],
              set_http_conn i c g) })"

definition http_on_close :: "u32 \<Rightarrow> skynet_socket_message \<Rightarrow> http \<Rightarrow> (call list \<times> http) option" where
  "http_on_close handle m g = do {
     let log = log_debug handle (bytes_of ''[http]close or error '' @ fmt_d (sm_type m) @ bytes_of '' fd '' @ fmt_d (sm_id m));
     (i, hash) \<leftarrow> hashid_remove (ht_hash g) (sm_id m);
     let g = g\<lparr>ht_hash := hash\<rparr>;
     if i \<ge> 0 then do {
       c \<leftarrow> http_conn_at g i;
       c \<leftarrow> http_close c;
       Some ([log], set_http_conn i c g) }
     else Some ([log], g) }"

definition http_on_connect :: "u32 \<Rightarrow> skynet_socket_message \<Rightarrow> http \<Rightarrow> call list option" where
  "http_on_connect handle m g =
     (if sm_id m = ht_listen_fd g then Some []
      else do {
        i \<leftarrow> hashid_lookup (ht_hash g) (sm_id m);
        Some (if i \<le> 0
              then [log_error handle (bytes_of ''[http]connected unknown connection '' @ fmt_d (sm_id m)
                      @ bytes_of '' message''),
                    Socket_close (sm_id m)]
              else []) })"

definition http_dispatch_socket_message ::
  "http_exec \<Rightarrow> u32 \<Rightarrow> skynet_socket_message \<Rightarrow> int \<Rightarrow> http \<Rightarrow> (call list \<times> http) option" where
  "http_dispatch_socket_message exec handle m sz g =
     (if sm_type m = SKYNET_SOCKET_TYPE_DATA then http_on_data exec handle m g
      else if sm_type m = SKYNET_SOCKET_TYPE_ACCEPT then http_on_accept handle m sz g
      else if sm_type m = SKYNET_SOCKET_TYPE_CLOSE \<or> sm_type m = SKYNET_SOCKET_TYPE_ERROR
        then http_on_close handle m g
      else if sm_type m = SKYNET_SOCKET_TYPE_CONNECT
        then map_option (\<lambda>calls. (calls, g)) (http_on_connect handle m g)
      else if sm_type m = SKYNET_SOCKET_TYPE_WARNING
        then Some ([log_warn handle (bytes_of ''[http]fd ('' @ fmt_d (sm_id m)
               @ bytes_of '') send buffer ('' @ fmt_d (sm_ud m) @ bytes_of '')K'')], g)
      else Some ([log_error handle (bytes_of ''[http]recv error message type '' @ fmt_d (sm_type m))], g))"

text \<open>As for the gate, the three fields must be found, or the code goes on with uninitialised ones.\<close>

definition http_create ::
  "(byte list \<Rightarrow> int \<Rightarrow> int \<Rightarrow> int) \<Rightarrow> u32 \<Rightarrow> byte list \<Rightarrow> (int \<times> call list \<times> http) option" where
  "http_create listen handle args = do {
     (forward, r) \<leftarrow> scan_field 64 args;
     r \<leftarrow> scan_comma r;
     (port, r) \<leftarrow> scan_int r;
     r \<leftarrow> scan_comma r;
     (mx, r) \<leftarrow> scan_int r;
     let host = bytes_of ''0.0.0.0'';
     let fd = listen host port BACKLOG;
     if mx < 0 then None
     else do {
       let g = \<lparr>ht_listen_fd = fd, ht_listen_port = port, ht_connect_max = mx, ht_forward = forward, ht_hash = hashid_init mx,
                ht_conn = replicate (nat mx) \<lparr>cn_fd = -1, cn_port = 0, cn_source = 0, cn_session = 0, cn_remote_name = None,
                  cn_buffer = None\<rparr>\<rparr>;
       if fd < 0 then Some (1, [Socket_listen host port BACKLOG], g)
       else Some (0, [Socket_listen host port BACKLOG,
                      log_notice handle (bytes_of ''[http]listen port:'' @ fmt_d port @ bytes_of '' fd:'' @ fmt_d fd),
                      Socket_start fd], g) } }"

fun release_http_conns :: "http_connection list \<Rightarrow> call list option" where
  "release_http_conns [] = Some []"
| "release_http_conns (c # conns) = do {
     calls \<leftarrow> (if cn_fd c \<ge> 0 then map_option (\<lambda>_. [Socket_close (cn_fd c)]) (http_close c) else Some []);
     calls' \<leftarrow> release_http_conns conns;
     Some (calls @ calls') }"

definition http_release :: "http \<Rightarrow> call list option" where
  "http_release g = do {
     calls \<leftarrow> release_http_conns (ht_conn g);
     Some (calls @ (if ht_listen_fd g \<ge> 0 then [Socket_close (ht_listen_fd g)] else [])) }"

definition http_callback :: "http_exec \<Rightarrow> u32 \<Rightarrow> skynet_message \<Rightarrow> http \<Rightarrow> (call list \<times> http) option" where
  "http_callback exec handle msg g =
     (if m_type msg = SERVICE_TEXT then
        (case m_data msg of
           Some (Bytes bs) \<Rightarrow> map_option (\<lambda>calls. (calls, g)) (http_dispatch_cmd (take (m_size msg) bs))
         | None \<Rightarrow> if m_size msg = 0 then Some ([], g) else None
         | _ \<Rightarrow> None)
      else if m_type msg = SERVICE_SOCKET then
        (case m_data msg of
           Some (Socket m) \<Rightarrow>
             http_dispatch_socket_message exec handle m (int (m_size msg) - int sizeof_socket_message) g
         | _ \<Rightarrow> None)
      else Some ([], g))"

end
