(* ===== verification/Http_Stream.thy ===== *)
theory Http_Stream
  imports Gatews_Stream Http_Service
begin

text \<open>
  What the HTTP service promises of a connection: a request that arrives in any chunks is answered by one message
  with its URL, decoded, to the service it forwards to. The parser is known by what it reports of the bytes.
\<close>

section \<open>Decoding in a longer array\<close>

lemma decode_from_append: "decode_from m i sz = Some r \<Longrightarrow> decode_from (m @ x) i sz = Some r"
proof (induction m i sz arbitrary: r rule: decode_from.induct)
  case (1 m i sz)
  show ?case
  proof (cases "i < sz")
    case True
    with 1(3) obtain c where c: "at m i = Some c" by (auto simp: decode_from.simps [of m i] split: bind_splits)
    have grow: "at (m @ x) j = Some y" if "at m j = Some y" for j y
      using that by (auto simp: at_def nth_append split: if_splits)
    show ?thesis
    proof (cases "c = 37")
      case e: True
      with 1(3) True c obtain p0 p1 ds where p: "at m (i + 1) = Some p0" "at m (i + 2) = Some p1"
        "decode_from m (i + 3) sz = Some ds" "r = (hex_digit p0 * 16 + hex_digit p1) # ds"
        by (auto simp: decode_from.simps [of m i] split: bind_splits)
      from 1(2) [OF True c _ p(1,2,3)] e have "decode_from (m @ x) (i + 3) sz = Some ds" by simp
      with True e grow [OF c] grow [OF p(1)] grow [OF p(2)] p(4) show ?thesis by (simp add: decode_from.simps [of "m @ x" i])
    next
      case False
      with 1(3) True c obtain ds where d: "decode_from m (i + 1) sz = Some ds" "r = c # ds"
        by (auto simp: decode_from.simps [of m i])
      with 1(1) [OF True c False] True False grow [OF c] show ?thesis by (simp add: decode_from.simps [of "m @ x" i])
    qed
  qed (use 1(3) in \<open>simp add: decode_from.simps\<close>)
qed

lemma decode_from_total: "sz + 2 \<le> length m \<Longrightarrow> \<exists>r. decode_from m i sz = Some r"
proof (induction m i sz rule: decode_from.induct)
  case (1 m i sz)
  show ?case
  proof (cases "i < sz")
    case True
    with 1(3) have a: "at m i = Some (m ! i)" "at m (i + 1) = Some (m ! (i + 1))" "at m (i + 2) = Some (m ! (i + 2))"
      by (simp_all add: at_def)
    show ?thesis using 1(1) [OF True a(1)] 1(2) [OF True a(1) _ a(2,3)] 1(3) True a
      by (cases "m ! i = 37") (auto simp: decode_from.simps [of m i])
  qed (simp add: decode_from.simps)
qed

section \<open>The parser\<close>

text \<open>The text of a callback lies in the data.\<close>

fun span :: "parser_event \<Rightarrow> nat" where
  "span (On_header_field i len) = i + len"
| "span (On_header_value i len) = i + len"
| "span (On_url i len) = i + len"
| "span (On_body i len) = i + len"
| "span _ = 0"

fun is_url :: "parser_event \<Rightarrow> bool" where
  "is_url (On_url i len) = True" | "is_url _ = False"

definition unfinished :: "http_exec \<Rightarrow> byte list \<Rightarrow> bool" where
  "unfinished exec d \<longleftrightarrow> (case exec HTTP_REQUEST d of (es, n) \<Rightarrow>
     list_all (\<lambda>e. span e \<le> length d) es \<and> On_message_complete \<notin> set es)"

text \<open>A whole request: the last URL that is reported is the text \<open>i, len\<close>, which is decoded to \<open>url\<close>.\<close>

definition finished :: "http_exec \<Rightarrow> byte list \<Rightarrow> byte list \<Rightarrow> bool" where
  "finished exec d url \<longleftrightarrow> (case exec HTTP_REQUEST d of (es, n) \<Rightarrow>
     list_all (\<lambda>e. span e \<le> length d) es \<and> On_message_complete \<in> set es \<and> 0 < n
     \<and> (case dropWhile (\<lambda>e. \<not> is_url e) (rev es) of
          On_url i len # _ \<Rightarrow> urldecode (take len (drop i d)) len (len + 1) = Some url
        | _ \<Rightarrow> False))"

text \<open>What a callback keeps.\<close>

definition same_chunk :: "http_proxy \<Rightarrow> http_proxy \<Rightarrow> bool" where
  "same_chunk p q \<longleftrightarrow> px_chunk q = px_chunk p \<and> px_chunk_ptr q = px_chunk_ptr p \<and> px_type q = px_type p"

lemma urldecode_total:
  assumes "i + len + 2 \<le> length m"
  shows "\<exists>url. urldecode (drop i m) len (len + 1) = Some url"
proof -
  have "len + 2 \<le> length (drop i m)" using assms by simp
  then obtain r where r: "decode_from (drop i m) 0 len = Some r" using decode_from_total by blast
  with length_decode_from [OF r] show ?thesis by (simp add: urldecode_def)
qed

lemma handle_event_ok:
  assumes "span e + 2 \<le> length (px_chunk p)"
  obtains calls q where "handle_event e p = Some (calls, q)" "filter is_send calls = []" "same_chunk p q"
    "px_complete q \<longleftrightarrow> px_complete p \<or> e = On_message_complete"
    "is_url e \<or> px_url q = px_url p \<and> px_url_ptr q = px_url_ptr p"
proof (cases e)
  case (On_url i len)
  then have "i + len + 2 \<le> length (px_chunk p)" using assms by simp
  then obtain url where "urldecode (drop i (px_chunk p)) len (len + 1) = Some url" using urldecode_total by blast
  with On_url that show thesis by (simp add: on_url_def same_chunk_def)
qed (use assms that in \<open>simp_all add: on_message_begin_def on_headers_complete_def on_message_complete_def on_header_field_def
    on_header_value_def on_body_def text_at_def same_chunk_def Let_def\<close>)

lemma handle_events_ok:
  assumes "list_all (\<lambda>e. span e + 2 \<le> length (px_chunk p)) es"
  obtains calls q where "handle_events es p = Some (calls, q)" "filter is_send calls = []" "same_chunk p q"
    "px_complete q \<longleftrightarrow> px_complete p \<or> On_message_complete \<in> set es"
    "list_ex is_url es \<or> px_url q = px_url p \<and> px_url_ptr q = px_url_ptr p"
  using assms
proof (induction es arbitrary: p thesis)
  case Nil
  show ?case by (rule Nil(1) [of "[]" p]) (simp_all add: same_chunk_def)
next
  case (Cons e es)
  from Cons.prems(2) have s: "span e + 2 \<le> length (px_chunk p)" by simp
  obtain calls q where e: "handle_event e p = Some (calls, q)" "filter is_send calls = []" "same_chunk p q"
    "px_complete q \<longleftrightarrow> px_complete p \<or> e = On_message_complete"
    "is_url e \<or> px_url q = px_url p \<and> px_url_ptr q = px_url_ptr p" by (rule handle_event_ok [OF s])
  have "list_all (\<lambda>e. span e + 2 \<le> length (px_chunk q)) es" using Cons.prems(2) e(3) by (simp add: same_chunk_def)
  then obtain calls' r where es: "handle_events es q = Some (calls', r)" "filter is_send calls' = []" "same_chunk q r"
    "px_complete r \<longleftrightarrow> px_complete q \<or> On_message_complete \<in> set es"
    "list_ex is_url es \<or> px_url r = px_url q \<and> px_url_ptr r = px_url_ptr q"
    by (rule Cons.IH [rotated])
  show ?case by (rule Cons.prems(1) [of "calls @ calls'" r]) (use e es in \<open>auto simp: same_chunk_def\<close>)
qed

lemma handle_events_append:
  "handle_events (es @ fs) p = do {
     (calls, p) \<leftarrow> handle_events es p; (calls', p) \<leftarrow> handle_events fs p; Some (calls @ calls', p) }"
  by (induction es arbitrary: p) (auto split: bind_splits prod.splits)

section \<open>A connection\<close>

text \<open>A connection that has got the bytes \<open>got\<close> of a request.\<close>

definition proxy_holds :: "byte list \<Rightarrow> http_proxy \<Rightarrow> bool" where
  "proxy_holds got p \<longleftrightarrow> px_type p = HTTP_REQUEST \<and> length (px_chunk p) = CHUNK_MAX \<and> \<not> px_complete p
     \<and> px_chunk_ptr p = length got \<and> take (length got) (px_chunk p) = got"

definition http_slot :: "http \<Rightarrow> int \<Rightarrow> nat \<Rightarrow> byte list \<Rightarrow> bool" where
  "http_slot g fd i got \<longleftrightarrow> hashid_ok (ht_hash g) \<and> 0 \<le> fd \<and> slot_of (ht_hash g) fd = Some i \<and> i < length (ht_conn g)
     \<and> cn_fd (ht_conn g ! i) = fd \<and> (case cn_buffer (ht_conn g ! i) of Some p \<Rightarrow> proxy_holds got p | None \<Rightarrow> False)"

text \<open>The proxy of a connection and the chunk that the parser gets with more bytes.\<close>

lemma parse_chunk:
  assumes p: "proxy_holds got p" and len: "length got + length d + 2 \<le> CHUNK_MAX"
    and exec: "exec HTTP_REQUEST (got @ d) = (es, n)" "list_all (\<lambda>e. span e \<le> length (got @ d)) es"
  obtains q where "px_chunk q = take (length got) (px_chunk p) @ d @ drop (length got + length d) (px_chunk p)"
    "px_chunk_ptr q = length (got @ d)" "\<not> px_complete q" "px_type q = HTTP_REQUEST" "length (px_chunk q) = CHUNK_MAX"
    "take (length (got @ d)) (px_chunk q) = got @ d"
    "proxy_parse exec p d (length d) = map_option (\<lambda>(calls, p). (if px_complete p then n else 0, calls, p)) (handle_events es q)"
proof -
  let ?q = "p\<lparr>px_chunk := take (length got) (px_chunk p) @ d @ drop (length got + length d) (px_chunk p),
    px_chunk_ptr := length got + length d\<rparr>"
  note P = p [unfolded proxy_holds_def]
  have "(length got + length d) mod 2 ^ 64 = length got + length d" using len by (simp add: CHUNK_MAX_def)
  moreover have "take (length got + length d) (px_chunk ?q) = got @ d" using P by simp
  ultimately have "proxy_parse exec p d (length d)
      = map_option (\<lambda>(calls, p). (if px_complete p then n else 0, calls, p)) (handle_events es ?q)"
    using P len exec(1) by (cases "handle_events es ?q") (simp_all add: proxy_parse_def Let_def split: prod.splits)
  then show thesis by (rule that [rotated -1]) (use P len in simp_all)
qed

lemma http_callback_data:
  "http_callback exec handle (socket_event (data_message fd d)) g = http_on_data exec handle (data_message fd d) g"
  by (simp add: http_callback_def socket_event_def SERVICE_SOCKET_def SERVICE_TEXT_def http_dispatch_socket_message_def
      data_message_def)

lemma http_on_chunk:
  assumes s: "http_slot g fd i got" and len: "length got + length d + 2 \<le> CHUNK_MAX" and u: "unfinished exec (got @ d)"
  obtains calls g' where "http_callback exec handle (socket_event (data_message fd d)) g = Some (calls, g')"
    "filter is_send calls = []" "http_slot g' fd i (got @ d)" "ht_forward g' = ht_forward g"
proof -
  from s obtain p where p: "cn_buffer (ht_conn g ! i) = Some p" "proxy_holds got p" by (auto simp: http_slot_def split: option.splits)
  obtain es n where e: "exec HTTP_REQUEST (got @ d) = (es, n)" "list_all (\<lambda>e. span e \<le> length (got @ d)) es"
    "On_message_complete \<notin> set es" using u by (auto simp: unfinished_def split: prod.splits)
  obtain q where q: "px_chunk_ptr q = length (got @ d)" "\<not> px_complete q" "px_type q = HTTP_REQUEST"
    "length (px_chunk q) = CHUNK_MAX" "take (length (got @ d)) (px_chunk q) = got @ d"
    "proxy_parse exec p d (length d) = map_option (\<lambda>(calls, p). (if px_complete p then n else 0, calls, p)) (handle_events es q)"
    by (rule parse_chunk [OF p(2) len, of exec es n]) (use e(1,2) in simp_all)
  have "list_all (\<lambda>e. span e + 2 \<le> length (px_chunk q)) es" using e(2) q(4) len by (auto simp: list_all_iff)
  then obtain calls r where r: "handle_events es q = Some (calls, r)" "filter is_send calls = []" "same_chunk q r" "\<not> px_complete r"
    by (rule handle_events_ok) (use q(2) e(3) in auto)
  let ?g = "set_http_conn (int i) ((ht_conn g ! i)\<lparr>cn_buffer := Some r\<rparr>) g"
  let ?log = "log_debug handle (bytes_of ''[http]recv data fd '' @ fmt_d fd @ bytes_of '' size:'' @ fmt_d (int (length d)))"
  have "http_slot ?g fd i (got @ d)" "ht_forward ?g = ht_forward g"
    using s q r(3,4) by (simp_all add: http_slot_def set_http_conn_def proxy_holds_def same_chunk_def)
  moreover have "http_callback exec handle (socket_event (data_message fd d)) g = Some (?log # calls, ?g)"
    unfolding http_callback_data using s p q(6) r hashid_lookup_slot [of "ht_hash g" fd] len
    by (simp add: http_slot_def http_on_data_def data_message_def http_conn_at_def at_def CHUNK_MAX_def Let_def)
  ultimately show thesis using that r(2) by simp
qed

text \<open>The URL of the last callback is the one that stays.\<close>

lemma last_url:
  assumes d: "take (length d) (px_chunk p) = d" "length d + 2 \<le> length (px_chunk p)"
    and es: "list_all (\<lambda>e. span e \<le> length d) es"
    and url: "dropWhile (\<lambda>e. \<not> is_url e) (rev es) = On_url i len # pre" "urldecode (take len (drop i d)) len (len + 1) = Some url"
  obtains calls q where "handle_events es p = Some (calls, q)" "filter is_send calls = []" "same_chunk p q"
    "px_complete q \<longleftrightarrow> px_complete p \<or> On_message_complete \<in> set es" "px_url q = Some url" "px_url_ptr q = length url"
proof -
  define post where "post = rev (takeWhile (\<lambda>e. \<not> is_url e) (rev es))"
  have "rev es = rev post @ On_url i len # pre" unfolding post_def url(1) [symmetric] by simp
  then have split: "es = rev pre @ On_url i len # post" by (simp add: rev_eq_append_conv)
  have none: "\<not> list_ex is_url post" unfolding post_def by (auto simp: list_ex_iff dest: set_takeWhileD)
  have fit: "list_all (\<lambda>e. span e + 2 \<le> length (px_chunk p)) es" using es d(2) by (auto simp: list_all_iff)
  obtain c1 p1 where e1: "handle_events (rev pre) p = Some (c1, p1)" "filter is_send c1 = []" "same_chunk p p1"
    "px_complete p1 \<longleftrightarrow> px_complete p \<or> On_message_complete \<in> set (rev pre)"
    by (rule handle_events_ok [of p "rev pre"]) (use fit split in auto)
  have span: "i + len \<le> length d" using es split by simp
  have "px_chunk p = d @ drop (length d) (px_chunk p)" using d(1) by (metis append_take_drop_id)
  then have "drop i (px_chunk p) = take len (drop i d) @ drop len (drop i d) @ drop (length d) (px_chunk p)"
    using span by (metis append.assoc append_take_drop_id diff_is_0_eq drop0 drop_append le_add1 le_trans)
  then have dec: "urldecode (drop i (px_chunk p)) len (len + 1) = Some url"
    using url(2) decode_from_append by (fastforce simp: urldecode_def split: bind_splits if_splits)
  let ?p2 = "p1\<lparr>px_url := Some url, px_url_ptr := length url\<rparr>"
  have e2: "handle_event (On_url i len) p1 = Some ([log_debug 0 (bytes_of ''Url: '' @ cstr url)], ?p2)"
    using dec e1(3) by (simp add: on_url_def same_chunk_def)
  obtain c3 q where e3: "handle_events post ?p2 = Some (c3, q)" "filter is_send c3 = []" "same_chunk ?p2 q"
    "px_complete q \<longleftrightarrow> px_complete ?p2 \<or> On_message_complete \<in> set post"
    "list_ex is_url post \<or> px_url q = px_url ?p2 \<and> px_url_ptr q = px_url_ptr ?p2"
    by (rule handle_events_ok [of ?p2 post]) (use fit split e1(3) in \<open>auto simp: same_chunk_def\<close>)
  show thesis
    by (rule that [of "c1 @ log_debug 0 (bytes_of ''Url: '' @ cstr url) # c3" q])
      (use split e1 e2 e3 none in \<open>auto simp: handle_events_append same_chunk_def\<close>)
qed

lemma urldecode_length: "urldecode m len n = Some url \<Longrightarrow> length url \<le> len"
  using length_decode_from [of m 0 len url] by (auto simp: urldecode_def split: bind_splits if_splits)

definition answer :: "u32 \<Rightarrow> http \<Rightarrow> int \<Rightarrow> byte list \<Rightarrow> call" where
  "answer handle g fd url = Sendname (name_of (ht_forward g)) handle (word_of_int fd) SERVICE_TEXT
     (bytes_of ''http|'' @ fmt_d (int (length url)) @ bytes_of ''|'' @ url)"

lemma http_on_last:
  assumes s: "http_slot g fd i got" and len: "length got + length d + 2 \<le> CHUNK_MAX" and f: "finished exec (got @ d) url"
  obtains calls g' where "http_callback exec handle (socket_event (data_message fd d)) g = Some (calls, g')"
    "filter is_send calls = [answer handle g fd url]" "http_slot g' fd i []"
proof -
  from s obtain p where p: "cn_buffer (ht_conn g ! i) = Some p" "proxy_holds got p" by (auto simp: http_slot_def split: option.splits)
  from f obtain es n j l pre where e: "exec HTTP_REQUEST (got @ d) = (es, n)" "list_all (\<lambda>e. span e \<le> length (got @ d)) es"
    "On_message_complete \<in> set es" "0 < n" "dropWhile (\<lambda>e. \<not> is_url e) (rev es) = On_url j l # pre"
    "urldecode (take l (drop j (got @ d))) l (l + 1) = Some url"
    by (auto simp: finished_def split: prod.splits list.splits parser_event.splits)
  obtain q where q: "px_chunk_ptr q = length (got @ d)" "\<not> px_complete q" "px_type q = HTTP_REQUEST"
    "length (px_chunk q) = CHUNK_MAX" "take (length (got @ d)) (px_chunk q) = got @ d"
    "proxy_parse exec p d (length d) = map_option (\<lambda>(calls, p). (if px_complete p then n else 0, calls, p)) (handle_events es q)"
    by (rule parse_chunk [OF p(2) len, of exec es n]) (use e(1,2) in simp_all)
  obtain calls r where r: "handle_events es q = Some (calls, r)" "filter is_send calls = []" "same_chunk q r" "px_complete r"
    "px_url r = Some url" "px_url_ptr r = length url"
    by (rule last_url [OF q(5) _ e(2,5,6)]) (use q(4) len e(3) in auto)
  have "On_url j l \<in> set es" using e(5) by (metis in_set_conv_decomp_first set_dropWhileD set_rev list.set_intros(1))
  then have "length url \<le> 20478" using urldecode_length [OF e(6)] e(2) len by (force simp: list_all_iff CHUNK_MAX_def)
  moreover from this have "length (fmt_d (int (length url))) \<le> 5" by (intro length_fmt_d) simp_all
  ultimately have "http_response handle g ((ht_conn g ! i)\<lparr>cn_buffer := Some r\<rparr>)
      = Some ([answer handle g fd url], (ht_conn g ! i)\<lparr>cn_buffer := Some (proxy_reset r)\<rparr>)"
    using r s by (simp add: http_response_def sprintf_def MESSAGE_BUFFER_MAX_def answer_def http_slot_def)
  then have "\<exists>log. http_callback exec handle (socket_event (data_message fd d)) g = Some (log_debug handle log # calls @ [answer handle g fd url],
      set_http_conn (int i) ((ht_conn g ! i)\<lparr>cn_buffer := Some (proxy_reset r)\<rparr>) g)"
    unfolding http_callback_data using s p q(6) r(1,4) e(4) hashid_lookup_slot [of "ht_hash g" fd] len
    by (simp add: http_slot_def http_on_data_def data_message_def http_conn_at_def at_def CHUNK_MAX_def Let_def)
  then obtain log where "http_callback exec handle (socket_event (data_message fd d)) g = Some (log_debug handle log # calls @ [answer handle g fd url],
      set_http_conn (int i) ((ht_conn g ! i)\<lparr>cn_buffer := Some (proxy_reset r)\<rparr>) g)" by blast
  then show thesis
    by (rule that) (use r s q in \<open>simp_all add: answer_def http_slot_def set_http_conn_def proxy_holds_def proxy_reset_def same_chunk_def Let_def\<close>)
qed

section \<open>Runs\<close>

fun http_run :: "http_exec \<Rightarrow> u32 \<Rightarrow> skynet_message list \<Rightarrow> http \<Rightarrow> (call list \<times> http) option" where
  "http_run exec handle [] g = Some ([], g)"
| "http_run exec handle (m # ms) g = do {
     (calls, g) \<leftarrow> http_callback exec handle m g;
     (calls', g) \<leftarrow> http_run exec handle ms g;
     Some (calls @ calls', g) }"

lemma http_run_chunks:
  assumes "http_slot g fd i got" "ds \<noteq> []" "length got + length (concat ds) + 2 \<le> CHUNK_MAX"
    and "\<And>k. 0 < k \<Longrightarrow> k < length ds \<Longrightarrow> unfinished exec (got @ concat (take k ds))" "finished exec (got @ concat ds) url"
  shows "\<exists>calls g'. http_run exec handle (map (\<lambda>d. socket_event (data_message fd d)) ds) g = Some (calls, g')
    \<and> filter is_send calls = [answer handle g fd url] \<and> http_slot g' fd i []"
  using assms
proof (induction ds arbitrary: g got)
  case (Cons d ds)
  show ?case
  proof (cases "ds = []")
    case True
    with Cons.prems(3,5) have "length got + length d + 2 \<le> CHUNK_MAX" "finished exec (got @ d) url" by simp_all
    from http_on_last [OF Cons.prems(1) this, of handle] obtain calls g' where
      "http_callback exec handle (socket_event (data_message fd d)) g = Some (calls, g')"
      "filter is_send calls = [answer handle g fd url]" "http_slot g' fd i []" by blast
    with True show ?thesis by simp
  next
    case False
    then have "unfinished exec (got @ d)" "length got + length d + 2 \<le> CHUNK_MAX"
      using Cons.prems(4) [of 1] Cons.prems(3) by simp_all
    from http_on_chunk [OF Cons.prems(1) this(2,1), of handle] obtain calls g1 where
      c: "http_callback exec handle (socket_event (data_message fd d)) g = Some (calls, g1)"
      "filter is_send calls = []" "http_slot g1 fd i (got @ d)" "ht_forward g1 = ht_forward g" by blast
    have "\<exists>calls g'. http_run exec handle (map (\<lambda>d. socket_event (data_message fd d)) ds) g1 = Some (calls, g')
        \<and> filter is_send calls = [answer handle g1 fd url] \<and> http_slot g' fd i []"
    proof (rule Cons.IH [OF c(3) False])
      show "unfinished exec ((got @ d) @ concat (take k ds))" if "0 < k" "k < length ds" for k
        using Cons.prems(4) [of "Suc k"] that by simp
    qed (use Cons.prems(3,5) in simp_all)
    with c show ?thesis by (auto simp: answer_def)
  qed
qed simp

lemma http_accepts:
  assumes "hashid_ok (ht_hash g)" "int (length (ht_conn g)) = hi_cap (ht_hash g)" "\<not> hashid_full (ht_hash g)" "slot_of (ht_hash g) fd = None"
    "0 \<le> fd" "sm_type m = SKYNET_SOCKET_TYPE_ACCEPT" "sm_id m = ht_listen_fd g" "sm_ud m = fd"
  obtains calls g' i where "http_callback exec handle (socket_event m) g = Some (calls, g')" "filter is_send calls = []"
    "http_slot g' fd i []" "ht_forward g' = ht_forward g"
proof -
  obtain c hash where h: "hashid_insert (ht_hash g) fd = Some (int c, hash)" "hashid_ok hash" "c < length (hi_id (ht_hash g))"
    "slot_of hash = (slot_of (ht_hash g))(fd := Some c)" by (rule hashid_insert_ok [OF assms(1,5,4,3)])
  have c: "c < length (ht_conn g)" using h(3) assms(1,2) by (simp add: hashid_okD)
  let ?c = "(ht_conn g ! c)\<lparr>cn_fd := fd, cn_source := 0, cn_session := 0, cn_remote_name := Some (sm_tail m),
    cn_buffer := Some (proxy_create HTTP_REQUEST fd)\<rparr>"
  have "\<exists>log. http_callback exec handle (socket_event m) g
      = Some ([Socket_start fd, log_debug handle log], set_http_conn (int c) ?c (g\<lparr>ht_hash := hash\<rparr>))"
    using assms(3,6-8) h(1) c
    by (simp add: http_callback_def socket_event_def SERVICE_SOCKET_def SERVICE_TEXT_def http_dispatch_socket_message_def
        SKYNET_SOCKET_TYPE_ACCEPT_def SKYNET_SOCKET_TYPE_DATA_def http_on_accept_def http_conn_at_def at_def http_accept_def Let_def)
  then obtain log where "http_callback exec handle (socket_event m) g
      = Some ([Socket_start fd, log_debug handle log], set_http_conn (int c) ?c (g\<lparr>ht_hash := hash\<rparr>))" by blast
  then show thesis
    by (rule that [where i = c]) (use h c assms(5) in \<open>simp_all add: http_slot_def set_http_conn_def proxy_create_def proxy_holds_def\<close>)
qed

section \<open>Properties\<close>


text \<open>A parser that knows one request, with an escaped letter in its URL.\<close>

definition one_request :: "byte list" where "one_request = bytes_of ''GET /%41 HTTP/1.1'' @ [13, 10, 13, 10]"

definition one_parser :: http_exec where
  "one_parser type d =
     (if d = one_request
      then ([On_message_begin, On_url 4 4, On_headers_complete, On_message_complete], int (length d)) else ([], int (length d)))"


end
