(* ===== verification/Simdb.thy ===== *)
theory Simdb
  imports Gate
begin

text \<open>
  The simple database (\<open>service_simdb.c\<close>): a document is a file in a folder for its collection in a folder for its
  database. The files are a part of the state here, folders and files by their paths; \<open>may\<close> is the answer of the
  system when the service creates a folder or a file. \<open>ctx\<close> is the low half of the address of the service, which the
  code passes for its handle when it logs. Other spellings of a path (dots, doubled bars) are taken for other
  files. The bytes of a message have no NUL behind them, so that a string that
  does not end in the message is \<open>None\<close>.
\<close>

section \<open>Files\<close>

record disk =
  dk_dirs :: "byte list list"
  dk_files :: "byte list \<Rightarrow> byte list option"

definition access :: "byte list \<Rightarrow> disk \<Rightarrow> bool" where
  "access path d \<longleftrightarrow> path \<in> set (dk_dirs d) \<or> dk_files d path \<noteq> None"

definition mkdir :: "(byte list \<Rightarrow> bool) \<Rightarrow> byte list \<Rightarrow> disk \<Rightarrow> bool \<times> disk" where
  "mkdir may path d = (if access path d \<or> \<not> may path then (False, d) else (True, d\<lparr>dk_dirs := path # dk_dirs d\<rparr>))"

text \<open>\<open>remove\<close> of a folder is left out: no path that the service removes names one of its own folders.\<close>

definition remove_file :: "byte list \<Rightarrow> disk \<Rightarrow> bool \<times> disk" where
  "remove_file path d = (if dk_files d path = None then (False, d) else (True, d\<lparr>dk_files := (dk_files d)(path := None)\<rparr>))"

definition write_file :: "(byte list \<Rightarrow> bool) \<Rightarrow> byte list \<Rightarrow> byte list \<Rightarrow> disk \<Rightarrow> disk option" where
  "write_file may path bytes d =
     (if path \<in> set (dk_dirs d) \<or> dk_files d path = None \<and> \<not> may path then None
      else Some (d\<lparr>dk_files := (dk_files d)(path \<mapsto> bytes)\<rparr>))"

text \<open>\<open>snprintf\<close> into an array of \<open>n\<close> bytes, and \<open>%s\<close> of \<open>fscanf\<close>: the next word.\<close>

definition snprintf :: "nat \<Rightarrow> byte list \<Rightarrow> byte list" where
  "snprintf n txt = take (n - 1) txt"

definition scan_word :: "byte list \<Rightarrow> byte list option" where
  "scan_word bs = (case takeWhile (\<lambda>b. \<not> isspace b) (dropWhile isspace bs) of [] \<Rightarrow> None | w \<Rightarrow> Some w)"

section \<open>Folders and files of the service\<close>

definition simdb_folder_create :: "(byte list \<Rightarrow> bool) \<Rightarrow> u32 \<Rightarrow> byte list \<Rightarrow> disk \<Rightarrow> int \<times> call list \<times> disk" where
  "simdb_folder_create may ctx path d =
     (if access path d then (0, [], d)
      else case mkdir may path d of
        (True, d) \<Rightarrow> (0, [], d)
      | (False, d) \<Rightarrow> (-1, [log_error ctx (bytes_of ''[simdb]create floder failed: '' @ path)], d))"

definition simdb_file_exist :: "byte list \<Rightarrow> disk \<Rightarrow> bool" where
  "simdb_file_exist file d = access file d"

definition simdb_file_delete :: "u32 \<Rightarrow> byte list \<Rightarrow> disk \<Rightarrow> int \<times> call list \<times> disk" where
  "simdb_file_delete ctx file d =
     (case remove_file file d of
        (True, d) \<Rightarrow> (0, [], d)
      | (False, d) \<Rightarrow> (-1, [log_error ctx (bytes_of ''[simdb]delete file failed: '' @ file)], d))"

text \<open>
  The string that is read, \<open>Inl\<close> when the file cannot be opened. A file without a word leaves the buffer
  uninitialised; the string may end before the word does.
\<close>

definition simdb_file_read :: "u32 \<Rightarrow> byte list \<Rightarrow> disk \<Rightarrow> (call list \<times> byte list option) option" where
  "simdb_file_read ctx file d =
     (case dk_files d file of
        None \<Rightarrow> Some ([log_error ctx (bytes_of ''[simdb]read file failed: '' @ file)], None)
      | Some bytes \<Rightarrow> map_option (\<lambda>w. ([], Some (cstr w))) (scan_word bytes))"

definition simdb_file_write :: "(byte list \<Rightarrow> bool) \<Rightarrow> u32 \<Rightarrow> byte list \<Rightarrow> byte list \<Rightarrow> disk \<Rightarrow> call list \<times> disk" where
  "simdb_file_write may ctx file value d =
     (case write_file may file (cstr value @ [10]) d of
        None \<Rightarrow> ([log_error ctx (bytes_of ''[simdb]write file failed: '' @ file)], d)
      | Some d \<Rightarrow> ([], d))"

section \<open>Documents\<close>

type_synonym path3 = "byte list \<times> byte list \<times> byte list"

definition paths_of :: "byte list \<Rightarrow> byte list \<Rightarrow> byte list \<Rightarrow> byte list \<Rightarrow> path3" where
  "paths_of path dbname collection query =
     (let dbpath = snprintf 256 (path @ [47] @ dbname);
          tablepath = snprintf 512 (dbpath @ [47] @ collection) in
      (dbpath, tablepath, snprintf 1024 (tablepath @ [47] @ query)))"

definition doc_text :: "string \<Rightarrow> byte list \<Rightarrow> byte list \<Rightarrow> byte list \<Rightarrow> byte list" where
  "doc_text s dbname collection q = bytes_of s @ dbname @ bytes_of '':'' @ collection @ bytes_of '', '' @ q"

definition not_found :: "u32 \<Rightarrow> byte list \<Rightarrow> call" where
  "not_found ctx filepath = log_error ctx (bytes_of ''[simdb] file not found: '' @ filepath)"

definition simdb_insert :: "u32 \<Rightarrow> byte list \<Rightarrow> byte list \<Rightarrow> byte list option \<Rightarrow> call list option" where
  "simdb_insert ctx dbname collection value = do {
     v \<leftarrow> value;
     Some [log_error ctx (doc_text ''[simdb] insert failed, '' dbname collection (cstr v)),
           log_error ctx (bytes_of ''[simdb] not support insert method.'')] }"

text \<open>The query of \<open>simdb_remove\<close> must end inside the message, and is copied into an array of 1024 bytes.\<close>

definition simdb_remove :: "u32 \<Rightarrow> byte list \<Rightarrow> byte list \<Rightarrow> byte list \<Rightarrow> byte list option \<Rightarrow> disk \<Rightarrow> (call list \<times> disk) option" where
  "simdb_remove ctx path dbname collection query d = do {
     q \<leftarrow> query;
     n \<leftarrow> strlen_at q;
     let temp = take n q;
     if n \<ge> 1024 then None
     else do {
       let (_, _, filepath) = paths_of path dbname collection temp;
       if simdb_file_exist filepath d then do {
         let (_, calls, d) = simdb_file_delete ctx filepath d;
         Some (calls @ [log_debug ctx (doc_text ''[simdb] remove success, '' dbname collection temp)], d) }
       else Some ([log_error ctx (doc_text ''[simdb] remove failed, '' dbname collection temp), not_found ctx filepath], d) } }"

definition simdb_update ::
  "(byte list \<Rightarrow> bool) \<Rightarrow> u32 \<Rightarrow> byte list \<Rightarrow> byte list \<Rightarrow> byte list \<Rightarrow> byte list \<Rightarrow> byte list option \<Rightarrow> disk
    \<Rightarrow> (call list \<times> disk) option" where
  "simdb_update may ctx path dbname collection query value d = do {
     let (_, _, filepath) = paths_of path dbname collection query;
     if simdb_file_exist filepath d then do {
       v \<leftarrow> value;
       let (_, calls, d) = simdb_file_delete ctx filepath d;
       let (calls', d) = simdb_file_write may ctx filepath v d;
       Some (calls @ calls' @ [log_debug ctx (doc_text ''[simdb] update success, '' dbname collection query)], d) }
     else Some ([log_error ctx (doc_text ''[simdb] update failed, '' dbname collection query), not_found ctx filepath], d) }"

definition simdb_upsert ::
  "(byte list \<Rightarrow> bool) \<Rightarrow> u32 \<Rightarrow> byte list \<Rightarrow> byte list \<Rightarrow> byte list \<Rightarrow> byte list \<Rightarrow> byte list option \<Rightarrow> disk
    \<Rightarrow> (call list \<times> disk) option" where
  "simdb_upsert may ctx path dbname collection query value d = do {
     let (dbpath, tablepath, filepath) = paths_of path dbname collection query;
     let (r, calls, d) = simdb_folder_create may ctx dbpath d;
     if r \<noteq> 0 then Some (calls, d)
     else do {
       let (r, calls', d) = simdb_folder_create may ctx tablepath d;
       let calls = calls @ calls';
       if r \<noteq> 0 then Some (calls, d)
       else do {
         let (calls', d) = (if simdb_file_exist filepath d then snd (simdb_file_delete ctx filepath d) else ([], d));
         v \<leftarrow> value;
         let (calls'', d) = simdb_file_write may ctx filepath v d;
         Some (calls @ calls' @ calls''
           @ [log_debug ctx (doc_text ''[simdb] upsert success, '' dbname collection query)], d) } } }"

text \<open>When a folder cannot be created the code returns without a value.\<close>

definition simdb_selectone ::
  "(byte list \<Rightarrow> bool) \<Rightarrow> u32 \<Rightarrow> byte list \<Rightarrow> byte list \<Rightarrow> byte list \<Rightarrow> byte list \<Rightarrow> disk
    \<Rightarrow> (call list \<times> byte list option \<times> disk) option" where
  "simdb_selectone may ctx path dbname collection query d = do {
     let (dbpath, tablepath, filepath) = paths_of path dbname collection query;
     let (r, calls, d) = simdb_folder_create may ctx dbpath d;
     if r \<noteq> 0 then None
     else do {
       let (r, calls', d) = simdb_folder_create may ctx tablepath d;
       if r \<noteq> 0 then None
       else if simdb_file_exist filepath d then do {
         (calls'', v) \<leftarrow> simdb_file_read ctx filepath d;
         Some (calls @ calls' @ calls'', v, d) }
       else Some (calls @ calls', None, d) } }"

section \<open>Commands\<close>

text \<open>\<open>strsep\<close> with a bar: the token and what is behind it, which is missing when the string ended.\<close>

fun strsep :: "byte list \<Rightarrow> (byte list \<times> byte list option) option" where
  "strsep [] = None"
| "strsep (b # bs) =
     (if b = 124 then Some ([], Some bs) else if b = 0 then Some ([], None)
      else map_option (\<lambda>(tok, r). (b # tok, r)) (strsep bs))"

text \<open>The macro \<open>GET_CMD_ARGS\<close>: without an argument the command ends.\<close>

definition get_cmd_args ::
  "byte list option \<Rightarrow> disk \<Rightarrow> (byte list \<Rightarrow> byte list option \<Rightarrow> (call list \<times> disk) option) \<Rightarrow> (call list \<times> disk) option" where
  "get_cmd_args args d k =
     (case args of None \<Rightarrow> Some ([], d) | Some bs \<Rightarrow> do { (name, args) \<leftarrow> strsep bs; k name args })"

definition simdb_findone ::
  "(byte list \<Rightarrow> bool) \<Rightarrow> u32 \<Rightarrow> u32 \<Rightarrow> byte list \<Rightarrow> u32 \<Rightarrow> u32 \<Rightarrow> byte list \<Rightarrow> byte list \<Rightarrow> byte list \<Rightarrow> disk
    \<Rightarrow> (call list \<times> disk) option" where
  "simdb_findone may ctx handle path source session dbname collec query d = do {
     (calls, value, d) \<leftarrow> simdb_selectone may ctx path dbname collec query d;
     Some (calls @ [Sendhandle source handle session SERVICE_RESPONSE (case value of Some v \<Rightarrow> v | None \<Rightarrow> [])], d) }"

definition simdb_dispatch_cmd ::
  "(byte list \<Rightarrow> bool) \<Rightarrow> u32 \<Rightarrow> u32 \<Rightarrow> byte list \<Rightarrow> u32 \<Rightarrow> u32 \<Rightarrow> byte list \<Rightarrow> disk \<Rightarrow> (call list \<times> disk) option" where
  "simdb_dispatch_cmd may ctx handle path source session msg d =
     (let i = command_end msg; param = Some (drop (i + 1) msg) in
      if i + 1 \<ge> length msg then Some ([], d)
      else do {
        update \<leftarrow> memcmp_eq msg (lit ''update'') i;
        if update then
          get_cmd_args param d (\<lambda>dbname args. get_cmd_args args d (\<lambda>collec args. get_cmd_args args d (\<lambda>query args.
            simdb_update may ctx path dbname collec query args d)))
        else do {
          upsert \<leftarrow> memcmp_eq msg (lit ''upsert'') i;
          if upsert then
            get_cmd_args param d (\<lambda>dbname args. get_cmd_args args d (\<lambda>collec args. get_cmd_args args d (\<lambda>query args.
              simdb_upsert may ctx path dbname collec query args d)))
          else do {
            insrt \<leftarrow> memcmp_eq msg (lit ''insert'') i;
            if insrt then
              get_cmd_args param d (\<lambda>dbname args. get_cmd_args args d (\<lambda>collec args.
                map_option (\<lambda>calls. (calls, d)) (simdb_insert ctx dbname collec args)))
            else do {
              findone \<leftarrow> memcmp_eq msg (lit ''findone'') i;
              if findone then
                get_cmd_args param d (\<lambda>dbname args. get_cmd_args args d (\<lambda>collec args. get_cmd_args args d (\<lambda>query args.
                  simdb_findone may ctx handle path source session dbname collec query d)))
              else do {
                rem \<leftarrow> memcmp_eq msg (lit ''remove'') i;
                if rem then
                  get_cmd_args param d (\<lambda>dbname args. get_cmd_args args d (\<lambda>collec args.
                    simdb_remove ctx path dbname collec args d))
                else Some ([], d) } } } } })"

section \<open>The service\<close>

text \<open>\<open>sscanf (args, "%s")\<close> must find a path that fits into 128 bytes, or the code goes on with what the memory holds.\<close>

definition simdb_create :: "(byte list \<Rightarrow> bool) \<Rightarrow> u32 \<Rightarrow> byte list \<Rightarrow> disk \<Rightarrow> (int \<times> call list \<times> byte list \<times> disk) option" where
  "simdb_create may ctx args d = do {
     path \<leftarrow> scan_word args;
     if length path \<ge> 128 then None
     else do {
       let (r, calls, d) = simdb_folder_create may ctx path d;
       Some (r, calls, path, d) } }"

definition simdb_callback ::
  "(byte list \<Rightarrow> bool) \<Rightarrow> u32 \<Rightarrow> u32 \<Rightarrow> byte list \<Rightarrow> skynet_message \<Rightarrow> disk \<Rightarrow> (call list \<times> disk) option" where
  "simdb_callback may ctx handle path msg d =
     (if m_type msg = SERVICE_TEXT then
        (case m_data msg of
           Some (Bytes bs) \<Rightarrow> simdb_dispatch_cmd may ctx handle path (m_source msg) (m_session msg) (take (m_size msg) bs) d
         | None \<Rightarrow> if m_size msg = 0 then Some ([], d) else None
         | _ \<Rightarrow> None)
      else Some ([], d))"

section \<open>Documents as a map\<close>

type_synonym doc_key = "byte list \<times> byte list \<times> byte list"

datatype doc_command = Upsert doc_key "byte list" | Update doc_key "byte list" | Findone doc_key

fun command_bytes :: "doc_command \<Rightarrow> byte list" where
  "command_bytes (Upsert (db, col, q) v) = bytes_of ''upsert|'' @ db @ 124 # col @ 124 # q @ 124 # v"
| "command_bytes (Update (db, col, q) v) = bytes_of ''update|'' @ db @ 124 # col @ 124 # q @ 124 # v"
| "command_bytes (Findone (db, col, q)) = bytes_of ''findone|'' @ db @ 124 # col @ 124 # q @ [124]"

text \<open>What a command does to the documents and what it answers.\<close>

fun doc_step :: "doc_command \<Rightarrow> (doc_key \<Rightarrow> byte list option) \<Rightarrow> byte list list \<times> (doc_key \<Rightarrow> byte list option)" where
  "doc_step (Upsert k v) m = ([], m(k \<mapsto> v))"
| "doc_step (Update k v) m = ([], if m k = None then m else m(k \<mapsto> v))"
| "doc_step (Findone k) m = ([case m k of None \<Rightarrow> [] | Some v \<Rightarrow> v], m)"

fun doc_run :: "(u32 \<times> u32 \<times> doc_command) list \<Rightarrow> (doc_key \<Rightarrow> byte list option) \<Rightarrow> (u32 \<times> u32 \<times> byte list) list" where
  "doc_run [] m = []"
| "doc_run ((source, session, c) # cmds) m =
     (case doc_step c m of (rs, m) \<Rightarrow> map (\<lambda>r. (source, session, r)) rs @ doc_run cmds m)"

text \<open>Names without the separators, not too long for the arrays of the paths; values that are one word.\<close>

definition name_ok :: "byte list \<Rightarrow> bool" where
  "name_ok n \<longleftrightarrow> n \<noteq> [] \<and> hd n \<noteq> 46 \<and> 0 \<notin> set n \<and> 47 \<notin> set n \<and> 124 \<notin> set n \<and> length n \<le> 120"

definition key_ok :: "doc_key \<Rightarrow> bool" where
  "key_ok = (\<lambda>(db, col, q). name_ok db \<and> name_ok col \<and> name_ok q)"

definition word_ok :: "byte list \<Rightarrow> bool" where
  "word_ok v \<longleftrightarrow> v \<noteq> [] \<and> 0 \<notin> set v \<and> (\<forall>b \<in> set v. \<not> isspace b)"

fun command_ok :: "doc_command \<Rightarrow> bool" where
  "command_ok (Upsert k v) \<longleftrightarrow> key_ok k \<and> word_ok v"
| "command_ok (Update k v) \<longleftrightarrow> key_ok k \<and> word_ok v"
| "command_ok (Findone k) \<longleftrightarrow> key_ok k"

definition doc_path :: "byte list \<Rightarrow> doc_key \<Rightarrow> byte list" where
  "doc_path path = (\<lambda>(db, col, q). path @ 47 # db @ 47 # col @ 47 # q)"

lemma split_at_first: "x \<notin> set a \<Longrightarrow> x \<notin> set b \<Longrightarrow> a @ x # r = b @ x # s \<longleftrightarrow> a = b \<and> r = s"
proof (induction a arbitrary: b)
  case Nil
  then show ?case by (cases b) auto
next
  case (Cons y a)
  then show ?case by (cases b) auto
qed

lemma split_at_none: "x \<notin> set a \<Longrightarrow> a \<noteq> b @ x # r"
  by auto

lemma doc_path_inj: "key_ok k \<Longrightarrow> key_ok l \<Longrightarrow> doc_path path k = doc_path path l \<longleftrightarrow> k = l"
  by (cases k; cases l) (auto simp: key_ok_def name_ok_def doc_path_def split_at_first)

lemma doc_path_not_folder:
  assumes "key_ok (db, col, q)" "key_ok l"
  shows "doc_path path l \<noteq> path @ 47 # db" "doc_path path l \<noteq> path @ 47 # db @ 47 # col"
  using assms split_at_none [of 47 db] split_at_none [of 47 col]
  by (cases l, force simp: key_ok_def name_ok_def doc_path_def split_at_first)+

lemma paths_of_key:
  assumes "key_ok (db, col, q)" "length path < 128"
  shows "paths_of path db col q = (path @ 47 # db, path @ 47 # db @ 47 # col, doc_path path (db, col, q))"
proof -
  have fits: "snprintf n t = t" if "length t < n" for n t using that by (simp add: snprintf_def)
  have "length db \<le> 120" "length col \<le> 120" "length q \<le> 120" using assms(1) by (simp_all add: key_ok_def name_ok_def)
  with assms(2) show ?thesis by (simp add: paths_of_def doc_path_def fits)
qed

text \<open>The files are the documents, and no folder is in the way of a document.\<close>

definition disk_holds :: "byte list \<Rightarrow> (doc_key \<Rightarrow> byte list option) \<Rightarrow> disk \<Rightarrow> bool" where
  "disk_holds path m d \<longleftrightarrow> (\<forall>k. key_ok k \<longrightarrow> dk_files d (doc_path path k) = map_option (\<lambda>v. v @ [10]) (m k)
     \<and> doc_path path k \<notin> set (dk_dirs d) \<and> pred_option word_ok (m k))"

lemma disk_holdsD:
  assumes "disk_holds path m d" "key_ok k"
  shows "dk_files d (doc_path path k) = map_option (\<lambda>v. v @ [10]) (m k)" "doc_path path k \<notin> set (dk_dirs d)"
    "m k = Some v \<Longrightarrow> word_ok v"
  using assms unfolding disk_holds_def by (blast, blast, metis option.pred_inject(2))

lemma folders_kept:
  assumes "key_ok (db, col, q)" "disk_holds path m d" "p = path @ 47 # db \<or> p = path @ 47 # db @ 47 # col"
  obtains d' where "simdb_folder_create (\<lambda>_. True) ctx p d = (0, [], d')" "disk_holds path m d'"
proof (cases "access p d")
  case True
  with that [of d] assms(2) show thesis by (simp add: simdb_folder_create_def)
next
  case False
  have "disk_holds path m (d\<lparr>dk_dirs := p # dk_dirs d\<rparr>)"
    using assms(2,3) doc_path_not_folder [OF assms(1), of _ path] by (auto simp: disk_holds_def)
  with False that show thesis by (simp add: simdb_folder_create_def mkdir_def)
qed

lemma disk_write:
  assumes "key_ok k" "disk_holds path m d" "word_ok v"
  shows "simdb_file_write (\<lambda>_. True) ctx (doc_path path k) v d = ([], d\<lparr>dk_files := (dk_files d)(doc_path path k \<mapsto> v @ [10])\<rparr>)"
    and "disk_holds path (m(k \<mapsto> v)) (d\<lparr>dk_files := (dk_files d)(doc_path path k \<mapsto> v @ [10])\<rparr>)"
proof -
  have "cstr v = v" using assms(3) by (auto simp: cstr_def word_ok_def takeWhile_eq_all_conv)
  then show "simdb_file_write (\<lambda>_. True) ctx (doc_path path k) v d = ([], d\<lparr>dk_files := (dk_files d)(doc_path path k \<mapsto> v @ [10])\<rparr>)"
    using disk_holdsD [OF assms(2,1)] by (simp add: simdb_file_write_def write_file_def)
  show "disk_holds path (m(k \<mapsto> v)) (d\<lparr>dk_files := (dk_files d)(doc_path path k \<mapsto> v @ [10])\<rparr>)"
    using assms doc_path_inj [OF _ assms(1), of _ path] by (auto simp: disk_holds_def)
qed

lemma word_read: "word_ok v \<Longrightarrow> scan_word (v @ [10]) = Some v"
  by (cases v) (auto simp: scan_word_def word_ok_def isspace_def takeWhile_append2 takeWhile_eq_all_conv split: list.splits)

lemma doc_exists: "disk_holds path m d \<Longrightarrow> key_ok k \<Longrightarrow> simdb_file_exist (doc_path path k) d \<longleftrightarrow> m k \<noteq> None"
  using disk_holdsD [of path m d k] by (simp add: simdb_file_exist_def access_def)

lemma doc_read:
  assumes "disk_holds path m d" "key_ok k" "m k = Some v"
  shows "simdb_file_read ctx (doc_path path k) d = Some ([], Some v)"
proof -
  have w: "word_ok v" by (rule disk_holdsD(3) [OF assms])
  then have "cstr v = v" by (auto simp: cstr_def word_ok_def takeWhile_eq_all_conv)
  with disk_holdsD(1) [OF assms(1,2)] assms(3) word_read [OF w] show ?thesis by (simp add: simdb_file_read_def)
qed

text \<open>A document that is there is deleted and written again.\<close>

lemma doc_replace:
  assumes "disk_holds path m d" "key_ok k" "word_ok v" "m k \<noteq> None"
  obtains d' where "simdb_file_delete ctx (doc_path path k) d = (0, [], d')"
    "simdb_file_write (\<lambda>_. True) ctx (doc_path path k) v d' = ([], d\<lparr>dk_files := (dk_files d)(doc_path path k \<mapsto> v @ [10])\<rparr>)"
proof -
  have "cstr v = v" using assms(3) by (auto simp: cstr_def word_ok_def takeWhile_eq_all_conv)
  with assms disk_holdsD [OF assms(1,2)] show thesis
    by (intro that) (auto simp: simdb_file_delete_def remove_file_def simdb_file_write_def write_file_def)
qed

lemma upsert_doc:
  assumes k: "key_ok (db, col, q)" and d: "disk_holds path m d" and v: "word_ok v" and p: "length path < 128"
  obtains d' log where "simdb_upsert (\<lambda>_. True) ctx path db col q (Some v) d = Some ([log_debug ctx log], d')"
    "disk_holds path (m((db, col, q) \<mapsto> v)) d'"
proof -
  obtain d1 where d1: "simdb_folder_create (\<lambda>_. True) ctx (path @ 47 # db) d = (0, [], d1)" "disk_holds path m d1"
    by (rule folders_kept [OF k d]) auto
  obtain d2 where d2: "simdb_folder_create (\<lambda>_. True) ctx (path @ 47 # db @ 47 # col) d1 = (0, [], d2)" "disk_holds path m d2"
    by (rule folders_kept [OF k d1(2), where p = "path @ 47 # db @ 47 # col"]) auto
  note w = disk_write(1) [OF k d2(2) v, of ctx] disk_write(2) [OF k d2(2) v]
  show thesis
  proof (cases "m (db, col, q)")
    case None
    with w that show thesis using d1(1) d2(1) doc_exists [OF d2(2) k] paths_of_key [OF k p]
      by (simp add: simdb_upsert_def Let_def)
  next
    case (Some u)
    then obtain d3 where "simdb_file_delete ctx (doc_path path (db, col, q)) d2 = (0, [], d3)"
      "simdb_file_write (\<lambda>_. True) ctx (doc_path path (db, col, q)) v d3
        = ([], d2\<lparr>dk_files := (dk_files d2)(doc_path path (db, col, q) \<mapsto> v @ [10])\<rparr>)"
      using doc_replace [OF d2(2) k v, of ctx] by auto
    with w(2) Some that show thesis using d1(1) d2(1) doc_exists [OF d2(2) k] paths_of_key [OF k p]
      by (simp add: simdb_upsert_def Let_def)
  qed
qed

lemma update_doc:
  assumes k: "key_ok (db, col, q)" and d: "disk_holds path m d" and v: "word_ok v" and p: "length path < 128"
  obtains calls d' where "simdb_update (\<lambda>_. True) ctx path db col q (Some v) d = Some (calls, d')" "\<forall>c \<in> set calls. \<exists>lv t. c = Logger ctx lv t"
    "disk_holds path (if m (db, col, q) = None then m else m((db, col, q) \<mapsto> v)) d'"
proof (cases "m (db, col, q)")
  case None
  with that d show thesis using doc_exists [OF d k] paths_of_key [OF k p]
    by (simp add: simdb_update_def not_found_def Let_def)
next
  case (Some u)
  then obtain d1 where "simdb_file_delete ctx (doc_path path (db, col, q)) d = (0, [], d1)"
    "simdb_file_write (\<lambda>_. True) ctx (doc_path path (db, col, q)) v d1
        = ([], d\<lparr>dk_files := (dk_files d)(doc_path path (db, col, q) \<mapsto> v @ [10])\<rparr>)"
    using doc_replace [OF d k v, of ctx] by auto
  with disk_write(2) [OF k d v] Some that show thesis using doc_exists [OF d k] paths_of_key [OF k p]
    by (simp add: simdb_update_def Let_def)
qed

lemma find_doc:
  assumes k: "key_ok (db, col, q)" and d: "disk_holds path m d" and p: "length path < 128"
  obtains d' where "simdb_findone (\<lambda>_. True) ctx handle path source session db col q d
      = Some ([Sendhandle source handle session SERVICE_RESPONSE (case m (db, col, q) of None \<Rightarrow> [] | Some v \<Rightarrow> v)], d')"
    "disk_holds path m d'"
proof -
  obtain d1 where d1: "simdb_folder_create (\<lambda>_. True) ctx (path @ 47 # db) d = (0, [], d1)" "disk_holds path m d1"
    by (rule folders_kept [OF k d]) auto
  obtain d2 where d2: "simdb_folder_create (\<lambda>_. True) ctx (path @ 47 # db @ 47 # col) d1 = (0, [], d2)" "disk_holds path m d2"
    by (rule folders_kept [OF k d1(2), where p = "path @ 47 # db @ 47 # col"]) auto
  have "simdb_findone (\<lambda>_. True) ctx handle path source session db col q d
      = Some ([Sendhandle source handle session SERVICE_RESPONSE (case m (db, col, q) of None \<Rightarrow> [] | Some v \<Rightarrow> v)], d2)"
    using d1(1) d2(1) doc_exists [OF d2(2) k] doc_read [OF d2(2) k, of _ ctx] paths_of_key [OF k p]
    by (cases "m (db, col, q)") (simp_all add: simdb_findone_def simdb_selectone_def Let_def)
  with that d2(2) show thesis by blast
qed

section \<open>Runs of commands\<close>

definition command_message :: "u32 \<times> u32 \<times> doc_command \<Rightarrow> skynet_message" where
  "command_message = (\<lambda>(source, session, c). \<lparr>m_type = SERVICE_TEXT, m_data = Some (Bytes (command_bytes c)),
     m_size = length (command_bytes c), m_source = source, m_session = session\<rparr>)"

fun simdb_run ::
  "(byte list \<Rightarrow> bool) \<Rightarrow> u32 \<Rightarrow> u32 \<Rightarrow> byte list \<Rightarrow> skynet_message list \<Rightarrow> disk \<Rightarrow> (call list \<times> disk) option" where
  "simdb_run may ctx handle path [] d = Some ([], d)"
| "simdb_run may ctx handle path (m # ms) d = do {
     (calls, d) \<leftarrow> simdb_callback may ctx handle path m d;
     (calls', d) \<leftarrow> simdb_run may ctx handle path ms d;
     Some (calls @ calls', d) }"

fun is_reply :: "call \<Rightarrow> bool" where
  "is_reply (Sendhandle t src ses ty bs) = True" | "is_reply _ = False"

lemma strsep_bar: "124 \<notin> set n \<Longrightarrow> 0 \<notin> set n \<Longrightarrow> strsep (n @ 124 # r) = Some (n, Some r)"
  by (induction n) auto

lemma memcmp_eq_numeral:
  "memcmp_eq (a # p) (b # l) (numeral k) = (if a = b then memcmp_eq p l (pred_numeral k) else Some False)"
  by (simp add: numeral_eq_Suc)

lemma command_names:
  "command_end (bytes_of ''upsert|'' @ r) = 6" "command_end (bytes_of ''update|'' @ r) = 6" "command_end (bytes_of ''findone|'' @ r) = 7"
  "memcmp_eq (bytes_of ''upsert|'' @ r) (lit ''update'') 6 = Some False" "memcmp_eq (bytes_of ''upsert|'' @ r) (lit ''upsert'') 6 = Some True"
  "memcmp_eq (bytes_of ''update|'' @ r) (lit ''update'') 6 = Some True" "memcmp_eq (bytes_of ''findone|'' @ r) (lit ''update'') 7 = Some False"
  "memcmp_eq (bytes_of ''findone|'' @ r) (lit ''upsert'') 7 = Some False" "memcmp_eq (bytes_of ''findone|'' @ r) (lit ''insert'') 7 = Some False"
  "memcmp_eq (bytes_of ''findone|'' @ r) (lit ''findone'') 7 = Some True"
  by (simp_all add: command_end_def bytes_of_def lit_def memcmp_eq_numeral)

lemma command_run:
  assumes "command_ok c" "disk_holds path m d" "length path < 128"
  obtains calls d' where "simdb_callback (\<lambda>_. True) ctx handle path (command_message (source, session, c)) d = Some (calls, d')"
    "filter is_reply calls = map (Sendhandle source handle session SERVICE_RESPONSE) (fst (doc_step c m))"
    "disk_holds path (snd (doc_step c m)) d'"
proof (cases c)
  case (Upsert k v)
  obtain db col q where k: "k = (db, col, q)" by (cases k)
  with assms(1) Upsert have ok: "key_ok (db, col, q)" "word_ok v" by simp_all
  obtain d' log where "simdb_upsert (\<lambda>_. True) ctx path db col q (Some v) d = Some ([log_debug ctx log], d')"
    "disk_holds path (m((db, col, q) \<mapsto> v)) d'" by (rule upsert_doc [OF ok(1) assms(2) ok(2) assms(3)])
  with that Upsert k ok show thesis
    by (simp add: simdb_callback_def command_message_def simdb_dispatch_cmd_def command_names get_cmd_args_def strsep_bar
        key_ok_def name_ok_def Let_def)
next
  case (Update k v)
  obtain db col q where k: "k = (db, col, q)" by (cases k)
  with assms(1) Update have ok: "key_ok (db, col, q)" "word_ok v" by simp_all
  obtain calls d' where u: "simdb_update (\<lambda>_. True) ctx path db col q (Some v) d = Some (calls, d')"
    "\<forall>c \<in> set calls. \<exists>lv t. c = Logger ctx lv t" "disk_holds path (if m (db, col, q) = None then m else m((db, col, q) \<mapsto> v)) d'"
    by (rule update_doc [OF ok(1) assms(2) ok(2) assms(3)])
  have "filter is_reply calls = []" using u(2) by (auto simp: filter_empty_conv)
  with u that Update k ok show thesis
    by (simp add: simdb_callback_def command_message_def simdb_dispatch_cmd_def command_names get_cmd_args_def strsep_bar
        key_ok_def name_ok_def Let_def)
next
  case (Findone k)
  obtain db col q where k: "k = (db, col, q)" by (cases k)
  with assms(1) Findone have ok: "key_ok (db, col, q)" by simp
  obtain d' where "simdb_findone (\<lambda>_. True) ctx handle path source session db col q d
      = Some ([Sendhandle source handle session SERVICE_RESPONSE (case m (db, col, q) of None \<Rightarrow> [] | Some v \<Rightarrow> v)], d')"
    "disk_holds path m d'" by (rule find_doc [OF ok assms(2,3)])
  with that Findone k ok show thesis
    by (simp add: simdb_callback_def command_message_def simdb_dispatch_cmd_def command_names get_cmd_args_def strsep_bar
        key_ok_def name_ok_def Let_def)
qed

lemma commands_run:
  "list_all (\<lambda>(_, _, c). command_ok c) cmds \<Longrightarrow> disk_holds path m d \<Longrightarrow> length path < 128 \<Longrightarrow>
   \<exists>calls d'. simdb_run (\<lambda>_. True) ctx handle path (map command_message cmds) d = Some (calls, d')
     \<and> filter is_reply calls = map (\<lambda>(source, session, r). Sendhandle source handle session SERVICE_RESPONSE r) (doc_run cmds m)"
proof (induction cmds arbitrary: m d)
  case (Cons cmd cmds)
  obtain source session c where cmd: "cmd = (source, session, c)" by (cases cmd)
  with Cons.prems(1) have ok: "command_ok c" and oks: "list_all (\<lambda>(_, _, c). command_ok c) cmds" by simp_all
  obtain calls d' where c: "simdb_callback (\<lambda>_. True) ctx handle path (command_message (source, session, c)) d = Some (calls, d')"
    "filter is_reply calls = map (Sendhandle source handle session SERVICE_RESPONSE) (fst (doc_step c m))"
    "disk_holds path (snd (doc_step c m)) d'" by (rule command_run [OF ok Cons.prems(2,3)])
  from Cons.IH [OF oks c(3) Cons.prems(3)] c(1,2) cmd show ?case by (auto simp: comp_def split: prod.splits)
qed simp

section \<open>Properties\<close>



text \<open>A value of two words is read back as its first word.\<close>

lemma second_word_lost:
  "\<exists>calls d. simdb_run (\<lambda>_. True) 9 0x103 (bytes_of ''db'')
      (map command_message [(1, 1, Upsert ([97], [98], [99]) [120, 32, 121]), (2, 7, Findone ([97], [98], [99]))])
      \<lparr>dk_dirs = [bytes_of ''db''], dk_files = (\<lambda>_. None)\<rparr> = Some (calls, d)
    \<and> filter is_reply calls = [Sendhandle 2 0x103 7 SERVICE_RESPONSE [120]]"
proof -
  let ?r = "simdb_run (\<lambda>_. True) 9 0x103 (bytes_of ''db'')
      (map command_message [(1, 1, Upsert ([97], [98], [99]) [120, 32, 121]), (2, 7, Findone ([97], [98], [99]))])
      \<lparr>dk_dirs = [bytes_of ''db''], dk_files = (\<lambda>_. None)\<rparr>"
  have "case ?r of Some (calls, d) \<Rightarrow> filter is_reply calls = [Sendhandle 2 0x103 7 SERVICE_RESPONSE [120]] | None \<Rightarrow> False"
    by code_simp
  then show ?thesis by (auto split: option.splits)
qed

end
