(* ===== verification/Logger_Service.thy ===== *)
theory Logger_Service
  imports Simdb
begin

text \<open>
  The logger service (\<open>service_logger.c\<close>): it appends the messages that it gets from \<open>skynet_logger_print\<close> to a file and goes
  on to a new one, named by the time, when the file has grown to its size. The files are those of \<open>Simdb\<close>; an open file is
  the path it was opened by. \<open>now\<close> is the local time, \<open>may\<close> whether the system opens a file of that name.
\<close>

section \<open>State\<close>

text \<open>\<open>lg_handle\<close> is \<open>None\<close> for a null pointer.\<close>

record logger =
  lg_size :: int
  lg_maxsize :: int
  lg_level :: int
  lg_close :: bool
  lg_handle :: "byte list option"
  lg_basename :: "byte list"
  lg_filename :: "byte list"

text \<open>\<open>struct tm\<close>, with the year and the month as the code prints them.\<close>

record tm =
  tm_year :: nat
  tm_mon :: nat
  tm_mday :: nat
  tm_hour :: nat
  tm_min :: nat
  tm_sec :: nat

definition fmt_02d :: "nat \<Rightarrow> byte list" where
  "fmt_02d n = (if n < 10 then [48] else []) @ dec_digits n"

fun hex_digits :: "nat \<Rightarrow> byte list" where
  "hex_digits n = (if n < 16 then [] else hex_digits (n div 16)) @ [word_of_nat (if n mod 16 < 10 then 48 + n mod 16 else 87 + n mod 16)]"

declare hex_digits.simps [simp del]

definition fmt_04x :: "u32 \<Rightarrow> byte list" where
  "fmt_04x x = (let h = hex_digits (unat x) in replicate (4 - length h) 48 @ h)"

definition logger_format_name :: "tm \<Rightarrow> nat \<Rightarrow> byte list \<Rightarrow> byte list" where
  "logger_format_name t n base = snprintf n (base @ bytes_of ''-'' @ fmt_02d (tm_year t) @ fmt_02d (tm_mon t) @ fmt_02d (tm_mday t)
     @ bytes_of ''-'' @ fmt_02d (tm_hour t) @ fmt_02d (tm_min t) @ fmt_02d (tm_sec t) @ bytes_of ''.log'')"

definition logger_format_time :: "tm \<Rightarrow> nat \<Rightarrow> byte list" where
  "logger_format_time t n = snprintf n (bytes_of ''['' @ fmt_02d (tm_year t) @ bytes_of '':'' @ fmt_02d (tm_mon t) @ bytes_of '':''
     @ fmt_02d (tm_mday t) @ bytes_of '' '' @ fmt_02d (tm_hour t) @ bytes_of '':'' @ fmt_02d (tm_min t) @ bytes_of '':''
     @ fmt_02d (tm_sec t) @ bytes_of ''] '')"

text \<open>The head of a line; for another level the buffer stays as it is.\<close>

definition logger_format_head :: "byte list \<Rightarrow> nat \<Rightarrow> int \<Rightarrow> u32 \<Rightarrow> byte list" where
  "logger_format_head buffer n level source =
     (if level = LOGGER_DEBUG then snprintf n (bytes_of ''DEBUG [:'' @ fmt_04x source @ bytes_of ''] '')
      else if level = LOGGER_WARN then snprintf n (bytes_of ''WARN [:'' @ fmt_04x source @ bytes_of ''] '')
      else if level = LOGGER_NOTICE then snprintf n (bytes_of ''NOTICE [:'' @ fmt_04x source @ bytes_of ''] '')
      else if level = LOGGER_ERROR then snprintf n (bytes_of ''ERROR [:'' @ fmt_04x source @ bytes_of ''] '')
      else buffer)"

section \<open>Operations\<close>

text \<open>The name and the handle; a file that is there is emptied.\<close>

definition logger_open_file ::
  "(byte list \<Rightarrow> bool) \<Rightarrow> tm \<Rightarrow> nat \<Rightarrow> byte list \<Rightarrow> disk \<Rightarrow> byte list \<times> byte list option \<times> disk" where
  "logger_open_file may now n base d =
     (let name = logger_format_name now n base in
      case write_file may name [] d of None \<Rightarrow> (name, None, d) | Some d \<Rightarrow> (name, Some name, d))"

definition file_append :: "byte list \<Rightarrow> byte list \<Rightarrow> disk \<Rightarrow> disk" where
  "file_append path bytes d = d\<lparr>dk_files := (dk_files d)(path \<mapsto> (case dk_files d path of Some old \<Rightarrow> old | None \<Rightarrow> []) @ bytes)\<rparr>"

text \<open>
  \<open>sscanf (args, "%[^','],%d,%d")\<close> must find the three fields, or the code goes on with uninitialised ones; so the name
  is not empty. The size in bytes is an \<open>int\<close>. \<open>skynet_logger_start\<close> is called when the result is 0.
\<close>

definition logger_create :: "(byte list \<Rightarrow> bool) \<Rightarrow> tm \<Rightarrow> byte list \<Rightarrow> disk \<Rightarrow> (int \<times> logger \<times> disk) option" where
  "logger_create may now args d = do {
     (base, r) \<leftarrow> scan_field 64 args;
     r \<leftarrow> scan_comma r;
     (maxsize, r) \<leftarrow> scan_int r;
     r \<leftarrow> scan_comma r;
     (level, r) \<leftarrow> scan_int r;
     if maxsize * 1024 * 1024 \<ge> 2 ^ 31 \<or> maxsize * 1024 * 1024 < - (2 ^ 31) then None
     else do {
       let (name, handle, d) = logger_open_file may now 128 base d;
       let l = \<lparr>lg_size = 0, lg_maxsize = maxsize * 1024 * 1024, lg_level = level, lg_close = (handle \<noteq> None), lg_handle = handle,
                lg_basename = base, lg_filename = name\<rparr>;
       Some (if handle = None then 1 else 0, l, d) } }"

text \<open>The file that \<open>logger_release\<close> closes.\<close>

definition logger_release :: "logger \<Rightarrow> byte list option" where
  "logger_release l = (if lg_close l then lg_handle l else None)"

text \<open>
  The new file, when the old one is full: \<open>fclose\<close> of a null pointer is a fault. When the file cannot be opened the size
  stays, so that the next message closes the null pointer.
\<close>

definition logger_rotate :: "(byte list \<Rightarrow> bool) \<Rightarrow> tm \<Rightarrow> logger \<Rightarrow> disk \<Rightarrow> (logger \<times> disk) option" where
  "logger_rotate may now l d =
     (if lg_size l \<ge> lg_maxsize l then do {
        _ \<leftarrow> lg_handle l;
        let (name, handle, d) = logger_open_file may now 128 (lg_basename l) d;
        let l = l\<lparr>lg_close := False, lg_handle := handle, lg_filename := name\<rparr>;
        Some (if handle \<noteq> None then l\<lparr>lg_size := 0, lg_close := True\<rparr> else l, d) }
      else Some (l, d))"

text \<open>The time and the head that the code prints are empty. The size of the message is added to an \<open>int\<close>.\<close>

definition logger_callback ::
  "(byte list \<Rightarrow> bool) \<Rightarrow> tm \<Rightarrow> skynet_message \<Rightarrow> logger \<Rightarrow> disk \<Rightarrow> (logger \<times> disk) option" where
  "logger_callback may now msg l d =
     (if m_type msg < lg_level l then Some (l, d)
      else do {
        (l, d) \<leftarrow> logger_rotate may now l d;
        case lg_handle l of
          None \<Rightarrow> Some (l, d)
        | Some path \<Rightarrow>
            (case m_data msg of
               Some (Bytes bs) \<Rightarrow>
                 Some (l\<lparr>lg_size := sint (word_of_int (lg_size l + int (m_size msg)) :: u32)\<rparr>,
                       file_append path (cstr (take (m_size msg) bs) @ [10]) d)
             | _ \<Rightarrow> None) })"

section \<open>The lines of the log\<close>

fun logger_run :: "(byte list \<Rightarrow> bool) \<Rightarrow> (tm \<times> skynet_message) list \<Rightarrow> logger \<Rightarrow> disk \<Rightarrow> (logger \<times> disk) option" where
  "logger_run may [] l d = Some (l, d)"
| "logger_run may ((now, m) # ms) l d = do { (l, d) \<leftarrow> logger_callback may now m l d; logger_run may ms l d }"

text \<open>No new file is opened under the name of one that is there.\<close>

fun rotations_fresh :: "(tm \<times> skynet_message) list \<Rightarrow> logger \<Rightarrow> disk \<Rightarrow> bool" where
  "rotations_fresh [] l d = True"
| "rotations_fresh ((now, m) # ms) l d =
     ((m_type m < lg_level l \<or> lg_size l < lg_maxsize l \<or> \<not> access (logger_format_name now 128 (lg_basename l)) d)
      \<and> (case logger_callback (\<lambda>_. True) now m l d of Some (l, d) \<Rightarrow> rotations_fresh ms l d | None \<Rightarrow> True))"

definition log_line :: "skynet_message \<Rightarrow> byte list" where
  "log_line m = (case m_data m of Some (Bytes bs) \<Rightarrow> cstr (take (m_size m) bs) @ [10] | _ \<Rightarrow> [])"

definition is_text :: "skynet_message \<Rightarrow> bool" where
  "is_text m \<longleftrightarrow> (case m_data m of Some (Bytes bs) \<Rightarrow> True | _ \<Rightarrow> False)"

definition texts :: "byte list list \<Rightarrow> disk \<Rightarrow> byte list" where
  "texts names d = concat (map (\<lambda>n. case dk_files d n of Some t \<Rightarrow> t | None \<Rightarrow> []) names)"

text \<open>The files so far, the last of them open.\<close>

definition log_open :: "byte list list \<Rightarrow> logger \<Rightarrow> disk \<Rightarrow> bool" where
  "log_open names l d \<longleftrightarrow> names \<noteq> [] \<and> distinct names \<and> lg_handle l = Some (last names)
     \<and> (\<forall>n \<in> set names. dk_files d n \<noteq> None \<and> n \<notin> set (dk_dirs d))"

lemma texts_append: "texts (ns @ ms) d = texts ns d @ texts ms d"
  by (simp add: texts_def)

lemma texts_cong: "(\<And>n. n \<in> set ns \<Longrightarrow> dk_files d n = dk_files e n) \<Longrightarrow> texts ns d = texts ns e"
  by (simp add: texts_def cong: map_cong)

lemma append_last:
  assumes "log_open names l d"
  shows "texts names (file_append (last names) bs d) = texts names d @ bs"
    and "lg_handle l' = lg_handle l \<Longrightarrow> log_open names l' (file_append (last names) bs d)"
proof -
  have n: "names = butlast names @ [last names]" using assms by (simp add: log_open_def)
  moreover have "distinct names" using assms by (simp add: log_open_def)
  ultimately have nd: "last names \<notin> set (butlast names)" by (metis distinct_append disjoint_insert(1) list.simps(15))
  have "texts (butlast names) (file_append (last names) bs d) = texts (butlast names) d"
    by (rule texts_cong) (use nd in \<open>auto simp: file_append_def\<close>)
  then have "texts (butlast names @ [last names]) (file_append (last names) bs d) = texts (butlast names @ [last names]) d @ bs"
    unfolding texts_append by (simp add: texts_def file_append_def)
  with n show "texts names (file_append (last names) bs d) = texts names d @ bs" by simp
  show "log_open names l' (file_append (last names) bs d)" if "lg_handle l' = lg_handle l"
    using assms that by (auto simp: log_open_def file_append_def)
qed

lemma rotate_keeps:
  assumes o: "log_open names l d" and f: "lg_size l < lg_maxsize l \<or> \<not> access (logger_format_name now 128 (lg_basename l)) d"
  obtains l' d' more_names where "logger_rotate (\<lambda>_. True) now l d = Some (l', d')" "log_open (names @ more_names) l' d'"
    "texts (names @ more_names) d' = texts names d" "lg_level l' = lg_level l"
proof (cases "lg_size l \<ge> lg_maxsize l")
  case True
  let ?n = "logger_format_name now 128 (lg_basename l)" and ?d = "d\<lparr>dk_files := (dk_files d)(logger_format_name now 128 (lg_basename l) \<mapsto> [])\<rparr>"
  let ?l = "l\<lparr>lg_close := True, lg_handle := Some ?n, lg_filename := ?n, lg_size := 0\<rparr>"
  from True f have new: "?n \<notin> set (dk_dirs d)" "dk_files d ?n = None" by (auto simp: access_def)
  with o have notin: "?n \<notin> set names" by (auto simp: log_open_def)
  have "logger_rotate (\<lambda>_. True) now l d = Some (?l, ?d)"
    using True o new by (simp add: logger_rotate_def logger_open_file_def write_file_def log_open_def Let_def)
  moreover have "log_open (names @ [?n]) ?l ?d" using o new notin by (simp add: log_open_def)
  moreover have "texts (names @ [?n]) ?d = texts names d"
  proof -
    have "texts names ?d = texts names d" by (rule texts_cong) (use notin in auto)
    then show ?thesis unfolding texts_append by (simp add: texts_def [of "[_]"])
  qed
  ultimately show thesis using that [of ?l ?d "[?n]"] by simp
next
  case False
  with that [of l d "[]"] o show thesis by (simp add: logger_rotate_def)
qed

lemma logger_run_keeps:
  "log_open names l d \<Longrightarrow> rotations_fresh ms l d \<Longrightarrow> list_all (\<lambda>(_, m). is_text m) ms \<Longrightarrow>
   \<exists>l' d' more_names. logger_run (\<lambda>_. True) ms l d = Some (l', d') \<and> log_open (names @ more_names) l' d'
     \<and> texts (names @ more_names) d' = texts names d @ concat (map (log_line \<circ> snd) (filter (\<lambda>(_, m). m_type m \<ge> lg_level l) ms))"
proof (induction ms arbitrary: names l d)
  case (Cons tm_m ms)
  obtain now m where tm: "tm_m = (now, m)" by (cases tm_m)
  show ?case
  proof (cases "m_type m < lg_level l")
    case True
    with Cons tm have "logger_callback (\<lambda>_. True) now m l d = Some (l, d)" by (simp add: logger_callback_def)
    with Cons True tm show ?thesis by simp
  next
    case False
    from Cons.prems(2) tm False have "lg_size l < lg_maxsize l \<or> \<not> access (logger_format_name now 128 (lg_basename l)) d" by simp
    from rotate_keeps [OF Cons.prems(1) this] obtain l1 d1 ns where r: "logger_rotate (\<lambda>_. True) now l d = Some (l1, d1)"
      "log_open (names @ ns) l1 d1" "texts (names @ ns) d1 = texts names d" "lg_level l1 = lg_level l" by blast
    from Cons.prems(3) tm obtain bs where bs: "m_data m = Some (Bytes bs)" by (auto simp: is_text_def split: option.splits payload.splits)
    let ?l = "l1\<lparr>lg_size := sint (word_of_int (lg_size l1 + int (m_size m)) :: u32)\<rparr>"
    let ?d = "file_append (last (names @ ns)) (log_line m) d1"
    have "lg_handle l1 = Some (last (names @ ns))" using r(2) by (simp add: log_open_def)
    then have c: "logger_callback (\<lambda>_. True) now m l d = Some (?l, ?d)"
      using False r(1) bs by (simp add: logger_callback_def log_line_def)
    have o: "log_open (names @ ns) ?l ?d" by (rule append_last(2) [OF r(2)]) simp
    have fresh: "rotations_fresh ms ?l ?d" using Cons.prems(2) tm c by simp
    have "list_all (\<lambda>(_, m). is_text m) ms" using Cons.prems(3) by simp
    from Cons.IH [OF o fresh this] obtain l' d' ms' where
      "logger_run (\<lambda>_. True) ms ?l ?d = Some (l', d')" "log_open ((names @ ns) @ ms') l' d'"
      "texts ((names @ ns) @ ms') d' = texts (names @ ns) ?d @ concat (map (log_line \<circ> snd) (filter (\<lambda>(_, m). m_type m \<ge> lg_level ?l) ms))"
      by blast
    with c tm r(3,4) append_last(1) [OF r(2), of "log_line m"] False show ?thesis
      by (intro exI [of _ l'] exI [of _ d'] exI [of _ "ns @ ms'"]) (simp add: comp_def)
  qed
next
  case Nil
  then show ?case by (intro exI [of _ l] exI [of _ d] exI [of _ "[]"]) simp
qed

section \<open>Properties\<close>


text \<open>A log of one megabyte per file and two messages, the first of them below the level.\<close>

definition noon :: tm where
  "noon = \<lparr>tm_year = 2024, tm_mon = 5, tm_mday = 6, tm_hour = 12, tm_min = 0, tm_sec = 7\<rparr>"

definition text_message :: "int \<Rightarrow> byte list \<Rightarrow> skynet_message" where
  "text_message level bs = \<lparr>m_type = level, m_data = Some (Bytes bs), m_size = length bs, m_source = 0, m_session = 0\<rparr>"


end
