(* ===== verification/Malloc.thy ===== *)
theory Malloc
  imports Prelude
begin

text \<open>
  The memory check (\<open>skynet_malloc.c\<close> with \<open>MEMORY_CHECK\<close>): every block that is allocated is recorded in a hash table of
  chains until it is freed. A chain is the list of its nodes, each node being in one chain only. The answers of the
  system's \<open>malloc\<close> and \<open>realloc\<close> are arguments; 0 is the null pointer. A failed assertion and the end of a chain that is
  not expected are \<open>None\<close>. Without \<open>MEMORY_CHECK\<close> the table does not exist and the functions only allocate.
\<close>

section \<open>The table\<close>

type_synonym pointer = "64 word"

record memory_node =
  mn_ptr :: pointer
  mn_size :: nat
  mn_file :: "byte list"
  mn_line :: int
  mn_timestamp :: nat

record memory_hash =
  hm_cap :: int
  hm_node :: "memory_node list list"

definition skynet_malloc_init :: memory_hash where
  "skynet_malloc_init = \<lparr>hm_cap = 1023, hm_node = replicate 1023 []\<rparr>"

text \<open>\<open>(unsigned int)ptr % hm->cap\<close>.\<close>

definition bucket :: "memory_hash \<Rightarrow> pointer \<Rightarrow> nat" where
  "bucket hm ptr = unat (ucast ptr :: u32) mod nat (hm_cap hm)"

definition skynet_malloc_insert :: "pointer \<Rightarrow> nat \<Rightarrow> byte list \<Rightarrow> int \<Rightarrow> memory_hash \<Rightarrow> memory_hash" where
  "skynet_malloc_insert ptr sz file line hm =
     (let n = \<lparr>mn_ptr = ptr, mn_size = sz, mn_file = file, mn_line = line, mn_timestamp = 0\<rparr>; i = bucket hm ptr in
      hm\<lparr>hm_node := (hm_node hm)[i := hm_node hm ! i @ [n]]\<rparr>)"

text \<open>The chain without the first node of a pointer.\<close>

fun unchain :: "pointer \<Rightarrow> memory_node list \<Rightarrow> memory_node list option" where
  "unchain ptr [] = None"
| "unchain ptr (n # ns) = (if mn_ptr n = ptr then Some ns else map_option ((#) n) (unchain ptr ns))"

definition skynet_malloc_remove :: "pointer \<Rightarrow> memory_hash \<Rightarrow> memory_hash option" where
  "skynet_malloc_remove ptr hm =
     (if ptr = 0 then Some hm
      else let i = bucket hm ptr in
        map_option (\<lambda>ns. hm\<lparr>hm_node := (hm_node hm)[i := ns]\<rparr>) (unchain ptr (hm_node hm ! i)))"

text \<open>The nodes that are printed: the loop over a chain ends at a null pointer.\<close>

definition skynet_malloc_print :: "memory_hash \<Rightarrow> memory_node list" where
  "skynet_malloc_print hm = concat (map (takeWhile (\<lambda>n. mn_ptr n \<noteq> 0)) (hm_node hm))"

text \<open>The nodes that \<open>skynet_malloc_free\<close> releases, in order, with the table behind them; there is no table afterwards.\<close>

definition skynet_malloc_free :: "memory_hash \<Rightarrow> memory_node list" where
  "skynet_malloc_free hm = concat (map (takeWhile (\<lambda>n. mn_ptr n \<noteq> 0)) (hm_node hm))"

section \<open>Allocation\<close>

definition skynet_malloc :: "pointer \<Rightarrow> nat \<Rightarrow> byte list \<Rightarrow> int \<Rightarrow> memory_hash \<Rightarrow> memory_hash" where
  "skynet_malloc ptr sz file line hm = skynet_malloc_insert ptr sz file line hm"

definition skynet_realloc :: "pointer \<Rightarrow> pointer \<Rightarrow> nat \<Rightarrow> byte list \<Rightarrow> int \<Rightarrow> memory_hash \<Rightarrow> memory_hash option" where
  "skynet_realloc newptr ptr sz file line hm = do {
     hm \<leftarrow> skynet_malloc_remove ptr hm;
     Some (skynet_malloc_insert newptr sz file line hm) }"

definition skynet_free :: "pointer \<Rightarrow> memory_hash \<Rightarrow> (memory_node list \<times> memory_hash) option" where
  "skynet_free ptr hm = do {
     hm \<leftarrow> (if ptr \<noteq> 0 then skynet_malloc_remove ptr hm else Some hm);
     Some (skynet_malloc_print hm, hm) }"

section \<open>The blocks in use\<close>

text \<open>An allocation with the answer of the system, and what is in use after it: the sizes by the pointers.\<close>

datatype mem_op = Malloc pointer nat | Realloc pointer pointer nat | Free pointer

fun mem_step :: "byte list \<Rightarrow> int \<Rightarrow> mem_op \<Rightarrow> memory_hash \<Rightarrow> memory_hash option" where
  "mem_step file line (Malloc p sz) hm = Some (skynet_malloc p sz file line hm)"
| "mem_step file line (Realloc p q sz) hm = skynet_realloc p q sz file line hm"
| "mem_step file line (Free q) hm = map_option snd (skynet_free q hm)"

fun in_use :: "mem_op \<Rightarrow> (pointer \<Rightarrow> nat option) \<Rightarrow> pointer \<Rightarrow> nat option" where
  "in_use (Malloc p sz) u = u(p \<mapsto> sz)"
| "in_use (Realloc p q sz) u = (u(q := None))(p \<mapsto> sz)"
| "in_use (Free q) u = u(q := None)"

text \<open>The system gives no block that is in use, and the program frees none that is not.\<close>

fun mem_allowed :: "mem_op \<Rightarrow> (pointer \<Rightarrow> nat option) \<Rightarrow> bool" where
  "mem_allowed (Malloc p sz) u \<longleftrightarrow> p \<noteq> 0 \<and> u p = None"
| "mem_allowed (Realloc p q sz) u \<longleftrightarrow> p \<noteq> 0 \<and> (q = 0 \<or> u q \<noteq> None) \<and> (p = q \<or> u p = None)"
| "mem_allowed (Free q) u \<longleftrightarrow> q = 0 \<or> u q \<noteq> None"

fun mem_run :: "(byte list \<times> int \<times> mem_op) list \<Rightarrow> memory_hash \<Rightarrow> memory_hash option" where
  "mem_run [] hm = Some hm"
| "mem_run ((file, line, c) # ops) hm = do { hm \<leftarrow> mem_step file line c hm; mem_run ops hm }"

fun use_run :: "(byte list \<times> int \<times> mem_op) list \<Rightarrow> (pointer \<Rightarrow> nat option) \<Rightarrow> pointer \<Rightarrow> nat option" where
  "use_run [] u = u"
| "use_run ((_, _, c) # ops) u = use_run ops (in_use c u)"

fun ops_allowed :: "(byte list \<times> int \<times> mem_op) list \<Rightarrow> (pointer \<Rightarrow> nat option) \<Rightarrow> bool" where
  "ops_allowed [] u = True"
| "ops_allowed ((_, _, c) # ops) u \<longleftrightarrow> mem_allowed c u \<and> ops_allowed ops (in_use c u)"

text \<open>The chains hold the blocks in use, each in its chain and once.\<close>

definition table_holds :: "(pointer \<Rightarrow> nat option) \<Rightarrow> memory_hash \<Rightarrow> bool" where
  "table_holds u hm \<longleftrightarrow> 0 < hm_cap hm \<and> length (hm_node hm) = nat (hm_cap hm) \<and> u 0 = None
     \<and> (\<forall>i < length (hm_node hm). distinct (map mn_ptr (hm_node hm ! i))
          \<and> (\<forall>p sz. (\<exists>n \<in> set (hm_node hm ! i). mn_ptr n = p \<and> mn_size n = sz) \<longleftrightarrow> u p = Some sz \<and> bucket hm p = i))"

lemma table_holdsD:
  assumes "table_holds u hm"
  shows "bucket hm p < length (hm_node hm)" "u 0 = None"
    "i < length (hm_node hm) \<Longrightarrow> distinct (map mn_ptr (hm_node hm ! i))"
    "i < length (hm_node hm) \<Longrightarrow> n \<in> set (hm_node hm ! i) \<Longrightarrow> u (mn_ptr n) = Some (mn_size n) \<and> bucket hm (mn_ptr n) = i"
    "u p = Some sz \<Longrightarrow> \<exists>n \<in> set (hm_node hm ! bucket hm p). mn_ptr n = p \<and> mn_size n = sz"
proof -
  show b: "bucket hm p < length (hm_node hm)" for p using assms by (simp add: table_holds_def bucket_def)
  show "u p = Some sz \<Longrightarrow> \<exists>n \<in> set (hm_node hm ! bucket hm p). mn_ptr n = p \<and> mn_size n = sz"
    using assms b unfolding table_holds_def by blast
  show "i < length (hm_node hm) \<Longrightarrow> n \<in> set (hm_node hm ! i) \<Longrightarrow> u (mn_ptr n) = Some (mn_size n) \<and> bucket hm (mn_ptr n) = i"
    using assms unfolding table_holds_def by blast
qed (use assms in \<open>auto simp: table_holds_def\<close>)

lemma table_change:
  assumes "table_holds u hm" "distinct (map mn_ptr ns)" "u' 0 = None"
    and own: "\<And>q sz. (\<exists>n \<in> set ns. mn_ptr n = q \<and> mn_size n = sz) \<longleftrightarrow> u' q = Some sz \<and> bucket hm q = bucket hm p"
    and others: "\<And>q. bucket hm q \<noteq> bucket hm p \<Longrightarrow> u' q = u q"
  shows "table_holds u' (hm\<lparr>hm_node := (hm_node hm)[bucket hm p := ns]\<rparr>)"
proof -
  let ?hm = "hm\<lparr>hm_node := (hm_node hm)[bucket hm p := ns]\<rparr>"
  have b: "bucket ?hm q = bucket hm q" for q by (simp add: bucket_def)
  have "distinct (map mn_ptr (hm_node ?hm ! i))
      \<and> (\<forall>q sz. (\<exists>n \<in> set (hm_node ?hm ! i). mn_ptr n = q \<and> mn_size n = sz) \<longleftrightarrow> u' q = Some sz \<and> bucket hm q = i)"
    if "i < length (hm_node hm)" for i
  proof (cases "i = bucket hm p")
    case True
    with assms(2) own that show ?thesis by simp
  next
    case False
    with others have "u' q = Some sz \<and> bucket hm q = i \<longleftrightarrow> u q = Some sz \<and> bucket hm q = i" for q sz by auto
    with assms(1) that False show ?thesis by (simp add: table_holds_def)
  qed
  with assms(1,3) b show ?thesis by (simp add: table_holds_def)
qed

lemma chain_iff:
  assumes "table_holds u hm"
  shows "(\<exists>n \<in> set (hm_node hm ! bucket hm p). mn_ptr n = q \<and> mn_size n = s) \<longleftrightarrow> u q = Some s \<and> bucket hm q = bucket hm p"
  using assms table_holdsD(1) [OF assms, of p] unfolding table_holds_def by blast

lemma insert_holds:
  assumes t: "table_holds u hm" and p: "p \<noteq> 0" "u p = None"
  shows "table_holds (u(p \<mapsto> sz)) (skynet_malloc_insert p sz file line hm)"
  unfolding skynet_malloc_insert_def Let_def
proof (rule table_change [OF t])
  note D = table_holdsD [OF t]
  have "u (mn_ptr n) \<noteq> None" if "n \<in> set (hm_node hm ! bucket hm p)" for n using D(4) [OF D(1) that] by simp
  with p(2) have "p \<notin> mn_ptr ` set (hm_node hm ! bucket hm p)" by (metis image_iff)
  with D(3) [OF D(1) [of p]] show "distinct (map mn_ptr (hm_node hm ! bucket hm p
      @ [\<lparr>mn_ptr = p, mn_size = sz, mn_file = file, mn_line = line, mn_timestamp = 0\<rparr>]))" by simp
  show "(\<exists>n \<in> set (hm_node hm ! bucket hm p @ [\<lparr>mn_ptr = p, mn_size = sz, mn_file = file, mn_line = line, mn_timestamp = 0\<rparr>]).
      mn_ptr n = q \<and> mn_size n = s) \<longleftrightarrow> (u(p \<mapsto> sz)) q = Some s \<and> bucket hm q = bucket hm p" for q s
  proof -
    have "(\<exists>n \<in> set (hm_node hm ! bucket hm p @ [\<lparr>mn_ptr = p, mn_size = sz, mn_file = file, mn_line = line, mn_timestamp = 0\<rparr>]).
        mn_ptr n = q \<and> mn_size n = s)
      \<longleftrightarrow> (\<exists>n \<in> set (hm_node hm ! bucket hm p). mn_ptr n = q \<and> mn_size n = s) \<or> p = q \<and> sz = s" by auto
    then show ?thesis unfolding chain_iff [OF t] using p(2) by auto
  qed
qed (use table_holdsD(2) [OF t] p in auto)

lemma unchain_found: "distinct (map mn_ptr ns) \<Longrightarrow> p \<in> mn_ptr ` set ns \<Longrightarrow> unchain p ns = Some (filter (\<lambda>n. mn_ptr n \<noteq> p) ns)"
proof (induction ns)
  case (Cons n ns)
  show ?case
  proof (cases "mn_ptr n = p")
    case True
    with Cons.prems(1) have "filter (\<lambda>n. mn_ptr n \<noteq> p) ns = ns" by (metis (mono_tags) distinct.simps(2) filter_True image_eqI image_set list.simps(9))
    with True show ?thesis by simp
  qed (use Cons in auto)
qed simp

lemma remove_holds:
  assumes t: "table_holds u hm" and p: "p = 0 \<or> u p \<noteq> None"
  obtains hm' where "skynet_malloc_remove p hm = Some hm'" "table_holds (u(p := None)) hm'" "hm_cap hm' = hm_cap hm"
proof (cases "p = 0")
  case True
  with t table_holdsD(2) [OF t] have "u(p := None) = u" by auto
  with True t that show thesis by (simp add: skynet_malloc_remove_def)
next
  case False
  note D = table_holdsD [OF t]
  from False p obtain sz where "u p = Some sz" by auto
  with D(5) have "p \<in> mn_ptr ` set (hm_node hm ! bucket hm p)" by force
  note f = unchain_found [OF D(3) [OF D(1)] this]
  have "table_holds (u(p := None)) (hm\<lparr>hm_node := (hm_node hm)[bucket hm p := filter (\<lambda>n. mn_ptr n \<noteq> p) (hm_node hm ! bucket hm p)]\<rparr>)"
  proof (rule table_change [OF t])
    show "distinct (map mn_ptr (filter (\<lambda>n. mn_ptr n \<noteq> p) (hm_node hm ! bucket hm p)))" by (rule distinct_map_filter [OF D(3) [OF D(1)]])
    show "(\<exists>n \<in> set (filter (\<lambda>n. mn_ptr n \<noteq> p) (hm_node hm ! bucket hm p)). mn_ptr n = q \<and> mn_size n = s)
        \<longleftrightarrow> (u(p := None)) q = Some s \<and> bucket hm q = bucket hm p" for q s
    proof -
      have "(\<exists>n \<in> set (filter (\<lambda>n. mn_ptr n \<noteq> p) (hm_node hm ! bucket hm p)). mn_ptr n = q \<and> mn_size n = s)
        \<longleftrightarrow> q \<noteq> p \<and> (\<exists>n \<in> set (hm_node hm ! bucket hm p). mn_ptr n = q \<and> mn_size n = s)" by auto
      then show ?thesis unfolding chain_iff [OF t] by auto
    qed
  qed (use D(2) in auto)
  with f False that show thesis by (simp add: skynet_malloc_remove_def Let_def)
qed

lemma step_holds:
  assumes t: "table_holds u hm" and ok: "mem_allowed c u"
  obtains hm' where "mem_step file line c hm = Some hm'" "table_holds (in_use c u) hm'"
proof (cases c)
  case (Malloc p sz)
  with ok insert_holds [OF t, of p sz "file" "line"] that show thesis by (simp add: skynet_malloc_def)
next
  case (Realloc p q sz)
  with ok have q: "q = 0 \<or> u q \<noteq> None" by simp
  obtain hm' where "skynet_malloc_remove q hm = Some hm'" "table_holds (u(q := None)) hm'" by (rule remove_holds [OF t q])
  with Realloc ok insert_holds [of "u(q := None)" hm' p sz "file" "line"] that show thesis by (auto simp: skynet_realloc_def)
next
  case (Free q)
  with ok have q: "q = 0 \<or> u q \<noteq> None" by simp
  obtain hm' where r: "skynet_malloc_remove q hm = Some hm'" "table_holds (u(q := None)) hm'" by (rule remove_holds [OF t q])
  then have "map_option snd (skynet_free q hm) = Some hm'" by (auto simp: skynet_free_def skynet_malloc_remove_def)
  with r(2) Free that show thesis by simp
qed

lemma distinct_concat_nth:
  "(\<And>i. i < length xss \<Longrightarrow> distinct (xss ! i)) \<Longrightarrow>
   (\<And>i j. i < j \<Longrightarrow> j < length xss \<Longrightarrow> set (xss ! i) \<inter> set (xss ! j) = {}) \<Longrightarrow> distinct (concat xss)"
proof (induction xss)
  case (Cons xs xss)
  have "distinct (concat xss)"
    by (rule Cons.IH) (use Cons.prems(1) [of "Suc _"] Cons.prems(2) [of "Suc _" "Suc _"] in auto)
  moreover have "set xs \<inter> set ys = {}" if "ys \<in> set xss" for ys
    using that Cons.prems(2) [of 0 "Suc _"] by (fastforce simp: in_set_conv_nth)
  ultimately show ?case using Cons.prems(1) [of 0] by auto
qed simp

lemma run_holds: "table_holds u hm \<Longrightarrow> ops_allowed ops u \<Longrightarrow> \<exists>hm'. mem_run ops hm = Some hm' \<and> table_holds (use_run ops u) hm'"
proof (induction ops arbitrary: u hm)
  case (Cons o_p ops)
  obtain fl ln c where o: "o_p = (fl, ln, c)" by (cases o_p)
  with Cons.prems(2) have c: "mem_allowed c u" "ops_allowed ops (in_use c u)" by simp_all
  obtain hm1 where "mem_step fl ln c hm = Some hm1" "table_holds (in_use c u) hm1" by (rule step_holds [OF Cons.prems(1) c(1)])
  with Cons.IH [of "in_use c u" hm1] c(2) o show ?case by auto
qed auto

section \<open>Properties\<close>

text \<open>C21: The memory check lists exactly what is in use: after any sequence of allocations, reallocations and frees in which
  the system gives blocks that are not in use and the program frees blocks that are, no step fails and the nodes that are
  printed are the blocks in use with their sizes, each once.\<close>

theorem print_lists_in_use:
  assumes "ops_allowed ops (\<lambda>_. None)"
  shows "\<exists>hm. mem_run ops skynet_malloc_init = Some hm \<and> distinct (map mn_ptr (skynet_malloc_print hm))
    \<and> {(mn_ptr n, mn_size n) | n. n \<in> set (skynet_malloc_print hm)} = {(p, sz). use_run ops (\<lambda>_. None) p = Some sz}"
proof -
  let ?u = "use_run ops (\<lambda>_. None)"
  have "table_holds (\<lambda>_. None) skynet_malloc_init" by (simp add: table_holds_def skynet_malloc_init_def)
  from run_holds [OF this assms] obtain hm where r: "mem_run ops skynet_malloc_init = Some hm" and t: "table_holds ?u hm" by blast
  note D = table_holdsD [OF t]
  have "takeWhile (\<lambda>n. mn_ptr n \<noteq> 0) ns = ns" if "ns \<in> set (hm_node hm)" for ns
    using that D(2,4) by (force simp: in_set_conv_nth takeWhile_eq_all_conv)
  then have "map (takeWhile (\<lambda>n. mn_ptr n \<noteq> 0)) (hm_node hm) = hm_node hm" by (rule map_idI)
  then have p: "skynet_malloc_print hm = concat (hm_node hm)" by (simp add: skynet_malloc_print_def)
  have "distinct (map mn_ptr (concat (hm_node hm)))"
  proof (unfold map_concat, rule distinct_concat_nth)
    show "set (map (map mn_ptr) (hm_node hm) ! i) \<inter> set (map (map mn_ptr) (hm_node hm) ! j) = {}"
      if "i < j" "j < length (map (map mn_ptr) (hm_node hm))" for i j
    proof -
      have "bucket hm (mn_ptr n) = k" if "n \<in> set (hm_node hm ! k)" "k < length (hm_node hm)" for n k using D(4) that by blast
      with that have "mn_ptr n \<noteq> mn_ptr m" if "n \<in> set (hm_node hm ! i)" "m \<in> set (hm_node hm ! j)" for n m
        using that by (metis length_map less_imp_neq less_trans)
      with that show ?thesis by auto
    qed
  qed (use D(3) in simp)
  moreover have "{(mn_ptr n, mn_size n) | n. n \<in> set (concat (hm_node hm))} = {(p, sz). ?u p = Some sz}"
  proof -
    have "\<exists>ns \<in> set (hm_node hm). \<exists>n \<in> set ns. q = mn_ptr n \<and> s = mn_size n" if "?u q = Some s" for q s
      using D(5) [OF that] D(1) [of q] nth_mem by blast
    then show ?thesis using D(4) by (fastforce simp: in_set_conv_nth)
  qed
  ultimately show ?thesis using r p by auto
qed

lemma print_lists_in_use_witness:
  "\<exists>hm. mem_run [([109], 1, Malloc 4096 8), ([109], 2, Malloc 8192 16), ([109], 3, Realloc 5119 4096 32), ([109], 4, Free 8192)]
      skynet_malloc_init = Some hm
    \<and> distinct (map mn_ptr (skynet_malloc_print hm))
    \<and> {(mn_ptr n, mn_size n) | n. n \<in> set (skynet_malloc_print hm)} = {(5119, 32)}"
proof -
  let ?ops = "[([109], 1, Malloc 4096 8), ([109], 2, Malloc 8192 16), ([109], 3, Realloc 5119 4096 32), ([109], 4, Free 8192)]
    :: (byte list \<times> int \<times> mem_op) list"
  have "\<exists>hm. mem_run ?ops skynet_malloc_init = Some hm \<and> distinct (map mn_ptr (skynet_malloc_print hm))
    \<and> {(mn_ptr n, mn_size n) | n. n \<in> set (skynet_malloc_print hm)} = {(p, sz). use_run ?ops (\<lambda>_. None) p = Some sz}"
    by (rule print_lists_in_use) simp
  moreover have "{(p, sz). use_run ?ops (\<lambda>_. None) p = Some sz} = {(5119, 32)}" by (auto split: if_splits)
  ultimately show ?thesis by simp
qed

end
