(* ===== verification/Locks.thy ===== *)
theory Locks
  imports Prelude
begin

text \<open>
  The locks under the operations of all other theories (\<open>skynet_spinlock.h\<close>, \<open>skynet_rwlock.h\<close> and the
  macros of \<open>skynet_atomic.h\<close>), step by step: one step is one atomic access of memory, threads interleave in
  any order, and memory is sequentially consistent. A thread is the point of the function that it is at. The
  lock words are C's 32-bit \<open>int\<close>s. What the other theories assume of a locked section, that it is one step, is
  the exclusion proved here. The variants with a mutex of the system only call it.
\<close>

section \<open>Threads\<close>

text \<open>How many threads are at a point of a kind, when one of them moves.\<close>

definition count_at :: "('p \<Rightarrow> bool) \<Rightarrow> 'p list \<Rightarrow> nat" where
  "count_at P ps = length (filter P ps)"

lemma count_move:
  assumes "t < length ps"
  shows "count_at P (ps[t := p]) + of_bool (P (ps ! t)) = count_at P ps + of_bool (P p)"
  using assms
proof (induction ps arbitrary: t)
  case (Cons q ps)
  then show ?case by (cases t) (auto simp: count_at_def)
qed simp

lemma count_pos: "t < length ps \<Longrightarrow> P (ps ! t) \<Longrightarrow> 0 < count_at P ps"
  using nth_mem [of t ps] by (auto simp: count_at_def filter_empty_conv)

lemma count_two: "t < length ps \<Longrightarrow> u < length ps \<Longrightarrow> t \<noteq> u \<Longrightarrow> P (ps ! t) \<Longrightarrow> P (ps ! u) \<Longrightarrow> 2 \<le> count_at P ps"
proof (induction ps arbitrary: t u)
  case (Cons q ps)
  show ?case
  proof (cases t)
    case 0
    with Cons.prems obtain v where "u = Suc v" by (cases u) auto
    with Cons.prems 0 count_pos [of v ps P] show ?thesis by (simp add: count_at_def Suc_le_eq)
  next
    case (Suc s)
    show ?thesis
    proof (cases u)
      case 0
      with Cons.prems Suc count_pos [of s ps P] show ?thesis by (simp add: count_at_def Suc_le_eq)
    next
      case (Suc v)
      with Cons \<open>t = Suc s\<close> have "2 \<le> count_at P ps" by (simp add: Cons.IH [of s v])
      then show ?thesis by (auto simp: count_at_def)
    qed
  qed
qed simp

lemma count_le: "count_at P ps \<le> length ps" by (simp add: count_at_def)

lemma count_0: "count_at P ps = 0 \<longleftrightarrow> (\<forall>t < length ps. \<not> P (ps ! t))"
  unfolding count_at_def length_0_conv filter_empty_conv all_set_conv_all_nth ..

section \<open>The spin lock\<close>

text \<open>The points of \<open>spinlock_lock\<close> (the exchange, the load of the waiting loop) and of
  \<open>spinlock_trylock\<close> (the load, the exchange).\<close>

datatype spin_pc = Outside | Exchange | Wait | Try_load | Try_exchange | Inside

definition atomic_exchange :: "u32 \<Rightarrow> u32 \<Rightarrow> u32 \<times> u32" where
  "atomic_exchange m v = (m, v)"

definition spinlock_init :: u32 where "spinlock_init = 0"

fun spinlock_lock :: "u32 \<Rightarrow> spin_pc \<Rightarrow> u32 \<times> spin_pc" where
  "spinlock_lock lk Exchange = (let (old, lk) = atomic_exchange lk 1 in (lk, if old = 0 then Inside else Wait))"
| "spinlock_lock lk Wait = (lk, if lk \<noteq> 0 then Wait else Exchange)"
| "spinlock_lock lk p = (lk, p)"

fun spinlock_trylock :: "u32 \<Rightarrow> spin_pc \<Rightarrow> u32 \<times> spin_pc" where
  "spinlock_trylock lk Try_load = (lk, if lk = 0 then Try_exchange else Outside)"
| "spinlock_trylock lk Try_exchange = (let (old, lk) = atomic_exchange lk 1 in (lk, if old = 0 then Inside else Outside))"
| "spinlock_trylock lk p = (lk, p)"

definition spinlock_unlock :: "u32 \<Rightarrow> u32" where "spinlock_unlock lk = 0"

definition spin_go :: "u32 \<Rightarrow> spin_pc \<Rightarrow> u32 \<times> spin_pc" where
  "spin_go lk p = (if p = Try_load \<or> p = Try_exchange then spinlock_trylock lk p else spinlock_lock lk p)"

text \<open>A state is the word of the lock and the threads.\<close>

inductive spin_step :: "u32 \<times> spin_pc list \<Rightarrow> u32 \<times> spin_pc list \<Rightarrow> bool" where
  lock: "t < length ps \<Longrightarrow> ps ! t = Outside \<Longrightarrow> spin_step (lk, ps) (lk, ps[t := Exchange])"
| trylock: "t < length ps \<Longrightarrow> ps ! t = Outside \<Longrightarrow> spin_step (lk, ps) (lk, ps[t := Try_load])"
| go: "t < length ps \<Longrightarrow> spin_go lk (ps ! t) = (lk', p) \<Longrightarrow> spin_step (lk, ps) (lk', ps[t := p])"
| unlock: "t < length ps \<Longrightarrow> ps ! t = Inside \<Longrightarrow> spin_step (lk, ps) (spinlock_unlock lk, ps[t := Outside])"

inductive_cases spin_stepE: "spin_step s s'"

text \<open>The word of the lock is the number of threads inside, which is at most one.\<close>

definition spin_ok :: "u32 \<times> spin_pc list \<Rightarrow> bool" where
  "spin_ok = (\<lambda>(lk, ps). lk = of_nat (count_at ((=) Inside) ps) \<and> count_at ((=) Inside) ps \<le> 1)"

lemma spin_ok_step:
  assumes "spin_step s s'" "spin_ok s"
  shows "spin_ok s'"
  using assms
proof cases
  case (go t ps lk lk' p)
  define c where "c = count_at ((=) Inside) ps"
  from go assms(2) have lk: "lk = of_nat c" "c \<le> 1" by (simp_all add: spin_ok_def c_def)
  note m = count_move [OF go(3), of "(=) Inside" p, folded c_def]
  from lk consider "c = 0" "lk = 0" | "c = 1" "lk = 1" by (cases c) auto
  then show ?thesis
  proof cases
    case 1
    then show ?thesis using go(2,4) m
      by (cases "ps ! t") (simp_all add: spin_ok_def spin_go_def atomic_exchange_def)
  next
    case 2
    then show ?thesis using go(2,4) m
      by (cases "ps ! t") (simp_all add: spin_ok_def spin_go_def atomic_exchange_def split: if_splits)
  qed
next
  case (unlock t ps lk)
  with assms(2) count_move [OF unlock(3), of "(=) Inside" Outside] have "count_at ((=) Inside) (ps[t := Outside]) = 0"
    by (simp add: spin_ok_def)
  with unlock(2) show ?thesis by (simp add: spin_ok_def spinlock_unlock_def)
next
  case (lock t ps lk)
  with assms(2) count_move [OF lock(3), of "(=) Inside" Exchange] show ?thesis by (auto simp: spin_ok_def)
next
  case (trylock t ps lk)
  with assms(2) count_move [OF trylock(3), of "(=) Inside" Try_load] show ?thesis by (auto simp: spin_ok_def)
qed

lemma count_start: "\<not> P p \<Longrightarrow> count_at P (replicate n p) = 0"
  by (simp add: count_at_def)

lemma spin_reachable:
  assumes "spin_step\<^sup>*\<^sup>* (spinlock_init, replicate n Outside) s"
  shows "spin_ok s"
  using assms
proof (induction rule: rtranclp_induct)
  case base
  show ?case by (simp add: spin_ok_def spinlock_init_def count_start)
qed (rule spin_ok_step)

text \<open>The threads of a list take their next steps, in its order.\<close>

fun spin_run :: "nat list \<Rightarrow> u32 \<times> spin_pc list \<Rightarrow> u32 \<times> spin_pc list" where
  "spin_run [] s = s"
| "spin_run (t # ts) (lk, ps) = (let (lk', p) = spin_go lk (ps ! t) in spin_run ts (lk', ps[t := p]))"

lemma spin_go_stays: "spin_go lk Inside = (lk, Inside)"
  by (simp add: spin_go_def)

lemma spin_run_inside:
  "u < length ps \<Longrightarrow> ps ! u = Inside \<Longrightarrow> u < length (snd (spin_run ts (lk, ps))) \<and> snd (spin_run ts (lk, ps)) ! u = Inside"
proof (induction ts arbitrary: lk ps)
  case (Cons v ts)
  obtain lk' q where go: "spin_go lk (ps ! v) = (lk', q)" by (cases "spin_go lk (ps ! v)")
  have "ps[v := q] ! u = Inside" using Cons.prems go by (cases "u = v") (auto simp: spin_go_stays)
  with Cons go show ?case by simp
qed simp

lemma spin_run_enters:
  "t < length ps \<Longrightarrow> ps ! t = Exchange \<and> 1 \<le> count_list ts t \<or> ps ! t = Wait \<and> 2 \<le> count_list ts t \<Longrightarrow>
   set ts \<subseteq> {..<length ps} \<Longrightarrow> \<exists>u < length (snd (spin_run ts (0, ps))). snd (spin_run ts (0, ps)) ! u = Inside"
proof (induction ts arbitrary: ps)
  case (Cons v ts)
  have v: "v < length ps" using Cons.prems(3) by simp
  obtain lk' q where go: "spin_go 0 (ps ! v) = (lk', q)" by (cases "spin_go 0 (ps ! v)")
  show ?case
  proof (cases "q = Inside")
    case True
    with v spin_run_inside [of v "ps[v := q]" ts lk'] go show ?thesis by auto
  next
    case False
    then have "lk' = 0" and p: "ps ! v \<noteq> Exchange" "v = t \<longrightarrow> q = Exchange"
      using go Cons.prems(2) by (cases "ps ! v"; auto simp: spin_go_def atomic_exchange_def)+
    with Cons.IH [of "ps[v := q]"] Cons.prems v go show ?thesis by (cases "v = t") auto
  qed
qed auto

section \<open>The lock of readers and writers\<close>

text \<open>
  The points of a thread: outside; the waiting load, the increment, the load and the decrement of
  \<open>rwlock_rlock\<close>; reading; the exchange of \<open>rwlock_wlock\<close>, with its variable \<open>clear\<close>, and its waiting load;
  writing.
\<close>

record rwlock =
  rw_write :: u32
  rw_read :: u32

datatype rw_pc = Rw_out | R_load | R_inc | R_check | R_back | R_in | W_cas u32 | W_load | W_in

text \<open>
  \<open>ATOM_CAS\<close> in its two variants: whether it succeeds, the memory and the variable of the expected value
  after it. The one of C11 stores what it has found in that variable. It may also fail
  although the values agree, which changes nothing.
\<close>

definition cas_sync :: "u32 \<Rightarrow> u32 \<Rightarrow> u32 \<Rightarrow> bool \<times> u32 \<times> u32" where
  "cas_sync m oval nval = (m = oval, if m = oval then nval else m, oval)"

definition cas_c11 :: "u32 \<Rightarrow> u32 \<Rightarrow> u32 \<Rightarrow> bool \<times> u32 \<times> u32" where
  "cas_c11 m oval nval = (m = oval, if m = oval then nval else m, m)"

definition rwlock_init :: rwlock where "rwlock_init = \<lparr>rw_write = 0, rw_read = 0\<rparr>"

fun rwlock_rlock :: "rwlock \<Rightarrow> rw_pc \<Rightarrow> rwlock \<times> rw_pc" where
  "rwlock_rlock lk R_load = (lk, if rw_write lk \<noteq> 0 then R_load else R_inc)"
| "rwlock_rlock lk R_inc = (lk\<lparr>rw_read := rw_read lk + 1\<rparr>, R_check)"
| "rwlock_rlock lk R_check = (lk, if rw_write lk \<noteq> 0 then R_back else R_in)"
| "rwlock_rlock lk R_back = (lk\<lparr>rw_read := rw_read lk - 1\<rparr>, R_load)"
| "rwlock_rlock lk p = (lk, p)"

fun rwlock_wlock :: "(u32 \<Rightarrow> u32 \<Rightarrow> u32 \<Rightarrow> bool \<times> u32 \<times> u32) \<Rightarrow> rwlock \<Rightarrow> rw_pc \<Rightarrow> rwlock \<times> rw_pc" where
  "rwlock_wlock cas lk (W_cas clear) =
     (let (ok, m, clear) = cas (rw_write lk) clear 1 in (lk\<lparr>rw_write := m\<rparr>, if ok then W_load else W_cas clear))"
| "rwlock_wlock cas lk W_load = (lk, if rw_read lk \<noteq> 0 then W_load else W_in)"
| "rwlock_wlock cas lk p = (lk, p)"

definition rwlock_wunlock :: "rwlock \<Rightarrow> rwlock" where "rwlock_wunlock lk = lk\<lparr>rw_write := 0\<rparr>"
definition rwlock_runlock :: "rwlock \<Rightarrow> rwlock" where "rwlock_runlock lk = lk\<lparr>rw_read := rw_read lk - 1\<rparr>"

definition rw_go :: "(u32 \<Rightarrow> u32 \<Rightarrow> u32 \<Rightarrow> bool \<times> u32 \<times> u32) \<Rightarrow> rwlock \<Rightarrow> rw_pc \<Rightarrow> rwlock \<times> rw_pc" where
  "rw_go cas lk p = (if p \<in> {R_load, R_inc, R_check, R_back} then rwlock_rlock lk p else rwlock_wlock cas lk p)"

inductive rw_step :: "(u32 \<Rightarrow> u32 \<Rightarrow> u32 \<Rightarrow> bool \<times> u32 \<times> u32) \<Rightarrow> rwlock \<times> rw_pc list \<Rightarrow> rwlock \<times> rw_pc list \<Rightarrow> bool"
  for cas where
  rlock: "t < length ps \<Longrightarrow> ps ! t = Rw_out \<Longrightarrow> rw_step cas (lk, ps) (lk, ps[t := R_load])"
| wlock: "t < length ps \<Longrightarrow> ps ! t = Rw_out \<Longrightarrow> rw_step cas (lk, ps) (lk, ps[t := W_cas 0])"
| go: "t < length ps \<Longrightarrow> rw_go cas lk (ps ! t) = (lk', p) \<Longrightarrow> rw_step cas (lk, ps) (lk', ps[t := p])"
| runlock: "t < length ps \<Longrightarrow> ps ! t = R_in \<Longrightarrow> rw_step cas (lk, ps) (rwlock_runlock lk, ps[t := Rw_out])"
| wunlock: "t < length ps \<Longrightarrow> ps ! t = W_in \<Longrightarrow> rw_step cas (lk, ps) (rwlock_wunlock lk, ps[t := Rw_out])"

text \<open>
  The counter of the lock is the number of threads between increment and decrement, its flag the number
  of writers behind the exchange, at most one; and nobody reads while somebody writes.
\<close>

definition reading :: "rw_pc \<Rightarrow> bool" where "reading p \<longleftrightarrow> p = R_check \<or> p = R_back \<or> p = R_in"
definition writing :: "rw_pc \<Rightarrow> bool" where "writing p \<longleftrightarrow> p = W_load \<or> p = W_in"
definition stale :: "rw_pc \<Rightarrow> bool" where "stale p \<longleftrightarrow> (\<exists>c. p = W_cas c \<and> c \<noteq> 0)"

definition rw_ok :: "rwlock \<times> rw_pc list \<Rightarrow> bool" where
  "rw_ok = (\<lambda>(lk, ps). length ps < 2 ^ 32 \<and> rw_read lk = of_nat (count_at reading ps) \<and> rw_write lk = of_nat (count_at writing ps)
     \<and> count_at writing ps \<le> 1 \<and> count_at stale ps = 0
     \<and> (count_at ((=) W_in) ps = 0 \<or> count_at ((=) R_in) ps = 0))"

lemma count_mono: "(\<And>p. P p \<Longrightarrow> Q p) \<Longrightarrow> count_at P ps \<le> count_at Q ps"
  by (induction ps) (auto simp: count_at_def)

lemma small_0: "c < 2 ^ 32 \<Longrightarrow> of_nat c = (0::u32) \<longleftrightarrow> c = 0"
  by (auto simp: word_of_nat_eq_0_iff dest: dvd_imp_le)

lemma rw_okD:
  assumes "rw_ok (lk, ps)"
  shows "rw_read lk = 0 \<longleftrightarrow> count_at reading ps = 0" "rw_write lk = 0 \<longleftrightarrow> count_at writing ps = 0"
    "count_at ((=) R_in) ps \<le> count_at reading ps" "count_at ((=) W_in) ps \<le> count_at writing ps"
  using assms count_le [of reading ps] count_le [of writing ps]
  by (auto simp: rw_ok_def small_0 reading_def writing_def intro: count_mono)

lemma small_pred: "Suc a = c \<Longrightarrow> of_nat c - 1 = (of_nat a :: u32)"
  by auto

lemmas rw_defs = rw_ok_def rw_go_def cas_sync_def reading_def writing_def stale_def rwlock_runlock_def rwlock_wunlock_def

lemma rw_move:
  assumes ok: "rw_ok (lk, ps)" and t: "t < length ps"
  shows "rw_go cas_sync lk (ps ! t) = (lk', p) \<Longrightarrow> rw_ok (lk', ps[t := p])"
    and "ps ! t = Rw_out \<Longrightarrow> q = R_load \<or> q = W_cas 0 \<Longrightarrow> rw_ok (lk, ps[t := q])"
    and "ps ! t = R_in \<Longrightarrow> rw_ok (rwlock_runlock lk, ps[t := Rw_out])"
    and "ps ! t = W_in \<Longrightarrow> rw_ok (rwlock_wunlock lk, ps[t := Rw_out])"
proof -
  note D = rw_okD [OF ok]
  have m: "count_at P (ps[t := p]) + of_bool (P (ps ! t)) = count_at P ps + of_bool (P p)"
    "P (ps ! t) \<Longrightarrow> 0 < count_at P ps" for P p using t by (rule count_move, rule count_pos)
  have pred: "of_nat (count_at reading ps) - 1 = (of_nat (count_at reading (ps[t := p])) :: u32)"
    if "reading (ps ! t)" "\<not> reading p" for p by (rule small_pred) (use m(1) [of reading p] that in simp)
  show "rw_ok (lk', ps[t := p])" if go: "rw_go cas_sync lk (ps ! t) = (lk', p)"
  proof (cases "ps ! t = R_back")
    case True
    with go have p: "p = R_load" "lk' = lk\<lparr>rw_read := rw_read lk - 1\<rparr>" by (auto simp: rw_go_def)
    from True pred [of R_load] ok m(1) [of reading p] m(1) [of writing p] m(1) [of stale p] m(1) [of "(=) W_in" p]
      m(1) [of "(=) R_in" p]
    show ?thesis unfolding p by (auto simp: rw_defs)
  next
    case False
    with ok D go m(1) [of reading p] m(1) [of writing p] m(1) [of stale p] m(1) [of "(=) W_in" p]
      m(1) [of "(=) R_in" p] m(2) [of reading] m(2) [of stale]
    show ?thesis by (cases "ps ! t") (auto simp: rw_defs split: if_splits)
  qed
  show "rw_ok (lk, ps[t := q])" if "ps ! t = Rw_out" "q = R_load \<or> q = W_cas 0"
    using that ok m(1) [of reading q] m(1) [of writing q] m(1) [of stale q] m(1) [of "(=) W_in" q] m(1) [of "(=) R_in" q]
    by (auto simp: rw_defs)
  show "rw_ok (rwlock_runlock lk, ps[t := Rw_out])" if "ps ! t = R_in"
    using that pred [of Rw_out] ok m(1) [of reading Rw_out] m(1) [of writing Rw_out] m(1) [of stale Rw_out]
      m(1) [of "(=) W_in" Rw_out] m(1) [of "(=) R_in" Rw_out]
    by (auto simp: rw_defs)
  show "rw_ok (rwlock_wunlock lk, ps[t := Rw_out])" if "ps ! t = W_in"
  proof -
    have "count_at writing (ps[t := Rw_out]) = 0" using that ok m(1) [of writing Rw_out] by (auto simp: rw_defs)
    then show ?thesis using that ok m(1) [of reading Rw_out] m(1) [of stale Rw_out] m(1) [of "(=) W_in" Rw_out]
        m(1) [of "(=) R_in" Rw_out] by (auto simp: rw_defs)
  qed
qed

lemma rw_ok_step: "rw_step cas_sync s s' \<Longrightarrow> rw_ok s \<Longrightarrow> rw_ok s'"
  by (induction rule: rw_step.induct) (simp_all add: rw_move)

lemma rw_reachable:
  assumes "(rw_step cas_sync)\<^sup>*\<^sup>* (rwlock_init, replicate n Rw_out) s" "n < 2 ^ 32"
  shows "rw_ok s"
  using assms(1)
proof (induction rule: rtranclp_induct)
  case base
  show ?case using assms(2) by (simp add: rw_ok_def rwlock_init_def count_start reading_def writing_def stale_def)
qed (rule rw_ok_step)

section \<open>Progress\<close>

text \<open>The threads of a list take their next steps, in its order; \<open>served\<close> is that somebody is inside.\<close>

fun rw_run :: "(u32 \<Rightarrow> u32 \<Rightarrow> u32 \<Rightarrow> bool \<times> u32 \<times> u32) \<Rightarrow> nat list \<Rightarrow> rwlock \<times> rw_pc list \<Rightarrow> rwlock \<times> rw_pc list" where
  "rw_run cas [] s = s"
| "rw_run cas (t # ts) (lk, ps) = (let (lk', p) = rw_go cas lk (ps ! t) in rw_run cas ts (lk', ps[t := p]))"

definition served :: "rwlock \<times> rw_pc list \<Rightarrow> bool" where
  "served = (\<lambda>(lk, ps). \<exists>t < length ps. ps ! t = R_in \<or> ps ! t = W_in)"

lemma rw_run_append: "rw_run cas (ts @ us) s = rw_run cas us (rw_run cas ts s)"
  by (induction cas ts s rule: rw_run.induct) (simp_all split: prod.splits)

lemma rw_run_length: "length (snd (rw_run cas ts s)) = length (snd s)"
  by (induction cas ts s rule: rw_run.induct) (simp_all split: prod.splits)

lemma rw_run_served: "served s \<Longrightarrow> set ts \<subseteq> {..<length (snd s)} \<Longrightarrow> served (rw_run cas ts s)"
proof (induction cas ts s rule: rw_run.induct)
  case (2 cas v ts lk ps)
  from 2(2) obtain t where t: "t < length ps" "ps ! t = R_in \<or> ps ! t = W_in" by (auto simp: served_def)
  obtain lk' p where go: "rw_go cas lk (ps ! v) = (lk', p)" by (cases "rw_go cas lk (ps ! v)")
  have "ps[v := p] ! t = ps ! t" using t go by (cases "v = t") (auto simp: rw_go_def)
  with t have "served (lk', ps[v := p])" by (auto simp: served_def)
  with 2(1,3) go show ?case by simp
qed simp

lemma rw_run_ok: "rw_ok s \<Longrightarrow> set ts \<subseteq> {..<length (snd s)} \<Longrightarrow> rw_ok (rw_run cas_sync ts s)"
  by (induction cas_sync ts s rule: rw_run.induct) (auto simp: rw_move split: prod.splits)

text \<open>With a writer waiting, every other thread leaves the entry section in at most three steps.\<close>

fun rank :: "rw_pc \<Rightarrow> nat" where
  "rank R_inc = 3" | "rank R_check = 2" | "rank R_back = 1" | "rank p = 0"

lemma waiting_step:
  assumes "rw_ok (lk, ps)" "\<not> served (lk, ps)" "rw_write lk \<noteq> 0" "v < length ps" "rw_go cas_sync lk (ps ! v) = (lk', p)"
    and "p \<noteq> W_in"
  shows "\<not> served (lk', ps[v := p])" "rw_write lk' \<noteq> 0" "rank p = rank (ps ! v) - 1" "ps ! v = W_load \<Longrightarrow> p = W_load"
proof -
  have "\<not> stale (ps ! v)" using assms(1,4) by (auto simp: rw_ok_def count_0)
  then have "p \<noteq> R_in \<and> rw_write lk' \<noteq> 0 \<and> rank p = rank (ps ! v) - 1 \<and> (ps ! v = W_load \<longrightarrow> p = W_load)"
    using assms(2-6) by (cases "ps ! v") (auto simp: rw_go_def cas_sync_def stale_def served_def split: if_splits dest!: sym [of "W_cas 0"])
  moreover have "\<not> served (lk', ps[v := p])" if "p \<noteq> R_in"
    using assms(2,4,6) that by (auto simp: served_def nth_list_update)
  ultimately show "\<not> served (lk', ps[v := p])" "rw_write lk' \<noteq> 0" "rank p = rank (ps ! v) - 1" "ps ! v = W_load \<Longrightarrow> p = W_load"
    by auto
qed

lemma waiting_run:
  assumes "rw_ok (lk, ps)" "\<not> served (lk, ps)" "rw_write lk \<noteq> 0" "set ts \<subseteq> {..<length ps}"
    and "rw_run cas_sync ts (lk, ps) = (lk', ps')" "\<not> served (lk', ps')"
  shows "rw_write lk' \<noteq> 0 \<and> (\<forall>t < length ps. rank (ps' ! t) \<le> rank (ps ! t) - of_bool (t \<in> set ts) \<and> (ps ! t = W_load \<longrightarrow> ps' ! t = W_load))"
  using assms
proof (induction ts arbitrary: lk ps)
  case (Cons v ts)
  obtain lk1 p where go: "rw_go cas_sync lk (ps ! v) = (lk1, p)" by (cases "rw_go cas_sync lk (ps ! v)")
  have v: "v < length ps" using Cons.prems(4) by simp
  have run: "rw_run cas_sync ts (lk1, ps[v := p]) = (lk', ps')" using Cons.prems(5) go by simp
  have p: "p \<noteq> W_in"
  proof
    assume "p = W_in"
    with v have "served (lk1, ps[v := p])" by (auto simp: served_def)
    with rw_run_served [of "(lk1, ps[v := p])" ts cas_sync] Cons.prems(4,6) run show False by auto
  qed
  note w = waiting_step [OF Cons.prems(1-3) v go p]
  have IH: "rw_write lk' \<noteq> 0" "t < length ps \<Longrightarrow> rank (ps' ! t) \<le> rank (ps[v := p] ! t) - of_bool (t \<in> set ts)"
    "t < length ps \<Longrightarrow> ps[v := p] ! t = W_load \<Longrightarrow> ps' ! t = W_load" for t
    using Cons.IH [OF rw_move(1) [OF Cons.prems(1) v go] w(1,2) _ run Cons.prems(6)] Cons.prems(4) by auto
  show ?case
  proof (intro conjI allI impI)
    fix t assume t: "t < length ps"
    show "rank (ps' ! t) \<le> rank (ps ! t) - of_bool (t \<in> set (v # ts))"
      using IH(2) [OF t] w(3) t by (cases "t = v") auto
    show "ps' ! t = W_load" if "ps ! t = W_load"
      using IH(3) [OF t] w(4) that t by (cases "t = v") auto
  qed (rule IH(1))
qed simp

lemma waiting_writer:
  assumes "rw_ok (lk, ps)" "\<not> served (lk, ps)" "rw_write lk \<noteq> 0"
  obtains w where "w < length ps" "ps ! w = W_load"
proof -
  from rw_okD(2) [OF assms(1)] assms(3) obtain w where "w < length ps" "writing (ps ! w)" by (auto simp: count_0)
  with assms(2) that show thesis by (auto simp: writing_def served_def)
qed

text \<open>When nobody is on the way, the writer's next step lets it in.\<close>

lemma waiting_last:
  assumes "rw_ok (lk, ps)" "\<not> served (lk, ps)" "rw_write lk \<noteq> 0" "\<forall>t < length ps. rank (ps ! t) = 0" "set ts = {..<length ps}"
  shows "served (rw_run cas_sync ts (lk, ps))"
proof (rule ccontr)
  assume n: "\<not> served (rw_run cas_sync ts (lk, ps))"
  obtain w where w: "w < length ps" "ps ! w = W_load" by (rule waiting_writer [OF assms(1-3)])
  then obtain us vs where ts: "ts = us @ w # vs" using assms(5) by (metis lessThan_iff split_list)
  obtain lk' ps' where run: "rw_run cas_sync us (lk, ps) = (lk', ps')" by (cases "rw_run cas_sync us (lk, ps)")
  have us: "set us \<subseteq> {..<length ps}" "set (w # vs) \<subseteq> {..<length ps}" using assms(5) ts by auto
  have len: "length ps' = length ps" using rw_run_length [of cas_sync us "(lk, ps)"] run by simp
  have n': "\<not> served (lk', ps')" using n run rw_run_served [of "(lk', ps')" "w # vs"] us(2) len ts by (auto simp: rw_run_append)
  from waiting_run [OF assms(1-3) us(1) run n'] w assms(4) have r: "ps' ! w = W_load" "\<forall>t < length ps. rank (ps' ! t) = 0" by auto
  have ok: "rw_ok (lk', ps')" using rw_run_ok [OF assms(1), of us] us(1) run by simp
  have "\<not> reading (ps' ! t)" if "t < length ps'" for t
    using r(2) n' that len by (auto simp: reading_def served_def)
  then have "rw_read lk' = 0" using rw_okD(1) [OF ok] by (simp add: count_0)
  then have "served (rw_run cas_sync [w] (lk', ps'))" using r(1) w(1) len by (auto simp: rw_go_def served_def intro!: exI [of _ w])
  then have "served (rw_run cas_sync vs (rw_run cas_sync [w] (lk', ps')))"
    by (rule rw_run_served) (unfold rw_run_length snd_conv len, use us(2) in simp)
  with n run show False unfolding ts rw_run_append by (simp split: prod.splits)
qed

text \<open>Rounds: every thread takes a step in each.\<close>

definition fair_round :: "nat \<Rightarrow> nat list \<Rightarrow> bool" where "fair_round n ts \<longleftrightarrow> set ts = {..<n}"

lemma waiting_rounds:
  assumes "rw_ok (lk, ps)" "\<not> served (lk, ps)" "rw_write lk \<noteq> 0" "\<forall>t < length ps. rank (ps ! t) \<le> k"
    and "list_all (fair_round (length ps)) rs" "length rs = Suc k"
  shows "served (rw_run cas_sync (concat rs) (lk, ps))"
  using assms
proof (induction k arbitrary: lk ps rs)
  case 0
  then obtain r where "rs = [r]" "set r = {..<length ps}" by (auto simp: length_Suc_conv fair_round_def)
  with waiting_last [OF 0(1-3)] 0(4) show ?case by simp
next
  case (Suc k)
  then obtain r rs' where rs: "rs = r # rs'" "set r = {..<length ps}" "length rs' = Suc k"
    by (auto simp: length_Suc_conv fair_round_def)
  obtain lk' ps' where run: "rw_run cas_sync r (lk, ps) = (lk', ps')" by (cases "rw_run cas_sync r (lk, ps)")
  have len: "length ps' = length ps" using rw_run_length [of cas_sync r "(lk, ps)"] run by simp
  have split: "rw_run cas_sync (concat rs) (lk, ps) = rw_run cas_sync (concat rs') (lk', ps')"
    using rs(1) run by (simp add: rw_run_append)
  have fair: "list_all (fair_round (length ps')) rs'" using Suc.prems(5) rs(1) len by simp
  show ?case
  proof (cases "served (lk', ps')")
    case True
    with fair show ?thesis unfolding split by (intro rw_run_served) (auto simp: list_all_iff fair_round_def)
  next
    case False
    from waiting_run [OF Suc.prems(1-3) _ run False] rs(2)
    have w: "rw_write lk' \<noteq> 0" "\<forall>t < length ps. rank (ps' ! t) \<le> rank (ps ! t) - 1" by auto
    from w(2) Suc.prems(4) have "\<forall>t < length ps'. rank (ps' ! t) \<le> k"
      unfolding len by (metis Suc_eq_plus1 diff_le_mono diff_Suc_1 le_trans)
    with Suc.IH [OF _ False w(1) _ fair rs(3)] rw_run_ok [OF Suc.prems(1), of r] rs(2) run show ?thesis unfolding split by simp
  qed
qed

text \<open>With no writer on the way, a thread that wants to enter comes closer with every step.\<close>

fun distance :: "rw_pc \<Rightarrow> nat" where
  "distance R_back = 4" | "distance R_load = 3" | "distance R_inc = 2" | "distance R_check = 1"
| "distance (W_cas c) = 1" | "distance p = 0"

lemma open_step:
  assumes "rw_ok (lk, ps)" "\<not> served (lk, ps)" "rw_write lk = 0" "v < length ps" "rw_go cas_sync lk (ps ! v) = (lk', p)"
    and "p \<noteq> R_in" "rw_write lk' = 0"
  shows "\<not> served (lk', ps[v := p])" "0 < distance (ps ! v) \<Longrightarrow> 0 < distance p \<and> Suc (distance p) = distance (ps ! v)"
proof -
  have "\<not> stale (ps ! v)" using assms(1,4) by (auto simp: rw_ok_def count_0)
  moreover have "\<not> writing (ps ! v)" using rw_okD(2) [OF assms(1)] assms(3,4) by (auto simp: count_0)
  ultimately have "p \<noteq> W_in \<and> (0 < distance (ps ! v) \<longrightarrow> 0 < distance p \<and> Suc (distance p) = distance (ps ! v))"
    using assms(2-7)
    by (cases "ps ! v") (auto simp: rw_go_def cas_sync_def stale_def writing_def served_def split: if_splits)
  with assms(2,4,6) show "\<not> served (lk', ps[v := p])" "0 < distance (ps ! v) \<Longrightarrow> 0 < distance p \<and> Suc (distance p) = distance (ps ! v)"
    by (auto simp: served_def nth_list_update)
qed

lemma open_run:
  assumes "rw_ok (lk, ps)" "\<not> served (lk, ps)" "rw_write lk = 0" "t < length ps" "0 < distance (ps ! t)"
    and "set ts \<subseteq> {..<length ps}" "distance (ps ! t) \<le> count_list ts t"
  shows "served (rw_run cas_sync ts (lk, ps)) \<or> rw_write (fst (rw_run cas_sync ts (lk, ps))) \<noteq> 0"
  using assms
proof (induction ts arbitrary: lk ps)
  case (Cons v ts)
  obtain lk1 p where go: "rw_go cas_sync lk (ps ! v) = (lk1, p)" by (cases "rw_go cas_sync lk (ps ! v)")
  have v: "v < length ps" and ts: "set ts \<subseteq> {..<length (ps[v := p])}" using Cons.prems(6) by auto
  have ok: "rw_ok (lk1, ps[v := p])" by (rule rw_move(1) [OF Cons.prems(1) v go])
  have run: "rw_run cas_sync (v # ts) (lk, ps) = rw_run cas_sync ts (lk1, ps[v := p])" using go by simp
  obtain lk' ps' where end_state: "rw_run cas_sync ts (lk1, ps[v := p]) = (lk', ps')" by (cases "rw_run cas_sync ts (lk1, ps[v := p])")
  consider (inside) "served (lk1, ps[v := p])" | (writer) "\<not> served (lk1, ps[v := p])" "rw_write lk1 \<noteq> 0"
    | (still) "\<not> served (lk1, ps[v := p])" "rw_write lk1 = 0" "p \<noteq> R_in"
    using v by (force simp: served_def)
  then show ?case
  proof cases
    case inside
    then show ?thesis unfolding run using rw_run_served ts by simp
  next
    case writer
    then show ?thesis unfolding run using waiting_run [OF ok writer ts end_state] end_state by auto
  next
    case still
    note o = open_step [OF Cons.prems(1-3) v go still(3,2)]
    have "0 < distance (ps[v := p] ! t) \<and> distance (ps[v := p] ! t) \<le> count_list ts t"
      using o(2) Cons.prems(4,5,7) by (cases "v = t") auto
    with Cons.IH [OF ok still(1,2) _ _ ts] Cons.prems(4) show ?thesis unfolding run by simp
  qed
qed simp

lemma count_rounds: "list_all (fair_round n) rs \<Longrightarrow> t < n \<Longrightarrow> length rs \<le> count_list (concat rs) t"
proof (induction rs)
  case (Cons r rs)
  then have "t \<in> set r" by (simp add: fair_round_def)
  then have "0 < count_list r t" by (metis count_list_0_iff gr0I)
  with Cons show ?case by simp
qed simp

text \<open>Four rounds until a writer waits or somebody is inside, and four more for the writer.\<close>

lemma rounds_serve:
  assumes ok: "rw_ok (lk, ps)" and t: "t < length ps" "ps ! t \<noteq> Rw_out" and rs: "list_all (fair_round (length ps)) rs" "length rs = 8"
  shows "served (rw_run cas_sync (concat rs) (lk, ps))"
proof -
  let ?us = "concat (take 4 rs)" and ?vs = "concat (drop 4 rs)"
  have rounds: "list_all (fair_round (length ps)) (take 4 rs)" "list_all (fair_round (length ps)) (drop 4 rs)"
    using rs(1) by (auto simp: list_all_iff dest: in_set_takeD in_set_dropD)
  then have us: "set ?us \<subseteq> {..<length ps}" and vs: "set ?vs \<subseteq> {..<length ps}" by (auto simp: list_all_iff fair_round_def)
  obtain lk' ps' where run: "rw_run cas_sync ?us (lk, ps) = (lk', ps')" by (cases "rw_run cas_sync ?us (lk, ps)")
  have len: "length ps' = length ps" using rw_run_length [of cas_sync ?us "(lk, ps)"] run by simp
  have first: "served (lk', ps') \<or> rw_write lk' \<noteq> 0"
  proof (cases "served (lk, ps)")
    case True
    with rw_run_served [of "(lk, ps)" ?us cas_sync] us run show ?thesis by simp
  next
    case False
    show ?thesis
    proof (cases "rw_write lk = 0")
      case True
      have "ps ! t \<noteq> R_in" "ps ! t \<noteq> W_in" "ps ! t \<noteq> W_load"
        using False t rw_okD(2) [OF ok] True by (auto simp: served_def count_0 writing_def)
      then have "0 < distance (ps ! t)" "distance (ps ! t) \<le> 4" using t(2) by (cases "ps ! t"; simp)+
      with open_run [OF ok False True t(1) _ us] count_rounds [OF rounds(1) t(1)] rs(2) run show ?thesis by auto
    qed (use waiting_run [OF ok False _ us run] in auto)
  qed
  have "rank (ps' ! u) \<le> 3" for u by (cases "ps' ! u") auto
  then have "served (rw_run cas_sync ?vs (lk', ps'))"
    using first waiting_rounds [of lk' ps' 3 "drop 4 rs"] rw_run_ok [OF ok, of ?us] us run rounds(2) rs(2) len vs
      rw_run_served [of "(lk', ps')" ?vs cas_sync] by auto
  moreover have "concat rs = ?us @ ?vs" by (metis append_take_drop_id concat_append)
  ultimately show ?thesis using run by (simp add: rw_run_append)
qed

section \<open>Properties\<close>

text \<open>C17: Mutual exclusion of the spin lock: however any number of threads lock, try, wait and unlock, two are never
  inside at once.\<close>

theorem spinlock_excludes:
  assumes "spin_step\<^sup>*\<^sup>* (spinlock_init, replicate n Outside) (lk, ps)"
    and "t < length ps" "u < length ps" "ps ! t = Inside" "ps ! u = Inside"
  shows "t = u"
  using spin_reachable [OF assms(1)] count_two [of t ps u "(=) Inside"] assms(2-5) by (auto simp: spin_ok_def)

lemma spinlock_excludes_witness:
  "spin_step\<^sup>*\<^sup>* (spinlock_init, [Outside, Outside]) (1, [Wait, Inside]) \<and> {t. t < 2 \<and> [Wait, Inside] ! t = Inside} = {1}"
proof -
  have s: "spin_step\<^sup>*\<^sup>* (spinlock_init, replicate 2 Outside) (1, [Wait, Inside])"
  proof -
    have "spin_step (spinlock_init, replicate 2 Outside) (0, [Exchange, Outside])"
      using spin_step.lock [of 0 "[Outside, Outside]" 0] by (simp add: spinlock_init_def numeral_2_eq_2)
    also have "spin_step\<^sup>*\<^sup>* (0, [Exchange, Outside]) (0, [Exchange, Exchange])"
      using spin_step.lock [of 1 "[Exchange, Outside]" 0] by (simp add: r_into_rtranclp)
    also have "spin_step\<^sup>*\<^sup>* (0, [Exchange, Exchange]) (1, [Exchange, Inside])"
      using spin_step.go [of 1 "[Exchange, Exchange]" 0] by (simp add: spin_go_def atomic_exchange_def r_into_rtranclp)
    also have "spin_step\<^sup>*\<^sup>* (1, [Exchange, Inside]) (1, [Wait, Inside])"
      using spin_step.go [of 0 "[Exchange, Inside]" 1] by (simp add: spin_go_def atomic_exchange_def r_into_rtranclp)
    finally show ?thesis by simp
  qed
  have "t = 1" if "t < 2" "[Wait, Inside] ! t = Inside" for t :: nat
    using spinlock_excludes [OF s, of t 1] that by simp
  then have "{t. t < 2 \<and> [Wait, Inside] ! t = Inside} = {1}" by auto
  with s show ?thesis by (simp add: numeral_2_eq_2)
qed

text \<open>C15: Mutual exclusion of the lock of readers and writers, with the built-in compare-and-swap: while a thread is
  inside \<open>rwlock_wlock\<close>'s section no other writes or reads.\<close>

theorem rwlock_excludes:
  assumes "(rw_step cas_sync)\<^sup>*\<^sup>* (rwlock_init, replicate n Rw_out) (lk, ps)" "n < 2 ^ 32"
    and "t < length ps" "u < length ps" "ps ! t = W_in" "ps ! u = W_in \<or> ps ! u = R_in"
  shows "t = u"
proof -
  note ok = rw_reachable [OF assms(1,2)]
  have "ps ! u \<noteq> R_in" using ok assms(3-6) count_pos [of t ps "(=) W_in"] count_pos [of u ps "(=) R_in"] by (auto simp: rw_ok_def)
  with ok count_two [of t ps u writing] assms(3-6) show ?thesis by (auto simp: rw_ok_def writing_def)
qed

lemma rw_one_step: "rw_step cas s s' \<Longrightarrow> (rw_step cas)\<^sup>*\<^sup>* s' s'' \<Longrightarrow> (rw_step cas)\<^sup>*\<^sup>* s s''"
  by (rule converse_rtranclp_into_rtranclp)

text \<open>C14: With the compare-and-swap of C11 that exclusion fails: a writer whose first exchange finds another writer
  takes over the flag it has found as the value to expect, so its second exchange succeeds. Both are inside.\<close>

theorem rwlock_c11_two_writers:
  "\<exists>lk. (rw_step cas_c11)\<^sup>*\<^sup>* (rwlock_init, replicate 2 Rw_out) (lk, [W_in, W_in])"
proof -
  let ?l = "\<lambda>w. \<lparr>rw_write = w, rw_read = 0\<rparr>"
  note go = rw_step.go [where cas = cas_c11] and defs = rw_go_def cas_c11_def
  have s: "rw_step cas_c11 (?l 0, [Rw_out, Rw_out]) (?l 0, [W_cas 0, Rw_out])"
    "rw_step cas_c11 (?l 0, [W_cas 0, Rw_out]) (?l 0, [W_cas 0, W_cas 0])"
    using rw_step.wlock [of 0 "[Rw_out, Rw_out]"] rw_step.wlock [of 1 "[W_cas 0, Rw_out]"] by simp_all
  have first: "rw_step cas_c11 (?l 0, [W_cas 0, W_cas 0]) (?l 1, [W_load, W_cas 0])"
    "rw_step cas_c11 (?l 1, [W_load, W_cas 0]) (?l 1, [W_in, W_cas 0])"
    using go [of 0 "[W_cas 0, W_cas 0]" "?l 0"] go [of 0 "[W_load, W_cas 0]" "?l 1"] by (simp_all add: defs)
  have second: "rw_step cas_c11 (?l 1, [W_in, W_cas 0]) (?l 1, [W_in, W_cas 1])"
    "rw_step cas_c11 (?l 1, [W_in, W_cas 1]) (?l 1, [W_in, W_load])"
    "rw_step cas_c11 (?l 1, [W_in, W_load]) (?l 1, [W_in, W_in])"
    using go [of 1 "[W_in, W_cas 0]" "?l 1"] go [of 1 "[W_in, W_cas 1]" "?l 1"] go [of 1 "[W_in, W_load]" "?l 1"]
    by (simp_all add: defs)
  have "(rw_step cas_c11)\<^sup>*\<^sup>* (?l 0, [Rw_out, Rw_out]) (?l 1, [W_in, W_in])"
    by (rule rw_one_step s first second rtranclp.rtrancl_refl)+
  then show ?thesis by (auto simp: rwlock_init_def numeral_2_eq_2)
qed



lemma rwlock_excludes_witness:
  "(rw_step cas_sync)\<^sup>*\<^sup>* (rwlock_init, replicate 2 Rw_out) (\<lparr>rw_write = 1, rw_read = 0\<rparr>, [W_in, W_cas 0])
   \<and> {u. u < 2 \<and> [W_in, W_cas 0] ! u = W_in} = {0}"
proof -
  let ?l = "\<lambda>w. \<lparr>rw_write = w, rw_read = 0\<rparr>"
  note go = rw_step.go [where cas = cas_sync] and defs = rw_go_def cas_sync_def
  have s: "rw_step cas_sync (?l 0, [Rw_out, Rw_out]) (?l 0, [W_cas 0, Rw_out])"
    "rw_step cas_sync (?l 0, [W_cas 0, Rw_out]) (?l 0, [W_cas 0, W_cas 0])"
    "rw_step cas_sync (?l 0, [W_cas 0, W_cas 0]) (?l 1, [W_load, W_cas 0])"
    "rw_step cas_sync (?l 1, [W_load, W_cas 0]) (?l 1, [W_in, W_cas 0])"
    using rw_step.wlock [of 0 "[Rw_out, Rw_out]"] rw_step.wlock [of 1 "[W_cas 0, Rw_out]"]
      go [of 0 "[W_cas 0, W_cas 0]" "?l 0"] go [of 0 "[W_load, W_cas 0]" "?l 1"] by (simp_all add: defs)
  have "(rw_step cas_sync)\<^sup>*\<^sup>* (?l 0, [Rw_out, Rw_out]) (?l 1, [W_in, W_cas 0])"
    by (rule rw_one_step s rtranclp.rtrancl_refl)+
  then have r: "(rw_step cas_sync)\<^sup>*\<^sup>* (rwlock_init, replicate 2 Rw_out) (?l 1, [W_in, W_cas 0])"
    by (simp add: rwlock_init_def numeral_2_eq_2)
  have "u = 0" if "u < 2" "[W_in, W_cas 0] ! u = W_in" for u :: nat
    using rwlock_excludes [OF r, of 0 u] that by simp
  then have "{u. u < 2 \<and> [W_in, W_cas 0] ! u = W_in} = {0}" by auto
  with r show ?thesis by blast
qed

end
