(* ===== verification/Monitor.thy ===== *)
theory Monitor
  imports Locks
begin

text \<open>
  The sleep of the workers and the end of the program (\<open>thread_worker\<close>, \<open>wakeup\<close>, \<open>thread_timer\<close> and
  \<open>skynet_shutdown\<close> of \<open>skynet_main.c\<close>): workers that find nothing to do wait on the condition variable of the
  monitor, the timer thread signals it at every tick, and the shutdown sets the flag and wakes everybody. One step is one access
  of the monitor; a thread that waits for the mutex stays where it is. What a worker does in a dispatch is the
  subject of \<open>Worker\<close>; here a dispatch is a step after which the worker is idle or not. The shutdown runs
  on a thread that does not hold the mutex.
\<close>

section \<open>The threads\<close>

datatype owner = By_worker nat | By_shutdown

record monitor =
  mo_count :: nat
  mo_sleep :: int
  mo_quit :: bool
  mo_mutex :: "owner option"

text \<open>The points of \<open>thread_worker\<close>, in the order of its lines, and those of \<open>skynet_shutdown\<close>.\<close>

datatype worker_pc = Check | Dispatch | Mutex_lock | Inc_sleep | Test_quit | Cond_enter | Cond_wait | Mutex_again | Dec_sleep
  | Mutex_unlock | Ended

datatype shutdown_pc = S_quit | S_lock | S_broadcast | S_unlock | S_done

definition monitor_init :: "nat \<Rightarrow> monitor" where
  "monitor_init thread = \<lparr>mo_count = thread, mo_sleep = 0, mo_quit = False, mo_mutex = None\<rparr>"

text \<open>The next step of worker \<open>w\<close>; \<open>idle\<close> is what \<open>skynet_message_dispatch\<close> returns. \<open>Cond_wait\<close> ends by a signal only.\<close>

fun thread_worker :: "nat \<Rightarrow> bool \<Rightarrow> monitor \<Rightarrow> worker_pc \<Rightarrow> monitor \<times> worker_pc" where
  "thread_worker w idle m Check = (m, if mo_quit m then Ended else Dispatch)"
| "thread_worker w idle m Dispatch = (m, if idle then Mutex_lock else Check)"
| "thread_worker w idle m Mutex_lock = (if mo_mutex m = None then (m\<lparr>mo_mutex := Some (By_worker w)\<rparr>, Inc_sleep) else (m, Mutex_lock))"
| "thread_worker w idle m Inc_sleep = (m\<lparr>mo_sleep := mo_sleep m + 1\<rparr>, Test_quit)"
| "thread_worker w idle m Test_quit = (m, if mo_quit m then Dec_sleep else Cond_enter)"
| "thread_worker w idle m Cond_enter = (m\<lparr>mo_mutex := None\<rparr>, Cond_wait)"
| "thread_worker w idle m Cond_wait = (m, Cond_wait)"
| "thread_worker w idle m Mutex_again = (if mo_mutex m = None then (m\<lparr>mo_mutex := Some (By_worker w)\<rparr>, Dec_sleep) else (m, Mutex_again))"
| "thread_worker w idle m Dec_sleep = (m\<lparr>mo_sleep := mo_sleep m - 1\<rparr>, Mutex_unlock)"
| "thread_worker w idle m Mutex_unlock = (m\<lparr>mo_mutex := None\<rparr>, Check)"
| "thread_worker w idle m Ended = (m, Ended)"

text \<open>Whether \<open>wakeup\<close> signals.\<close>

definition wakeup :: "monitor \<Rightarrow> int \<Rightarrow> bool" where
  "wakeup m busy \<longleftrightarrow> mo_sleep m \<ge> int (mo_count m) - busy"

definition wake :: "worker_pc \<Rightarrow> worker_pc" where
  "wake p = (if p = Cond_wait then Mutex_again else p)"

fun skynet_shutdown :: "monitor \<Rightarrow> worker_pc list \<Rightarrow> shutdown_pc \<Rightarrow> monitor \<times> worker_pc list \<times> shutdown_pc" where
  "skynet_shutdown m ps S_quit = (m\<lparr>mo_quit := True\<rparr>, ps, S_lock)"
| "skynet_shutdown m ps S_lock =
     (if mo_mutex m = None then (m\<lparr>mo_mutex := Some By_shutdown\<rparr>, ps, S_broadcast) else (m, ps, S_lock))"
| "skynet_shutdown m ps S_broadcast = (m, map wake ps, S_unlock)"
| "skynet_shutdown m ps S_unlock = (m\<lparr>mo_mutex := None\<rparr>, ps, S_done)"
| "skynet_shutdown m ps S_done = (m, ps, S_done)"

text \<open>A signal wakes one waiting worker, a spurious wakeup any; both are \<open>woken\<close>.\<close>

inductive monitor_step :: "monitor \<times> worker_pc list \<times> shutdown_pc \<Rightarrow> monitor \<times> worker_pc list \<times> shutdown_pc \<Rightarrow> bool" where
  worker: "w < length ps \<Longrightarrow> thread_worker w idle m (ps ! w) = (m', p) \<Longrightarrow> monitor_step (m, ps, s) (m', ps[w := p], s)"
| shutdown: "monitor_step (m, ps, s) (skynet_shutdown m ps s)"
| woken: "w < length ps \<Longrightarrow> ps ! w = Cond_wait \<Longrightarrow> monitor_step (m, ps, s) (m, ps[w := Mutex_again], s)"

section \<open>The invariant\<close>

definition holding :: "worker_pc \<Rightarrow> bool" where
  "holding p \<longleftrightarrow> p \<in> {Inc_sleep, Test_quit, Cond_enter, Dec_sleep, Mutex_unlock}"

definition asleep :: "worker_pc \<Rightarrow> bool" where
  "asleep p \<longleftrightarrow> p \<in> {Test_quit, Cond_enter, Cond_wait, Mutex_again, Dec_sleep}"

definition monitor_ok :: "monitor \<times> worker_pc list \<times> shutdown_pc \<Rightarrow> bool" where
  "monitor_ok = (\<lambda>(m, ps, s). mo_count m = length ps \<and> mo_sleep m = int (count_at asleep ps) \<and> (mo_quit m \<longleftrightarrow> s \<noteq> S_quit)
     \<and> (\<forall>w < length ps. holding (ps ! w) \<longleftrightarrow> mo_mutex m = Some (By_worker w))
     \<and> (\<forall>w. mo_mutex m = Some (By_worker w) \<longrightarrow> w < length ps)
     \<and> (mo_mutex m = Some By_shutdown \<longleftrightarrow> s = S_broadcast \<or> s = S_unlock)
     \<and> (s = S_unlock \<or> s = S_done \<longrightarrow> (\<forall>w < length ps. ps ! w \<noteq> Cond_wait \<and> ps ! w \<noteq> Cond_enter)))"

lemma count_wake: "count_at asleep (map wake ps) = count_at asleep ps"
  by (induction ps) (auto simp: count_at_def asleep_def wake_def)

lemma worker_move:
  assumes ok: "monitor_ok (m, ps, s)" and w: "w < length ps"
    and go: "thread_worker w idle m (ps ! w) = (m', p) \<or> ps ! w = Cond_wait \<and> m' = m \<and> p = Mutex_again"
  shows "monitor_ok (m', ps[w := p], s)"
proof -
  note c = count_move [OF w, of asleep p]
  have "mo_count m' = length ps \<and> mo_sleep m' = int (count_at asleep (ps[w := p])) \<and> (mo_quit m' \<longleftrightarrow> s \<noteq> S_quit)"
    using ok go c by (cases "ps ! w") (auto simp: monitor_ok_def asleep_def split: if_splits)
  moreover have "(\<forall>v < length ps. holding (ps[w := p] ! v) \<longleftrightarrow> mo_mutex m' = Some (By_worker v))
      \<and> (\<forall>v. mo_mutex m' = Some (By_worker v) \<longrightarrow> v < length ps) \<and> (mo_mutex m' = Some By_shutdown \<longleftrightarrow> s = S_broadcast \<or> s = S_unlock)"
    using ok go w by (cases "ps ! w") (auto simp: monitor_ok_def holding_def nth_list_update split: if_splits)
  moreover have "\<forall>v < length ps. ps[w := p] ! v \<noteq> Cond_wait \<and> ps[w := p] ! v \<noteq> Cond_enter" if "s = S_unlock \<or> s = S_done"
    using ok go w that by (cases "ps ! w") (auto simp: monitor_ok_def nth_list_update split: if_splits)
  ultimately show ?thesis by (simp add: monitor_ok_def)
qed

lemma shutdown_move:
  assumes ok: "monitor_ok (m, ps, s)"
  shows "monitor_ok (skynet_shutdown m ps s)"
proof (cases s)
  case S_broadcast
  have "holding (map wake ps ! w) \<longleftrightarrow> holding (ps ! w)" "map wake ps ! w \<noteq> Cond_wait" if "w < length ps" for w
    using that by (auto simp: wake_def holding_def)
  moreover have "map wake ps ! w \<noteq> Cond_enter" if "w < length ps" for w
    using ok that S_broadcast by (auto simp: monitor_ok_def holding_def wake_def)
  ultimately show ?thesis using ok S_broadcast by (auto simp: monitor_ok_def count_wake)
qed (use ok in \<open>auto simp: monitor_ok_def\<close>)

lemma monitor_ok_step: "monitor_step s s' \<Longrightarrow> monitor_ok s \<Longrightarrow> monitor_ok s'"
proof (induction rule: monitor_step.induct)
  case (worker w ps idle m m' p s)
  then show ?case using worker_move by blast
next
  case (shutdown m ps s)
  then show ?case by (rule shutdown_move)
next
  case (woken w ps m s)
  then show ?case using worker_move by blast
qed

lemma monitor_reachable:
  assumes "monitor_step\<^sup>*\<^sup>* (monitor_init n, replicate n Check, S_quit) s"
  shows "monitor_ok s"
  using assms
proof (induction rule: rtranclp_induct)
  case base
  show ?case by (simp add: monitor_ok_def monitor_init_def count_start asleep_def holding_def)
next
  case (step s s')
  then show ?case using monitor_ok_step by blast
qed

section \<open>The end of the workers\<close>

text \<open>The workers of a list take their next steps, each with the answer of its dispatch, after the shutdown.\<close>

fun monitor_run :: "(nat \<times> bool) list \<Rightarrow> monitor \<times> worker_pc list \<Rightarrow> monitor \<times> worker_pc list" where
  "monitor_run [] s = s"
| "monitor_run ((w, idle) # ts) (m, ps) = (let (m', p) = thread_worker w idle m (ps ! w) in monitor_run ts (m', ps[w := p]))"

text \<open>The steps that a worker is from its end.\<close>

fun to_end :: "worker_pc \<Rightarrow> nat" where
  "to_end Dispatch = 7" | "to_end Mutex_lock = 6" | "to_end Inc_sleep = 5" | "to_end Test_quit = 4" | "to_end Mutex_again = 4"
| "to_end Dec_sleep = 3" | "to_end Mutex_unlock = 2" | "to_end Check = 1" | "to_end p = 0"

definition work_left :: "worker_pc list \<Rightarrow> nat" where "work_left ps = sum_list (map to_end ps)"

lemma work_left_move:
  assumes "w < length ps"
  shows "work_left (ps[w := p]) + to_end (ps ! w) = work_left ps + to_end p"
  using assms
proof (induction ps arbitrary: w)
  case (Cons q ps)
  then show ?case by (cases w) (auto simp: work_left_def)
qed simp

lemma ending_step:
  assumes "monitor_ok (m, ps, S_done)" "w < length ps" "thread_worker w idle m (ps ! w) = (m', p)"
  shows "to_end p < to_end (ps ! w) \<or> p = ps ! w \<and> m' = m \<and> (p = Ended \<or> \<not> holding p \<and> mo_mutex m \<noteq> None)"
  using assms by (cases "ps ! w") (auto simp: monitor_ok_def holding_def split: if_splits)

lemma ending_run:
  assumes "monitor_ok (m, ps, S_done)" "set (map fst ts) \<subseteq> {..<length ps}" "monitor_run ts (m, ps) = (m', ps')"
  shows "monitor_ok (m', ps', S_done) \<and> length ps' = length ps \<and> (work_left ps' < work_left ps
    \<or> m' = m \<and> ps' = ps \<and> (\<forall>w \<in> set (map fst ts). ps ! w = Ended \<or> \<not> holding (ps ! w) \<and> mo_mutex m \<noteq> None))"
  using assms
proof (induction ts arbitrary: m ps)
  case (Cons t ts)
  obtain w idle where t: "t = (w, idle)" by (cases t)
  with Cons.prems(2) have w: "w < length ps" by simp
  obtain m1 p where go: "thread_worker w idle m (ps ! w) = (m1, p)" by (cases "thread_worker w idle m (ps ! w)")
  have "monitor_ok (m1, ps[w := p], S_done)" using worker_move [OF Cons.prems(1) w] go by blast
  from Cons.IH [OF this] Cons.prems(2,3) t go have IH: "monitor_ok (m', ps', S_done)" "length ps' = length ps"
    "work_left ps' < work_left (ps[w := p]) \<or> m' = m1 \<and> ps' = ps[w := p]
      \<and> (\<forall>v \<in> set (map fst ts). ps[w := p] ! v = Ended \<or> \<not> holding (ps[w := p] ! v) \<and> mo_mutex m1 \<noteq> None)" by auto
  from ending_step [OF Cons.prems(1) w go] show ?case
  proof
    assume "to_end p < to_end (ps ! w)"
    with work_left_move [OF w, of p] have "work_left (ps[w := p]) < work_left ps" by simp
    with IH show ?case by auto
  next
    assume "p = ps ! w \<and> m1 = m \<and> (p = Ended \<or> \<not> holding p \<and> mo_mutex m \<noteq> None)"
    with IH t show ?case by auto
  qed
qed simp

lemma ending_round:
  assumes ok: "monitor_ok (m, ps, S_done)" and r: "set (map fst r) = {..<length ps}" and run: "monitor_run r (m, ps) = (m', ps')"
  shows "work_left ps' \<le> work_left ps - 1"
proof (rule ccontr)
  assume "\<not> work_left ps' \<le> work_left ps - 1"
  moreover have "set (map fst r) \<subseteq> {..<length ps}" unfolding r ..
  ultimately have all: "ps' = ps" "\<forall>w \<in> set (map fst r). ps ! w = Ended \<or> \<not> holding (ps ! w) \<and> mo_mutex m \<noteq> None"
    using ending_run [OF ok _ run] by linarith+
  then have stuck: "\<forall>w < length ps. ps ! w = Ended \<or> \<not> holding (ps ! w) \<and> mo_mutex m \<noteq> None" unfolding r by blast
  have left: "0 < work_left ps" using \<open>\<not> work_left ps' \<le> work_left ps - 1\<close> all(1) by simp
  have "\<exists>p \<in> set ps. to_end p \<noteq> 0" using left by (rule contrapos_pp) (simp add: work_left_def)
  then obtain w where w: "w < length ps" "ps ! w \<noteq> Ended" unfolding in_set_conv_nth Bex_def by (metis to_end.simps(11))
  with stuck obtain h where "mo_mutex m = Some h" by blast
  then show False
  proof (cases h)
    case (By_worker v)
    with ok \<open>mo_mutex m = Some h\<close> have "v < length ps" "holding (ps ! v)" by (auto simp: monitor_ok_def)
    with stuck show False by (auto simp: holding_def)
  qed (use ok in \<open>auto simp: monitor_ok_def\<close>)
qed

lemma monitor_run_append: "monitor_run (ts @ us) s = monitor_run us (monitor_run ts s)"
  by (induction ts s rule: monitor_run.induct) (simp_all split: prod.splits)

lemma ending_rounds:
  assumes "monitor_ok (m, ps, S_done)" "list_all (\<lambda>r. set (map fst r) = {..<length ps}) rs" "monitor_run (concat rs) (m, ps) = (m', ps')"
  shows "monitor_ok (m', ps', S_done) \<and> work_left ps' \<le> work_left ps - length rs"
  using assms
proof (induction rs arbitrary: m ps)
  case (Cons r rs)
  obtain m1 ps1 where run: "monitor_run r (m, ps) = (m1, ps1)" by (cases "monitor_run r (m, ps)")
  from ending_run [OF Cons.prems(1) _ run] Cons.prems(2) have ok: "monitor_ok (m1, ps1, S_done)" "length ps1 = length ps" by auto
  have "work_left ps1 \<le> work_left ps - 1" using ending_round [OF Cons.prems(1) _ run] Cons.prems(2) by simp
  with Cons.IH [OF ok(1)] Cons.prems(2,3) run ok(2) show ?case by (auto simp: monitor_run_append)
qed simp

lemma work_left_bound: "work_left ps \<le> 7 * length ps"
proof (induction ps)
  case (Cons p ps)
  have "to_end p \<le> 7" by (cases p) auto
  with Cons show ?case by (simp add: work_left_def)
qed (simp add: work_left_def)

section \<open>Properties\<close>

text \<open>C12: The shutdown ends every worker: in any state that the program can be in after \<open>skynet_shutdown\<close> has run, whoever
  slept, waited for the mutex or was on the way to sleep then, every schedule of seven rounds per worker, in each of
  which every worker takes at least one step, ends with all of them at their end, whatever their dispatches return.\<close>

theorem shutdown_ends_workers:
  assumes "monitor_step\<^sup>*\<^sup>* (monitor_init n, replicate n Check, S_quit) (m, ps, S_done)"
    and "list_all (\<lambda>r. set (map fst r) = {..<length ps}) rounds" "length rounds = 7 * length ps"
  shows "list_all (\<lambda>p. p = Ended) (snd (monitor_run (concat rounds) (m, ps)))"
proof -
  obtain m' ps' where run: "monitor_run (concat rounds) (m, ps) = (m', ps')" by (cases "monitor_run (concat rounds) (m, ps)")
  from ending_rounds [OF monitor_reachable [OF assms(1)] assms(2) run] work_left_bound [of ps] assms(3)
  have ok: "monitor_ok (m', ps', S_done)" and "work_left ps' = 0" by auto
  then have "to_end p = 0" if "p \<in> set ps'" for p using that by (simp add: work_left_def)
  moreover have "p \<noteq> Cond_wait \<and> p \<noteq> Cond_enter" if "p \<in> set ps'" for p
    using ok that by (auto simp: monitor_ok_def in_set_conv_nth)
  moreover have "p = Ended" if "to_end p = 0" "p \<noteq> Cond_wait" "p \<noteq> Cond_enter" for p using that by (cases p) auto
  ultimately show ?thesis using run by (simp add: list_all_iff)
qed

lemma monitor_one: "monitor_step s s' \<Longrightarrow> monitor_step\<^sup>*\<^sup>* s' s'' \<Longrightarrow> monitor_step\<^sup>*\<^sup>* s s''"
  by (rule converse_rtranclp_into_rtranclp)

lemma shutdown_only:
  "monitor_step\<^sup>*\<^sup>* (monitor_init n, ps, S_quit)
     (\<lparr>mo_count = n, mo_sleep = 0, mo_quit = True, mo_mutex = None\<rparr>, map wake ps, S_done)"
proof -
  note step = monitor_step.shutdown
  let ?m = "\<lambda>q l. \<lparr>mo_count = n, mo_sleep = 0, mo_quit = q, mo_mutex = l\<rparr>"
  have "monitor_step (?m False None, ps, S_quit) (?m True None, ps, S_lock)"
    "monitor_step (?m True None, ps, S_lock) (?m True (Some By_shutdown), ps, S_broadcast)"
    "monitor_step (?m True (Some By_shutdown), ps, S_broadcast) (?m True (Some By_shutdown), map wake ps, S_unlock)"
    "monitor_step (?m True (Some By_shutdown), map wake ps, S_unlock) (?m True None, map wake ps, S_done)"
    using step [of "?m False None" ps S_quit] step [of "?m True None" ps S_lock] step [of "?m True (Some By_shutdown)" ps S_broadcast]
      step [of "?m True (Some By_shutdown)" "map wake ps" S_unlock] by simp_all
  then have "monitor_step\<^sup>*\<^sup>* (?m False None, ps, S_quit) (?m True None, map wake ps, S_done)"
    by (blast intro: monitor_one)
  then show ?thesis by (simp add: monitor_init_def)
qed

lemma shutdown_ends_workers_witness:
  "list_all (\<lambda>p. p = Ended) (snd (monitor_run (concat (replicate 14 [(0, True), (1, False)]))
     (\<lparr>mo_count = 2, mo_sleep = 0, mo_quit = True, mo_mutex = None\<rparr>, [Check, Check])))"
  by (rule shutdown_ends_workers [where n = 2])
    (use shutdown_only [of 2 "[Check, Check]"] in \<open>auto simp: list_all_iff numeral_2_eq_2 wake_def\<close>)



end
