(* ===== verification/Spec2Isabelle.thy ===== *)
theory Spec2Isabelle
  imports Timer Worker Socket_Life Harbor_Stream Http_Stream Logger_Service Malloc Monitor
begin

text \<open>
  skynet-octopus, a framework of services that talk by messages: the C code of its core (\<open>skynet-src/\<close>) and of
  its own services (\<open>service-src/\<close>), as definitions, with the properties that make each part correct.

  \<^bold>\<open>The program.\<close> A service has a handle (node and slot), perhaps a name, and a queue of messages. Sending appends
  to the queue of the target and links the queue into the global queue of queues with work; worker threads take
  queues from there and call the service with one message at a time. A timer thread moves a wheel of timers, a
  socket thread turns what the kernel reports into messages for the service that owns the socket, and a harbor
  service carries messages between nodes. The gates cut the streams of their connections into packets and
  pass those on to other services.

  \<^bold>\<open>Conventions.\<close> A failed assertion, a bad or dangling pointer, an access outside an array and the use of an
  uninitialised value are \<open>None\<close>; the errors that the code returns are values. A C \<open>int\<close> is an \<open>int\<close> where it cannot
  overflow and a word where its width matters; \<open>uint32_t\<close> is \<open>u32\<close>, a buffer a list of bytes, a NUL-terminated string that is compared as
  such a \<open>cstring\<close>. A section under a lock is one step; \<open>Locks\<close> says what this rests on. A loop that may not end is
  a \<open>partial_function (option)\<close>, for which not returning is \<open>None\<close> too; the others are total functions, so nothing here
  runs on fuel. What belongs to the system (the kernel's socket calls, the clock, loaded modules, uninitialised bytes, whether a
  file may be created) is an argument, and a hypothesis names what a property needs of it. A handler of a service returns the
  calls it makes (\<open>Service_Api.call\<close>) and its new state; \<open>Service_Api.perform\<close> runs those calls on the
  server's state.

  \<^bold>\<open>The theories.\<close>

  Shared: \<open>Prelude\<close> (machine types, strings with the order of \<open>strcmp\<close> as instances of \<open>equal\<close> and \<open>linorder\<close>, bytes of
  integers), \<open>Interfaces\<close> (the contracts between components), \<open>Messages\<close> (the constants and structs of \<open>skynet.h\<close>).

  Messages and services: \<open>Mq\<close> and \<open>Global_Mq\<close> (\<open>skynet_mq.c\<close>: ring buffers, the linked queue of queues, the release of a
  queue), \<open>Harbor\<close> and \<open>Remote\<close> (\<open>skynet_harbor.c\<close>: handles, the layout of a message between nodes), \<open>Service\<close>
  (\<open>skynet_service.c\<close>: slots and the sorted directory of names), \<open>Server\<close> (\<open>skynet_server.c\<close> and the parts of the other
  files that send: sending, creating, closing, releasing, dispatch), \<open>Worker\<close> and \<open>Monitor\<close> (\<open>skynet_main.c\<close>: the
  interleaving of workers and senders; sleep, tick and shutdown), \<open>Timer\<close> (\<open>skynet_timer.c\<close>), \<open>Config\<close>
  (\<open>skynet_config.c\<close>), \<open>Malloc\<close> (\<open>skynet_malloc.c\<close>), \<open>Locks\<close> (\<open>skynet_spinlock.h\<close>, \<open>skynet_rwlock.h\<close>, \<open>skynet_atomic.h\<close>).

  Sockets: \<open>Socket_State\<close>, \<open>Socket_Send\<close>, \<open>Socket_Ctrl\<close>, \<open>Socket_Poll\<close> (\<open>socket_server.c\<close> in the order of its parts: slots and
  kernel, write buffers and sending, requests of the pipe, the poll; and \<open>skynet_socket.c\<close>), with their properties in
  \<open>Socket_Order\<close> and \<open>Socket_Life\<close>.

  Services and their tools: \<open>Service_Api\<close> (the calls of a service, the C string functions), \<open>Hashid\<close> and \<open>Databuffer\<close>
  (\<open>util/\<close>), \<open>Gate\<close> (\<open>service_gate.c\<close>), \<open>Base64\<close>, \<open>Sha1\<close>, \<open>Websocket\<close> (\<open>util/base64.h\<close>, \<open>util/sha1.h\<close>,
  \<open>websocket/websocket.c\<close>) with \<open>Websocket_Frame\<close> and \<open>Websocket_Handshake\<close>, \<open>Gatews\<close> and \<open>Gatews_Stream\<close>
  (\<open>service_gatews.c\<close>), \<open>Harbor_Service\<close> and \<open>Harbor_Stream\<close> (\<open>service_harbor.c\<close>), \<open>Http_Encode\<close>, \<open>Http_Service\<close> and
  \<open>Http_Stream\<close> (\<open>http/http_encode.h\<close>, \<open>http/http_proxy.c\<close>, \<open>service_http.c\<close>), \<open>Simdb\<close> (\<open>service_simdb.c\<close>),
  \<open>Logger_Service\<close> (\<open>service_logger.c\<close>).

  \<^bold>\<open>The interfaces.\<close> \<open>fifo\<close>: pushes and pops answer as on a list; interpreted by the ring buffer (\<open>Mq\<close>, as \<open>ring\<close>).
  \<open>work_list\<close>: what waits is taken in order and once; by the global queue (\<open>Global_Mq\<close>, as \<open>gq\<close>). \<open>id_table\<close>: a finite map
  from ids to slots; by the table of connections (\<open>Hashid\<close>, as \<open>ids\<close>), and used by all services with connections.
  \<open>packet_buffer\<close>: a stream in chunks comes out as its packets; by the buffer of length-prefixed packets (\<open>Databuffer\<close>, as \<open>stream\<close>),
  which the gate and the harbor service read, and by an open websocket connection (\<open>Gatews_Stream\<close>, as \<open>ws\<close>).

  \<^bold>\<open>What is shown.\<close>
  \<^item> Messages: the ring buffer is a list, across wrap-around and growth; no service runs on two workers at once, no queue with
    messages is forgotten, every message is taken once and in order, and no step of a worker faults, in every
    interleaving; sending by handle reaches the one service and wakes it; names and handles are found as long as
    their service lives; a closed service is released once its queue is drained. Closing twice is a fault.
  \<^item> Threads: the spin lock and, with the built-in compare-and-swap, the lock of readers and writers exclude and make
    progress, while with that of C11 two writers get in at once; a worker that sleeps is woken by the next tick, and the
    shutdown ends all workers. The memory check lists exactly the blocks in use.
  \<^item> Time: a tick dispatches exactly the nodes due, across the cascades and the wrap of the clock; a timer fires at
    its tick and no other; the clock's advance is the number of ticks.
  \<^item> Sockets: the bytes of a connection reach the kernel in the order of the sends, whichever of three ways each
    takes; the close of a socket is reported once; the types of a slot follow the life of a socket; an id is found
    whenever a slot is free.
  \<^item> Services: the gates, the HTTP service and the two harbor services together deliver what a connection brings,
    whatever its chunks, once, in order and unchanged; the gate never faults; the handshake accepts exactly the requests
    that open a websocket; an empty websocket message makes its loop run forever; the simple database is a map; the log keeps
    every line; a written option is read back.
  \<^item> Encodings: Base64 is that of RFC 4648, SHA-1 that of FIPS 180 but for one length of message, websocket frames
    those of RFC 6455; messages between nodes and URLs are read back.

  \<^bold>\<open>Bounds.\<close> The fixed arrays of the code are lists of their size (\<open>MAX_SOCKET\<close> slots of sockets, 256 and four times 64 slots of
  timers, 32 nodes); a stream property asks that a packet and a chunk fit together into the buffer of the connection;
  the progress of the lock takes eight rounds in which every thread moves, the end of the workers seven rounds per worker.

  \<^bold>\<open>Not modelled.\<close> The wrappers of \<open>epoll\<close> and \<open>kqueue\<close>, of which the poll's events are an argument; the text of
  \<open>socket_server_info\<close> and the bytes of a request in the pipe, which is written in one piece; the
  allocator, whose answer is a fresh address (\<open>Malloc\<close> has the table that checks it); the start of
  threads and signal handlers and the order of calls in \<open>main\<close>; the time and the thread at the
  head of a log line (what a log line becomes as a message is in \<open>Server\<close>); the services for Lua, Python and MongoDB, which are
  glue to interpreters and a client that are not part of the repository; the parser \<open>http/http_parser.c\<close>, a
  copy of joyent's, which is an argument of \<open>Http_Service\<close>; the headers under \<open>service-src/3rd\<close>.
\<close>

end
